(* ===== verification/GoFloat.thy ===== *)
theory GoFloat
  imports Prelude "HOL-Library.Log_Nat"
begin

text \<open>
  Go's \<open>float64\<close>: IEEE 754 binary64 with round-half-even, as a not-a-number, the two infinities, or
  a finite value held as an exact rational. Every operation computes the exact rational result and
  rounds it once, as the hardware does. The sign of a zero is not kept: the program never divides
  by a zero that it has not tested for, so no branch can observe it.
\<close>

datatype f64 = NaN | PosInf | NegInf | Fin rat

subsection \<open>Rounding\<close>

definition pow2 :: "int \<Rightarrow> rat" where
  "pow2 k = (if 0 \<le> k then of_int (2 ^ nat k) else 1 / of_int (2 ^ nat (- k)))"

text \<open>\<open>flog2 q\<close> is the exponent of the leading bit of a positive \<open>q\<close>.\<close>

definition flog2 :: "rat \<Rightarrow> int" where
  "flog2 q = (case quotient_of q of (n, d) \<Rightarrow>
     (let k = bitlen n - bitlen d in if pow2 k \<le> q then k else k - 1))"

definition round_half_even :: "rat \<Rightarrow> int" where
  "round_half_even q =
     (let f = \<lfloor>q\<rfloor>; r = q - of_int f in
      if r < 1 / 2 then f else if 1 / 2 < r then f + 1 else if even f then f else f + 1)"

definition fround :: "rat \<Rightarrow> f64" where
  "fround q =
     (if q = 0 then Fin 0
      else
        (let e = max (flog2 \<bar>q\<bar> - 52) (- 1074);
             v = of_int (round_half_even (q / pow2 e)) * pow2 e
         in if pow2 1024 \<le> v then PosInf else if v \<le> - pow2 1024 then NegInf else Fin v))"

subsection \<open>Operations\<close>

definition f_of_int :: "int \<Rightarrow> f64" where
  "f_of_int n = fround (of_int n)"

fun f_neg :: "f64 \<Rightarrow> f64" where
  "f_neg NaN = NaN"
| "f_neg PosInf = NegInf"
| "f_neg NegInf = PosInf"
| "f_neg (Fin q) = Fin (- q)"

fun f_add :: "f64 \<Rightarrow> f64 \<Rightarrow> f64" where
  "f_add (Fin a) (Fin b) = fround (a + b)"
| "f_add NaN _ = NaN"
| "f_add _ NaN = NaN"
| "f_add PosInf NegInf = NaN"
| "f_add NegInf PosInf = NaN"
| "f_add PosInf _ = PosInf"
| "f_add _ PosInf = PosInf"
| "f_add NegInf _ = NegInf"
| "f_add _ NegInf = NegInf"

definition f_sub :: "f64 \<Rightarrow> f64 \<Rightarrow> f64" where
  "f_sub a b = f_add a (f_neg b)"

fun f_sgn :: "f64 \<Rightarrow> int" where
  "f_sgn NaN = 0"
| "f_sgn PosInf = 1"
| "f_sgn NegInf = - 1"
| "f_sgn (Fin q) = (if 0 < q then 1 else if q < 0 then - 1 else 0)"

definition f_inf :: "int \<Rightarrow> f64" where
  "f_inf s = (if 0 < s then PosInf else if s < 0 then NegInf else NaN)"

fun f_mul :: "f64 \<Rightarrow> f64 \<Rightarrow> f64" where
  "f_mul (Fin a) (Fin b) = fround (a * b)"
| "f_mul NaN _ = NaN"
| "f_mul _ NaN = NaN"
| "f_mul a b = f_inf (f_sgn a * f_sgn b)"

fun f_div :: "f64 \<Rightarrow> f64 \<Rightarrow> f64" where
  "f_div NaN _ = NaN"
| "f_div _ NaN = NaN"
| "f_div (Fin a) (Fin b) = (if b = 0 then f_inf (f_sgn (Fin a)) else fround (a / b))"
| "f_div (Fin a) _ = Fin 0"
| "f_div a (Fin b) = (if b = 0 then a else f_inf (f_sgn a * f_sgn (Fin b)))"
| "f_div _ _ = NaN"

text \<open>Comparisons: every comparison with NaN is false.\<close>

fun f_less :: "f64 \<Rightarrow> f64 \<Rightarrow> bool" where
  "f_less (Fin a) (Fin b) \<longleftrightarrow> a < b"
| "f_less NaN _ \<longleftrightarrow> False"
| "f_less _ NaN \<longleftrightarrow> False"
| "f_less PosInf _ \<longleftrightarrow> False"
| "f_less _ NegInf \<longleftrightarrow> False"
| "f_less NegInf _ \<longleftrightarrow> True"
| "f_less _ PosInf \<longleftrightarrow> True"

definition f_eq :: "f64 \<Rightarrow> f64 \<Rightarrow> bool" where
  "f_eq a b \<longleftrightarrow> a = b \<and> a \<noteq> NaN"

definition f_le :: "f64 \<Rightarrow> f64 \<Rightarrow> bool" where
  "f_le a b \<longleftrightarrow> f_less a b \<or> f_eq a b"

text \<open>A literal of the source, rounded to the nearest float64 by the compiler.\<close>

abbreviation f_lit :: "rat \<Rightarrow> f64" where
  "f_lit q \<equiv> fround q"

text \<open>
  \<open>int64(x)\<close> truncates towards zero. Outside the range of \<open>int64\<close> the Go specification leaves the
  result to the implementation; the model takes the value of the amd64 instruction, the smallest
  \<open>int64\<close>.
\<close>

fun f_to_int64 :: "f64 \<Rightarrow> int" where
  "f_to_int64 (Fin q) =
     (let t = (if 0 \<le> q then \<lfloor>q\<rfloor> else - \<lfloor>- q\<rfloor>) in
      if - (2 ^ 63) \<le> t \<and> t < 2 ^ 63 then t else - (2 ^ 63))"
| "f_to_int64 _ = - (2 ^ 63)"

subsection \<open>Facts\<close>

lemma pow2_pos [simp]: "0 < pow2 k"
  by (simp add: pow2_def)

lemma round_half_even_of_int [simp]: "round_half_even (of_int n) = n"
  by (simp add: round_half_even_def Let_def)

lemma fround_zero [simp]: "fround 0 = Fin 0"
  by (simp add: fround_def)

lemma fround_not_NaN [simp]: "fround q \<noteq> NaN"
  by (simp add: fround_def Let_def)

lemma f_less_irrefl [simp]: "\<not> f_less a a"
  by (cases a) auto

lemma f_less_trans: "f_less a b \<Longrightarrow> f_less b c \<Longrightarrow> f_less a c"
  by (cases a; cases b; cases c) auto

lemma f_less_linear: "a \<noteq> NaN \<Longrightarrow> b \<noteq> NaN \<Longrightarrow> f_less a b \<or> f_eq a b \<or> f_less b a"
  by (cases a; cases b) (auto simp: f_eq_def)

subsection \<open>Small integers are exact\<close>

lemma pow2_mono: "i \<le> j \<Longrightarrow> pow2 i \<le> pow2 j"
proof -
  assume "i \<le> j"
  consider "0 \<le> i" | "i < 0" "0 \<le> j" | "j < 0" using \<open>i \<le> j\<close> by linarith
  then show ?thesis
  proof cases
    case 1
    then show ?thesis using \<open>i \<le> j\<close> by (simp add: pow2_def power_increasing)
  next
    case 2
    have "(1 :: rat) / 2 ^ nat (- i) \<le> 1" by simp
    also have "(1 :: rat) \<le> 2 ^ nat j" by simp
    finally show ?thesis using 2 by (simp add: pow2_def)
  next
    case 3
    then show ?thesis using \<open>i \<le> j\<close> by (simp add: pow2_def frac_le power_increasing)
  qed
qed

lemma flog2_of_int: "0 < n \<Longrightarrow> n < 2 ^ k \<Longrightarrow> flog2 (of_int n) < int k"
proof -
  assume n: "0 < n" "n < 2 ^ k"
  have "bitlen n \<le> int k" using n by (simp add: bitlen_le_iff_power)
  moreover have "bitlen 1 = (1::int)"
    by (simp add: bitlen_alt_def)
  ultimately show ?thesis
    unfolding flog2_def by (simp add: Let_def)
qed

lemma fround_of_int:
  assumes "0 \<le> n" and "n < 2 ^ 53"
  shows "fround (of_int n) = Fin (of_int n)"
proof (cases "n = 0")
  case False
  then have n: "0 < n" using assms by simp
  let ?e = "max (flog2 \<bar>of_int n :: rat\<bar> - 52) (- 1074)"
  have e: "?e \<le> 0" "- 1074 \<le> ?e" using flog2_of_int [OF n assms(2)] n by simp_all
  then have p: "pow2 ?e = 1 / of_int (2 ^ nat (- ?e))" by (cases "?e = 0") (simp_all add: pow2_def)
  have "(of_int n :: rat) / pow2 ?e = of_int (n * 2 ^ nat (- ?e))" by (simp add: p)
  then have "of_int (round_half_even ((of_int n :: rat) / pow2 ?e)) * pow2 ?e = of_int (n * 2 ^ nat (- ?e)) * pow2 ?e"
    by (simp only: round_half_even_of_int)
  also have "\<dots> = of_int n" by (simp add: p)
  finally have "of_int (round_half_even ((of_int n :: rat) / pow2 ?e)) * pow2 ?e = of_int n" .
  moreover have "(of_int n :: rat) < pow2 1024"
  proof -
    have "(of_int n :: rat) < of_int (2 ^ 53)" using assms(2) by (simp only: of_int_less_iff)
    also have "\<dots> = pow2 53" by (simp add: pow2_def)
    also have "\<dots> \<le> pow2 1024" by (rule pow2_mono) simp
    finally show ?thesis .
  qed
  moreover have "- pow2 1024 < (of_int n :: rat)"
    using n pow2_pos [of 1024] by (meson less_trans neg_less_0_iff_less of_int_0_less_iff)
  ultimately show ?thesis using n by (simp add: fround_def Let_def)
qed simp

subsection \<open>Dyadic numbers are exact\<close>

lemma pow2_add: "pow2 (i + j) = pow2 i * pow2 j"
proof -
  have p: "pow2 k = 2 powi k" for k
    unfolding pow2_def power_int_def by (simp add: power_inverse power_one_over inverse_eq_divide)
  show ?thesis unfolding p by (simp add: power_int_add)
qed

lemma pow2_less: "pow2 i < pow2 j \<Longrightarrow> i < j"
  using pow2_mono [of j i] by (meson leD not_le)

lemma pow2_of_nat: "pow2 (int k) = 2 ^ k"
  by (simp add: pow2_def)

text \<open>The exponent of a quotient below a power of two.\<close>

lemma flog2_less:
  assumes q: "0 < q" "q < pow2 k"
  shows "flog2 q < k"
proof -
  obtain n d where nd: "quotient_of q = (n, d)" by (cases "quotient_of q")
  have d: "0 < d" by (rule quotient_of_denom_pos [OF nd])
  have qe: "q = of_int n / of_int d" by (rule quotient_of_div [OF nd])
  have n: "0 < n" using q(1) d unfolding qe by (simp add: zero_less_divide_iff)
  let ?b = "bitlen n - bitlen d"
  have lo: "pow2 (bitlen n - 1) \<le> of_int n" "of_int d < pow2 (bitlen d)"
  proof -
    have b: "0 \<le> bitlen n - 1" using bitlen_ge_iff_power [of 1 n] n by simp
    have "of_int (2 ^ nat (bitlen n - 1)) \<le> (of_int n :: rat)" "of_int d < (of_int (2 ^ nat (bitlen d)) :: rat)"
      using bitlen_bounds [OF n] bitlen_bounds [OF d] by (simp_all only: of_int_le_iff of_int_less_iff)
    then show "pow2 (bitlen n - 1) \<le> of_int n" "of_int d < pow2 (bitlen d)"
      using b bitlen_nonneg [of d] by (simp_all add: pow2_def)
  qed
  have "pow2 (?b - 1) < q"
  proof -
    have "pow2 (?b - 1) * of_int d < pow2 (?b - 1) * pow2 (bitlen d)" using lo(2) by (simp add: mult_strict_left_mono)
    also have "\<dots> = pow2 (bitlen n - 1)" by (simp add: pow2_add [symmetric])
    also note lo(1)
    finally have "pow2 (?b - 1) * of_int d < of_int n" .
    then show ?thesis unfolding qe using d by (simp add: pos_less_divide_eq)
  qed
  then have "pow2 (?b - 1) < pow2 k" using q(2) by (rule less_trans)
  then have "?b - 1 < k" by (rule pow2_less)
  moreover have "?b < k" if "pow2 ?b \<le> q"
    using pow2_less [of ?b k] that q(2) by (meson le_less_trans)
  ultimately show ?thesis by (simp add: flog2_def nd Let_def)
qed

text \<open>An integer of 53 bits times a power of two is a float.\<close>

lemma fround_dyadic:
  assumes q: "q = of_int m * pow2 j" and m: "\<bar>m\<bar> < 2 ^ 53" and j: "- 1074 \<le> j" "j \<le> 900"
  shows "fround q = Fin q"
proof (cases "q = 0")
  case False
  define e where "e = max (flog2 \<bar>q\<bar> - 52) (- 1074)"
  have "of_int \<bar>m\<bar> < (of_int (2 ^ 53) :: rat)" using m by (simp only: of_int_less_iff)
  then have "\<bar>q\<bar> < of_int (2 ^ 53) * pow2 j" unfolding q using pow2_pos [of j] by (simp add: abs_mult abs_of_pos)
  also have "\<dots> = pow2 (53 + j)" unfolding pow2_add by (simp add: pow2_def)
  finally have b: "\<bar>q\<bar> < pow2 (53 + j)" .
  then have e: "e \<le> j" unfolding e_def using flog2_less [of "\<bar>q\<bar>" "53 + j"] False j by simp
  have "pow2 j = pow2 e * pow2 (j - e)" by (simp add: pow2_add [symmetric])
  also have "pow2 (j - e) = of_int (2 ^ nat (j - e))" using e by (simp add: pow2_def)
  finally have "q / pow2 e = of_int (m * 2 ^ nat (j - e))" using pow2_pos [of e] unfolding q by (simp add: less_imp_neq [symmetric])
  then have "of_int (round_half_even (q / pow2 e)) * pow2 e = q / pow2 e * pow2 e" by (simp only: round_half_even_of_int)
  also have "\<dots> = q" using pow2_pos [of e] by (metis less_irrefl nonzero_eq_divide_eq)
  finally have v: "of_int (round_half_even (q / pow2 e)) * pow2 e = q" .
  have "\<bar>q\<bar> < pow2 1024" using b pow2_mono [of "53 + j" 1024] j by simp
  then show ?thesis using False v by (simp add: fround_def Let_def abs_less_iff e_def)
qed simp

subsection \<open>Large integers are rounded by little\<close>

lemma flog2_above:
  assumes q: "0 < q"
  shows "q < pow2 (flog2 q + 1)"
proof -
  obtain n d where nd: "quotient_of q = (n, d)" by (cases "quotient_of q")
  have d: "0 < d" by (rule quotient_of_denom_pos [OF nd])
  have qe: "q = of_int n / of_int d" by (rule quotient_of_div [OF nd])
  have n: "0 < n" using q d unfolding qe by (simp add: zero_less_divide_iff)
  let ?b = "bitlen n - bitlen d"
  have b: "0 \<le> bitlen d - 1" using bitlen_ge_iff_power [of 1 d] d by simp
  have "of_int (2 ^ nat (bitlen d - 1)) \<le> (of_int d :: rat)" "of_int n < (of_int (2 ^ nat (bitlen n)) :: rat)"
    using bitlen_bounds [OF n] bitlen_bounds [OF d] by (simp_all only: of_int_le_iff of_int_less_iff)
  then have lo: "pow2 (bitlen d - 1) \<le> of_int d" "of_int n < pow2 (bitlen n)"
    using b bitlen_nonneg [of n] by (simp_all add: pow2_def)
  have "of_int n < pow2 (?b + 1) * pow2 (bitlen d - 1)" using lo(2) by (simp add: pow2_add [symmetric])
  also have "\<dots> \<le> pow2 (?b + 1) * of_int d" using lo(1) by (simp add: mult_left_mono)
  finally have "q < pow2 (?b + 1)" unfolding qe using d by (simp add: pos_divide_less_eq)
  then show ?thesis by (simp add: flog2_def nd Let_def)
qed

lemma round_half_even_within: "\<bar>of_int (round_half_even q) - q\<bar> \<le> 1 / 2"
proof -
  define f where "f = \<lfloor>q\<rfloor>"
  have f: "of_int f \<le> q" "q < of_int f + 1" using floor_correct [of q] by (simp_all add: f_def)
  show ?thesis unfolding round_half_even_def Let_def f_def [symmetric] using f by (simp add: abs_le_iff)
qed

text \<open>An \<open>int64\<close> of more than 53 bits becomes a float at most 512 away.\<close>

lemma fround_of_int_near:
  assumes "2 ^ 53 \<le> n" and "n < 2 ^ 63"
  shows "\<exists>m j. fround (of_int n) = Fin (of_int m * 2 ^ j) \<and> 0 \<le> m \<and> m < 2 ^ 53 \<and> j \<le> 11 \<and> \<bar>m * 2 ^ j - n\<bar> \<le> 512"
proof -
  have n: "0 < n" using assms(1) by simp
  have up: "(of_int n :: rat) < pow2 (flog2 (of_int n) + 1)" by (rule flog2_above) (simp add: n)
  have "of_int (2 ^ 53) \<le> (of_int n :: rat)" using assms(1) by (simp only: of_int_le_iff)
  then have "pow2 53 < pow2 (flog2 (of_int n) + 1)" using up by (simp add: pow2_def)
  then have "53 < flog2 (of_int n) + 1" by (rule pow2_less)
  moreover have "flog2 (of_int n) < 63" using flog2_of_int [OF n, of 63] assms(2) by simp
  ultimately obtain j :: nat where j: "flog2 (of_int n) = int j + 52" "1 \<le> j" "j \<le> 10"
    by (intro that [of "nat (flog2 (of_int n) - 52)"]) simp_all
  define m where "m = round_half_even (of_int n / 2 ^ j)"
  have near: "\<bar>of_int m - of_int n / 2 ^ j :: rat\<bar> \<le> 1 / 2" unfolding m_def by (rule round_half_even_within)
  have v: "\<bar>of_int m * 2 ^ j - of_int n :: rat\<bar> \<le> 512"
  proof -
    have "\<bar>of_int m - of_int n / 2 ^ j :: rat\<bar> * 2 ^ j \<le> 1 / 2 * 2 ^ j" by (rule mult_right_mono [OF near]) simp
    also have "(1 / 2 * 2 ^ j :: rat) \<le> 1 / 2 * 2 ^ 10" by (rule mult_left_mono [OF power_increasing]) (use j in simp_all)
    also have "\<bar>of_int m - of_int n / 2 ^ j :: rat\<bar> * 2 ^ j = \<bar>(of_int m - of_int n / 2 ^ j) * 2 ^ j\<bar>" by (simp add: abs_mult)
    finally show ?thesis by (simp add: left_diff_distrib)
  qed
  have near_n: "\<bar>m * 2 ^ j - n\<bar> \<le> 512"
  proof -
    have "of_int \<bar>m * 2 ^ j - n\<bar> \<le> (of_int 512 :: rat)" using v by simp
    then show ?thesis by (simp only: of_int_le_iff)
  qed
  have m: "0 \<le> m" "m \<le> 2 ^ 53"
  proof -
    have "pow2 (flog2 (of_int n) + 1) = 2 ^ 53 * 2 ^ j"
      using pow2_of_nat [of "j + 53"] by (simp add: j(1) add.commute power_add)
    then have "of_int n / 2 ^ j < (2 ^ 53 :: rat)" using up by (simp add: pos_divide_less_eq)
    moreover have "0 \<le> (of_int n / 2 ^ j :: rat)" using n by simp
    moreover have "of_int m \<le> of_int n / 2 ^ j + (1 / 2 :: rat)" "of_int n / 2 ^ j - (1 / 2 :: rat) \<le> of_int m"
      using near unfolding abs_le_iff by linarith+
    ultimately have "(of_int m :: rat) < 2 ^ 53 + 1" "- 1 < (of_int m :: rat)" by linarith+
    then have "(of_int m :: rat) < of_int (2 ^ 53 + 1)" "of_int (- 1) < (of_int m :: rat)" by simp_all
    then show "0 \<le> m" "m \<le> 2 ^ 53" by (simp_all only: of_int_less_iff)
  qed
  have fr: "fround (of_int n) = Fin (of_int m * 2 ^ j)"
  proof -
    have e: "max (flog2 \<bar>of_int n :: rat\<bar> - 52) (- 1074) = int j" using j n by simp
    have "of_int m * 2 ^ j \<le> (of_int (2 ^ 53) * 2 ^ 10 :: rat)"
      by (rule mult_mono [OF _ power_increasing]) (use m j in \<open>simp_all only: of_int_le_iff, simp_all\<close>)
    also have "\<dots> < pow2 1024" using pow2_mono [of 64 1024] by (simp add: pow2_def)
    finally have "of_int m * 2 ^ j < pow2 1024" .
    moreover have "0 \<le> (of_int m * 2 ^ j :: rat)" using m(1) by simp
    then have "- pow2 1024 < of_int m * 2 ^ j" using pow2_pos [of 1024] by linarith
    ultimately show ?thesis using n unfolding fround_def Let_def e pow2_of_nat m_def [symmetric] by simp
  qed
  show ?thesis
  proof (cases "m = 2 ^ 53")
    case True
    have "m * 2 ^ j = 2 ^ 52 * 2 ^ Suc j" unfolding True by simp
    moreover have "of_int m * 2 ^ j = (of_int (2 ^ 52) * 2 ^ Suc j :: rat)" unfolding True by simp
    moreover have "(0 :: int) \<le> 2 ^ 52" "(2 :: int) ^ 52 < 2 ^ 53" "Suc j \<le> 11" using j by simp_all
    ultimately show ?thesis using near_n fr by metis
  next
    case False
    then have "m < 2 ^ 53" "j \<le> 11" using m j by simp_all
    then show ?thesis using near_n fr m(1) by blast
  qed
qed

end
