(* ===== verification/Control.thy ===== *)
theory Control
  imports GoFloat
begin

text \<open>
  The auto-scaling controller, internal/control/control.go: the closed loop that decides the worker
  limit W from one throughput sample per tick. The tunables are fields of the controller, as in the
  code; throughputs are \<^typ>\<open>f64\<close>, worker counts are Go \<open>int\<close>.
\<close>

datatype phase = Climbing | Holding | Trimming

record sample =
  sm_throughput :: f64
  sm_sys_cpu :: f64
  sm_dev_util :: f64
  sm_rotational :: bool
  sm_blocked :: bool

record controller =
  ct_min :: int
  ct_max :: int
  ct_w :: int
  ct_ema :: f64
  ct_ema_set :: bool
  ct_ref_t :: f64
  ct_peak_t :: f64
  ct_prev_w :: int
  ct_ph :: phase
  ct_dwell :: int
  ct_hold :: int
  ct_probe_up :: bool
  ct_alpha :: f64
  ct_margin :: f64
  ct_dwell_n :: int
  ct_reprobe :: int
  ct_cpu_ceil :: f64
  ct_util_ceil :: f64

definition control_new :: "int \<Rightarrow> int \<Rightarrow> int \<Rightarrow> controller" where
  "control_new mn mx start =
     (let mn = (if mn < 1 then 1 else mn);
          mx = (if mx < mn then mn else mx);
          start = (if start < mn then mn else start);
          start = (if start > mx then mx else start)
      in \<lparr>ct_min = mn, ct_max = mx, ct_w = start,
          ct_ema = Fin 0, ct_ema_set = False, ct_ref_t = Fin 0, ct_peak_t = Fin 0,
          ct_prev_w = start, ct_ph = Climbing, ct_dwell = 0, ct_hold = 0, ct_probe_up = False,
          ct_alpha = f_lit (35 / 100), ct_margin = f_lit (6 / 100), ct_dwell_n = 2, ct_reprobe = 8,
          ct_cpu_ceil = f_lit (95 / 100), ct_util_ceil = f_lit 95\<rparr>)"

definition can_grow :: "controller \<Rightarrow> sample \<Rightarrow> bool" where
  "can_grow c s =
     (if f_le (Fin 0) (sm_sys_cpu s) \<and> f_less (ct_cpu_ceil c) (sm_sys_cpu s) then False
      else if sm_rotational s \<and> f_le (Fin 0) (sm_dev_util s) \<and> f_less (ct_util_ceil c) (sm_dev_util s)
      then False
      else True)"

text \<open>Go's \<open>w/2\<close> truncates; \<open>w\<close> is positive, where it agrees with \<open>div\<close>. The sum wraps at 64 bits.\<close>

definition grow :: "controller \<Rightarrow> int" where
  "grow c =
     (let n = wrap64 (ct_w c + ct_w c div 2);
          n = (if n \<le> ct_w c then ct_w c + 1 else n)
      in if n > ct_max c then ct_max c else n)"

text \<open>The exponentially weighted average, the first block of \<open>Update\<close>.\<close>

definition fold_sample :: "controller \<Rightarrow> sample \<Rightarrow> controller" where
  "fold_sample c s =
     (if \<not> ct_ema_set c then c\<lparr>ct_ema := sm_throughput s, ct_ema_set := True\<rparr>
      else c\<lparr>ct_ema := f_add (f_mul (ct_alpha c) (sm_throughput s))
                            (f_mul (f_sub (Fin 1) (ct_alpha c)) (ct_ema c))\<rparr>)"

definition raise_peak :: "controller \<Rightarrow> controller" where
  "raise_peak c = (if f_less (ct_peak_t c) (ct_ema c) then c\<lparr>ct_peak_t := ct_ema c\<rparr> else c)"

text \<open>A tentative increase: remember W, grow, and let the throughput settle.\<close>

definition step_up :: "controller \<Rightarrow> controller" where
  "step_up c = c\<lparr>ct_prev_w := ct_w c, ct_w := grow c, ct_dwell := ct_dwell_n c\<rparr>"

definition update_climbing :: "controller \<Rightarrow> sample \<Rightarrow> controller" where
  "update_climbing c s =
     (if f_less (f_mul (ct_ref_t c) (f_add (Fin 1) (ct_margin c))) (ct_ema c)
      then (let c = raise_peak (c\<lparr>ct_ref_t := ct_ema c\<rparr>) in
            if can_grow c s \<and> ct_w c < ct_max c then step_up c
            else c\<lparr>ct_ph := Holding, ct_hold := 0\<rparr>)
      else c\<lparr>ct_w := ct_prev_w c, ct_ph := Holding, ct_hold := 0, ct_dwell := ct_dwell_n c\<rparr>)"

text \<open>The inner switch of the holding phase: probe upwards, trim, or stay.\<close>

definition hold_probe :: "controller \<Rightarrow> sample \<Rightarrow> controller" where
  "hold_probe c s =
     (if ct_probe_up c \<and> can_grow c s \<and> ct_w c < ct_max c
      then (step_up c)\<lparr>ct_ph := Climbing\<rparr>
      else if ct_w c > ct_min c
      then c\<lparr>ct_prev_w := ct_w c, ct_w := ct_w c - 1, ct_ph := Trimming, ct_dwell := ct_dwell_n c\<rparr>
      else if can_grow c s \<and> ct_w c < ct_max c
      then (step_up c)\<lparr>ct_ph := Climbing\<rparr>
      else c)"

definition update_holding :: "controller \<Rightarrow> sample \<Rightarrow> controller" where
  "update_holding c s =
     (let c = raise_peak (c\<lparr>ct_hold := ct_hold c + 1, ct_ref_t := ct_ema c\<rparr>)
      in if ct_hold c \<ge> ct_reprobe c
         then hold_probe (c\<lparr>ct_hold := 0, ct_probe_up := \<not> ct_probe_up c\<rparr>) s
         else c)"

definition update_trimming :: "controller \<Rightarrow> sample \<Rightarrow> controller" where
  "update_trimming c s =
     (if f_le (f_mul (ct_peak_t c) (f_sub (Fin 1) (ct_margin c))) (ct_ema c)
      then c\<lparr>ct_ref_t := ct_ema c, ct_ph := Holding, ct_hold := 0\<rparr>
      else c\<lparr>ct_w := ct_prev_w c, ct_ph := Holding, ct_hold := 0, ct_dwell := ct_dwell_n c\<rparr>)"

definition clamp_w :: "controller \<Rightarrow> controller" where
  "clamp_w c =
     (let c = (if ct_w c < ct_min c then c\<lparr>ct_w := ct_min c\<rparr> else c)
      in if ct_w c > ct_max c then c\<lparr>ct_w := ct_max c\<rparr> else c)"

text \<open>\<open>Update\<close>: the new controller; the limit it returns is its \<^const>\<open>ct_w\<close>.\<close>

definition update :: "controller \<Rightarrow> sample \<Rightarrow> controller" where
  "update c s =
     (let c = fold_sample c s in
      if ct_dwell c > 0 then c\<lparr>ct_dwell := ct_dwell c - 1\<rparr>
      else if sm_blocked s
      then (if can_grow c s \<and> ct_w c < ct_max c then step_up c else c)
      else clamp_w
        (case ct_ph c of
           Climbing \<Rightarrow> update_climbing c s
         | Holding \<Rightarrow> update_holding c s
         | Trimming \<Rightarrow> update_trimming c s))"

fun run_updates :: "controller \<Rightarrow> sample list \<Rightarrow> controller" where
  "run_updates c [] = c"
| "run_updates c (s # ss) = run_updates (update c s) ss"

subsection \<open>The invariant\<close>

definition ctl_inv :: "controller \<Rightarrow> bool" where
  "ctl_inv c \<longleftrightarrow>
     1 \<le> ct_min c \<and> ct_min c \<le> ct_w c \<and> ct_w c \<le> ct_max c \<and>
     ct_min c \<le> ct_prev_w c \<and> ct_prev_w c \<le> ct_max c \<and>
     0 \<le> ct_dwell c \<and> 0 < ct_dwell_n c \<and> ct_dwell c \<le> ct_dwell_n c \<and>
     0 \<le> ct_hold c \<and> ct_hold c < ct_reprobe c \<and>
     (ct_ph c = Climbing \<longrightarrow> ct_prev_w c \<le> ct_w c)"

lemmas update_defs = update_def fold_sample_def update_climbing_def update_holding_def
  hold_probe_def update_trimming_def clamp_w_def raise_peak_def step_up_def

lemma grow_bounds: "ct_w c < ct_max c \<Longrightarrow> ct_w c < grow c \<and> grow c \<le> ct_max c"
  unfolding grow_def Let_def by auto

lemma can_grow_cong [simp]:
  "can_grow (c\<lparr>ct_ema := e\<rparr>) s = can_grow c s" "can_grow (c\<lparr>ct_ema_set := b\<rparr>) s = can_grow c s"
  "can_grow (c\<lparr>ct_ref_t := e\<rparr>) s = can_grow c s" "can_grow (c\<lparr>ct_peak_t := e\<rparr>) s = can_grow c s"
  "can_grow (c\<lparr>ct_hold := n\<rparr>) s = can_grow c s" "can_grow (c\<lparr>ct_probe_up := b\<rparr>) s = can_grow c s"
  by (simp_all add: can_grow_def)

lemma grow_cong [simp]:
  "grow (c\<lparr>ct_ema := e\<rparr>) = grow c" "grow (c\<lparr>ct_ema_set := b\<rparr>) = grow c"
  "grow (c\<lparr>ct_ref_t := e\<rparr>) = grow c" "grow (c\<lparr>ct_peak_t := e\<rparr>) = grow c"
  "grow (c\<lparr>ct_hold := n\<rparr>) = grow c" "grow (c\<lparr>ct_probe_up := b\<rparr>) = grow c"
  by (simp_all add: grow_def Let_def)

lemma ctl_inv_cong [simp]:
  "ctl_inv (c\<lparr>ct_ema := e\<rparr>) = ctl_inv c" "ctl_inv (c\<lparr>ct_ema_set := b\<rparr>) = ctl_inv c"
  "ctl_inv (c\<lparr>ct_ref_t := e\<rparr>) = ctl_inv c" "ctl_inv (c\<lparr>ct_peak_t := e\<rparr>) = ctl_inv c"
  "ctl_inv (c\<lparr>ct_probe_up := b\<rparr>) = ctl_inv c"
  by (simp_all add: ctl_inv_def)

lemma control_new_inv: "ctl_inv (control_new mn mx start)"
  unfolding ctl_inv_def control_new_def Let_def by simp

lemma fold_sample_inv: "ctl_inv c \<Longrightarrow> ctl_inv (fold_sample c s)"
  by (simp add: ctl_inv_def fold_sample_def)

lemma step_up_inv: "ctl_inv c \<Longrightarrow> ct_w c < ct_max c \<Longrightarrow> ctl_inv (step_up c)"
  using grow_bounds [of c] by (auto simp: ctl_inv_def step_up_def)

lemma clamp_w_id: "ctl_inv c \<Longrightarrow> clamp_w c = c"
  by (simp add: ctl_inv_def clamp_w_def)

lemma raise_peak_inv [simp]: "ctl_inv (raise_peak c) = ctl_inv c"
  by (simp add: ctl_inv_def raise_peak_def)

lemma raise_peak_frame [simp]:
  "ct_w (raise_peak c) = ct_w c" "ct_max (raise_peak c) = ct_max c" "ct_min (raise_peak c) = ct_min c"
  "ct_prev_w (raise_peak c) = ct_prev_w c" "ct_dwell_n (raise_peak c) = ct_dwell_n c"
  "ct_hold (raise_peak c) = ct_hold c" "ct_reprobe (raise_peak c) = ct_reprobe c"
  "ct_probe_up (raise_peak c) = ct_probe_up c" "ct_dwell (raise_peak c) = ct_dwell c"
  "ct_ph (raise_peak c) = ct_ph c" "can_grow (raise_peak c) s = can_grow c s"
  "grow (raise_peak c) = grow c"
  by (simp_all add: raise_peak_def)

lemma update_climbing_inv: "ctl_inv c \<Longrightarrow> ctl_inv (update_climbing c s)"
  unfolding update_climbing_def Let_def
  by (simp add: step_up_inv) (simp add: ctl_inv_def)

lemma step_up_climbing_inv:
  "ctl_inv c \<Longrightarrow> ct_w c < ct_max c \<Longrightarrow> ctl_inv ((step_up c)\<lparr>ct_ph := Climbing\<rparr>)"
  using step_up_inv [of c] grow_bounds [of c] by (simp add: ctl_inv_def step_up_def)

lemma hold_probe_inv: "ctl_inv c \<Longrightarrow> ctl_inv (hold_probe c s)"
  unfolding hold_probe_def by (simp add: step_up_climbing_inv) (simp add: ctl_inv_def)

lemma update_holding_inv: "ctl_inv c \<Longrightarrow> ctl_inv (update_holding c s)"
  unfolding update_holding_def Let_def
  by (auto intro!: hold_probe_inv) (auto simp: ctl_inv_def raise_peak_def)

lemma update_trimming_inv: "ctl_inv c \<Longrightarrow> ctl_inv (update_trimming c s)"
  by (auto simp: update_trimming_def ctl_inv_def)

lemma update_inv [inv_intros]:
  assumes "ctl_inv c" shows "ctl_inv (update c s)"
proof -
  have c': "ctl_inv (fold_sample c s)" by (rule fold_sample_inv [OF assms])
  then have "ct_dwell (fold_sample c s) > 0 \<Longrightarrow>
      ctl_inv ((fold_sample c s)\<lparr>ct_dwell := ct_dwell (fold_sample c s) - 1\<rparr>)"
    by (simp add: ctl_inv_def)
  with c' show ?thesis
    unfolding update_def Let_def
    by (simp add: clamp_w_id update_climbing_inv update_holding_inv update_trimming_inv step_up_inv
        split: phase.split)
qed

lemma run_updates_inv: "ctl_inv c \<Longrightarrow> ctl_inv (run_updates c ss)"
  by (induction ss arbitrary: c) (auto intro: update_inv)

lemma run_updates_append: "run_updates c (ss @ ts) = run_updates (run_updates c ss) ts"
  by (induction ss arbitrary: c) auto

text \<open>No step changes the bounds or the tunables.\<close>

definition same_tuning :: "controller \<Rightarrow> controller \<Rightarrow> bool" where
  "same_tuning c d \<longleftrightarrow> ct_min d = ct_min c \<and> ct_max d = ct_max c \<and> ct_dwell_n d = ct_dwell_n c \<and>
     ct_cpu_ceil d = ct_cpu_ceil c \<and> ct_util_ceil d = ct_util_ceil c"

lemma same_tuning_trans: "same_tuning a b \<Longrightarrow> same_tuning b c \<Longrightarrow> same_tuning a c"
  by (simp add: same_tuning_def)

lemma same_tuning_parts:
  "same_tuning c (fold_sample c s)" "same_tuning c (step_up c)" "same_tuning c (raise_peak c)"
  "same_tuning c (clamp_w c)"
  by (simp_all add: same_tuning_def fold_sample_def step_up_def raise_peak_def clamp_w_def Let_def)

lemma same_tuning_phases:
  "same_tuning c (update_climbing c s)" "same_tuning c (update_holding c s)"
  "same_tuning c (update_trimming c s)"
  by (auto simp: same_tuning_def update_climbing_def update_holding_def update_trimming_def
      hold_probe_def step_up_def raise_peak_def Let_def)

lemma same_tuning_update: "same_tuning c (update c s)"
proof -
  let ?c = "fold_sample c s"
  have c: "same_tuning c ?c" by (rule same_tuning_parts)
  have "same_tuning ?c (update c s)"
    unfolding update_def Let_def
    using same_tuning_parts(2) [of ?c] same_tuning_phases [of ?c s]
    by (auto intro: same_tuning_trans [OF _ same_tuning_parts(4)] split: phase.split)
      (simp_all add: same_tuning_def)
  with c show ?thesis by (rule same_tuning_trans)
qed

lemma update_bounds_frame [frame_simps]:
  "ct_min (update c s) = ct_min c" "ct_max (update c s) = ct_max c"
  "ct_dwell_n (update c s) = ct_dwell_n c" "ct_cpu_ceil (update c s) = ct_cpu_ceil c"
  "ct_util_ceil (update c s) = ct_util_ceil c"
  using same_tuning_update [of c s] by (simp_all add: same_tuning_def)

lemma run_updates_bounds_frame [frame_simps]:
  "ct_min (run_updates c ss) = ct_min c" "ct_max (run_updates c ss) = ct_max c"
  by (induction ss arbitrary: c) (simp_all add: frame_simps)

subsection \<open>Settling, guards and tentative changes\<close>

text \<open>The fields that only a decision changes, not the settling ticks.\<close>

definition decided :: "controller \<Rightarrow> int \<times> int \<times> phase \<times> f64 \<times> f64 \<times> f64" where
  "decided c = (ct_w c, ct_prev_w c, ct_ph c, ct_ref_t c, ct_peak_t c, ct_margin c)"

lemma update_dwelling:
  assumes "0 < ct_dwell c"
  shows "decided (update c s) = decided c \<and> ct_dwell (update c s) = ct_dwell c - 1"
  using assms by (auto simp: update_def fold_sample_def decided_def)

lemma run_updates_dwelling:
  "int (length ss) \<le> ct_dwell c \<Longrightarrow>
     decided (run_updates c ss) = decided c \<and> ct_dwell (run_updates c ss) = ct_dwell c - int (length ss)"
proof (induction ss arbitrary: c)
  case (Cons s ss)
  then have "decided (update c s) = decided c \<and> ct_dwell (update c s) = ct_dwell c - 1"
    by (intro update_dwelling) simp
  with Cons show ?case by simp
qed simp

lemma fold_sample_frame [simp]:
  "ct_w (fold_sample c s) = ct_w c" "ct_prev_w (fold_sample c s) = ct_prev_w c"
  "ct_ph (fold_sample c s) = ct_ph c" "ct_dwell (fold_sample c s) = ct_dwell c"
  "ct_dwell_n (fold_sample c s) = ct_dwell_n c" "ct_max (fold_sample c s) = ct_max c"
  "ct_min (fold_sample c s) = ct_min c" "can_grow (fold_sample c s) t = can_grow c t"
  "ct_ref_t (fold_sample c s) = ct_ref_t c" "ct_peak_t (fold_sample c s) = ct_peak_t c"
  "ct_margin (fold_sample c s) = ct_margin c" "grow (fold_sample c s) = grow c"
  by (simp_all add: fold_sample_def)

lemma update_undwelled:
  assumes "ctl_inv c" and "ct_dwell c = 0"
  shows "update c s =
     (if sm_blocked s
      then (if can_grow c s \<and> ct_w c < ct_max c then step_up (fold_sample c s) else fold_sample c s)
      else (case ct_ph c of
           Climbing \<Rightarrow> update_climbing (fold_sample c s) s
         | Holding \<Rightarrow> update_holding (fold_sample c s) s
         | Trimming \<Rightarrow> update_trimming (fold_sample c s) s))"
  using assms fold_sample_inv [OF assms(1), of s]
  by (simp add: update_def Let_def clamp_w_id update_climbing_inv update_holding_inv
      update_trimming_inv split: phase.split)

lemma phase_step_w:
  "ct_w (update_climbing c s) \<noteq> ct_w c \<Longrightarrow> ct_dwell (update_climbing c s) = ct_dwell_n c"
  "ct_w (update_holding c s) \<noteq> ct_w c \<Longrightarrow> ct_dwell (update_holding c s) = ct_dwell_n c"
  "ct_w (update_trimming c s) \<noteq> ct_w c \<Longrightarrow> ct_dwell (update_trimming c s) = ct_dwell_n c"
  by (auto simp: update_climbing_def update_holding_def update_trimming_def hold_probe_def
      step_up_def Let_def split: if_splits)

lemma phase_step_guarded:
  "\<not> can_grow c s \<Longrightarrow> ct_w (update_climbing c s) \<in> {ct_w c, ct_prev_w c}"
  "\<not> can_grow c s \<Longrightarrow> ct_w (update_holding c s) \<in> {ct_w c, ct_w c - 1}"
  "ct_w (update_trimming c s) \<in> {ct_w c, ct_prev_w c}"
  by (auto simp: update_climbing_def update_holding_def update_trimming_def hold_probe_def Let_def)

lemma update_changed_dwell:
  assumes "ctl_inv c" and "ct_w (update c s) \<noteq> ct_w c"
  shows "ct_dwell (update c s) = ct_dwell_n c"
proof (cases "ct_dwell c = 0")
  case True
  with assms show ?thesis
    using phase_step_w [of "fold_sample c s" s]
    by (auto simp: update_undwelled step_up_def split: phase.splits if_splits)
next
  case False
  with assms update_dwelling [of c s] show ?thesis by (simp add: ctl_inv_def decided_def)
qed

text \<open>C1: Whatever throughput, CPU and device samples the controller is fed (not-a-number
  included), the worker limit it returns stays within the bounds it was created with, and the lower
  bound is at least one worker.\<close>

theorem controller_stays_bounded:
  "let c = run_updates (control_new mn mx start) ss; lo = max 1 mn
   in lo \<le> ct_w c \<and> ct_w c \<le> max lo mx"
proof -
  let ?c0 = "control_new mn mx start"
  have "ctl_inv (run_updates ?c0 ss)" by (intro run_updates_inv control_new_inv)
  moreover have "ct_min (run_updates ?c0 ss) = max 1 mn" "ct_max (run_updates ?c0 ss) = max (max 1 mn) mx"
    by (simp_all add: frame_simps) (simp_all add: control_new_def Let_def)
  ultimately show ?thesis by (simp add: ctl_inv_def Let_def)
qed

text \<open>C2: A guard signal (system CPU over its ceiling, or a rotational device over its
  utilisation ceiling) forbids growth: an update then never raises W above the value it has or the
  one it is about to restore, and outside the trimming phase it never raises W at all.\<close>

theorem guard_forbids_growth:
  assumes "ctl_inv c" and "\<not> can_grow c s"
  shows "ct_w (update c s) \<le> max (ct_w c) (ct_prev_w c) \<and>
     (ct_ph c \<noteq> Trimming \<longrightarrow> ct_w (update c s) \<le> ct_w c)"
proof (cases "ct_dwell c = 0")
  case True
  with assms show ?thesis
    using phase_step_guarded [of "fold_sample c s" s]
    by (auto simp: update_undwelled ctl_inv_def split: phase.splits)
next
  case False
  with assms update_dwelling [of c s] show ?thesis by (simp add: ctl_inv_def decided_def)
qed

text \<open>After any change of W the controller waits out its settling time: the next
  \<open>DwellN\<close> samples, whatever they are, leave W where the change put it.\<close>

lemma change_settles:
  assumes "ctl_inv c" and "ct_w (update c s) \<noteq> ct_w c" and "int (length ss) \<le> ct_dwell_n c"
  shows "ct_w (run_updates (update c s) ss) = ct_w (update c s)"
  using run_updates_dwelling [of ss "update c s"] update_changed_dwell [OF assms(1,2)] assms(3)
  by (simp add: decided_def)

text \<open>A tentative change that brings nothing is undone. After a probe upwards, or a trim
  downwards, from the holding phase, and the settling ticks, a sample whose smoothed throughput
  does not beat the reference (for a probe) or falls below the peak (for a trim) puts W back to
  exactly the value it had before the change and returns to holding.\<close>

lemma tentative_change_undone:
  assumes inv: "ctl_inv c" and hold: "ct_ph c = Holding"
    and c1: "c1 = update c s" and ds: "int (length ds) = ct_dwell_n c"
    and c2: "c2 = run_updates c1 ds" and nb: "\<not> sm_blocked t" "\<not> sm_blocked s"
    and bad: "ct_ph c1 = Climbing \<and>
        \<not> f_less (f_mul (ct_ref_t c2) (f_add (Fin 1) (ct_margin c2))) (ct_ema (fold_sample c2 t)) \<or>
      ct_ph c1 = Trimming \<and>
        \<not> f_le (f_mul (ct_peak_t c2) (f_sub (Fin 1) (ct_margin c2))) (ct_ema (fold_sample c2 t))"
  shows "ct_w (update c2 t) = ct_w c \<and> ct_ph (update c2 t) = Holding"
proof -
  have ph: "ct_ph c1 \<noteq> Holding" using bad by auto
  then have "\<not> 0 < ct_dwell c"
    using update_dwelling [of c s] hold c1 by (auto simp: decided_def)
  then have d0: "ct_dwell c = 0" using inv by (simp add: ctl_inv_def)
  have "c1 = update_holding (fold_sample c s) s"
    using inv d0 hold nb by (simp add: c1 update_undwelled)
  with ph have prev: "ct_prev_w c1 = ct_w c" and dw: "ct_dwell c1 = ct_dwell_n c"
    using hold by (auto simp: update_holding_def hold_probe_def step_up_def Let_def split: if_splits)
  have "decided c2 = decided c1" "ct_dwell c2 = 0"
    using run_updates_dwelling [of ds c1] ds dw by (simp_all add: c2)
  then have c2s: "ct_prev_w c2 = ct_w c" "ct_ph c2 = ct_ph c1" "ct_dwell c2 = 0"
    using prev by (simp_all add: decided_def)
  have "ctl_inv c2" unfolding c2 c1 by (intro run_updates_inv update_inv inv)
  then have "update c2 t = (case ct_ph c1 of Climbing \<Rightarrow> update_climbing (fold_sample c2 t) t
      | Holding \<Rightarrow> update_holding (fold_sample c2 t) t
      | Trimming \<Rightarrow> update_trimming (fold_sample c2 t) t)"
    using c2s nb by (simp add: update_undwelled)
  with bad c2s show ?thesis by (auto simp: update_climbing_def update_trimming_def)
qed

subsection \<open>Blocked streams\<close>

lemma update_blocked:
  assumes "ctl_inv c" and "sm_blocked s" and "can_grow c s" and "ct_dwell c = 0"
  shows "min (ct_max c) (ct_w c + 1) \<le> ct_w (update c s) \<and> ct_dwell (update c s) \<le> ct_dwell_n c"
  using assms grow_bounds [of c] by (auto simp: update_undwelled step_up_def ctl_inv_def)

lemma can_grow_update: "can_grow (update c s) t = can_grow c t"
  by (simp add: can_grow_def frame_simps)

text \<open>What a run of blocked samples still has to wait: the settling ticks now, and a growth step
  plus its settling time for every worker that is missing.\<close>

definition blocked_wait :: "controller \<Rightarrow> int" where
  "blocked_wait c = ct_dwell c + (ct_dwell_n c + 1) * (ct_max c - ct_w c)"

lemma update_blocked_wait:
  assumes inv: "ctl_inv c" and s: "sm_blocked s" "can_grow c s" and w: "ct_w c < ct_max c"
  shows "blocked_wait (update c s) \<le> blocked_wait c - 1"
proof (cases "ct_dwell c = 0")
  case True
  have "ct_w c + 1 \<le> ct_w (update c s)" "ct_dwell (update c s) \<le> ct_dwell_n c"
    using update_blocked [OF inv s True] w by auto
  then have "(ct_dwell_n c + 1) * (ct_max c - ct_w (update c s))
      \<le> (ct_dwell_n c + 1) * (ct_max c - ct_w c - 1)"
    using inv by (intro mult_left_mono) (auto simp: ctl_inv_def)
  then show ?thesis
    using True \<open>ct_dwell (update c s) \<le> ct_dwell_n c\<close>
    by (simp add: blocked_wait_def frame_simps algebra_simps)
next
  case False
  then show ?thesis
    using update_dwelling [of c s] inv by (simp add: blocked_wait_def frame_simps decided_def ctl_inv_def)
qed

lemma update_blocked_full:
  assumes inv: "ctl_inv c" and s: "sm_blocked s" and w: "ct_w c = ct_max c"
  shows "ct_w (update c s) = ct_max c"
proof (cases "ct_dwell c = 0")
  case True
  then show ?thesis using inv s w by (simp add: update_undwelled)
next
  case False
  then show ?thesis using update_dwelling [of c s] inv w by (simp add: decided_def ctl_inv_def)
qed

lemma blocked_run_reaches_max:
  "ctl_inv c \<Longrightarrow> \<forall>s \<in> set ss. sm_blocked s \<and> can_grow c s \<Longrightarrow> blocked_wait c \<le> int (length ss) \<Longrightarrow>
     ct_w (run_updates c ss) = ct_max c"
proof (induction ss arbitrary: c)
  case Nil
  then have le: "ct_dwell c + (ct_dwell_n c + 1) * (ct_max c - ct_w c) \<le> 0"
    by (simp add: blocked_wait_def)
  show ?case
  proof (rule ccontr)
    assume "\<not> ?thesis"
    with Nil have "1 \<le> ct_max c - ct_w c" by (simp add: ctl_inv_def)
    then have "0 < (ct_dwell_n c + 1) * (ct_max c - ct_w c)"
      using Nil by (intro mult_pos_pos) (auto simp: ctl_inv_def)
    with le Nil show False by (simp add: ctl_inv_def)
  qed
next
  case (Cons s ss)
  let ?c = "update c s"
  have inv: "ctl_inv ?c" using Cons.prems by (simp add: update_inv)
  have grows: "\<forall>t \<in> set ss. sm_blocked t \<and> can_grow ?c t"
    using Cons.prems by (simp add: can_grow_update)
  have "blocked_wait ?c \<le> int (length ss)"
  proof (cases "ct_w c < ct_max c")
    case True
    with Cons.prems update_blocked_wait [of c s] show ?thesis by simp
  next
    case False
    with Cons.prems have w: "ct_w c = ct_max c" by (simp add: ctl_inv_def)
    then have "ct_w ?c = ct_max c" using update_blocked_full [of c s] Cons.prems by simp
    moreover have "ct_dwell ?c \<le> int (length ss)"
      using Cons.prems w update_dwelling [of c s] update_undwelled [of c s]
      by (cases "ct_dwell c = 0") (auto simp: blocked_wait_def ctl_inv_def)
    ultimately show ?thesis by (simp add: blocked_wait_def frame_simps)
  qed
  from Cons.IH [OF inv grows this] show ?case by (simp add: frame_simps)
qed

text \<open>C3: Streams that are all busy while nothing finishes make W grow to its ceiling: under
  blocked samples that no guard vetoes, W reaches the maximum within \<open>DwellN + 1\<close> ticks per
  missing worker (and the settling ticks already pending), so a stall never pins a low W.\<close>

theorem blocked_streams_reach_ceiling:
  assumes "ctl_inv c" and "\<forall>s \<in> set ss. sm_blocked s \<and> can_grow c s"
    and "ct_dwell c + (ct_dwell_n c + 1) * (ct_max c - ct_w c) \<le> int (length ss)"
  shows "ct_w (run_updates c ss) = ct_max c"
  using blocked_run_reaches_max [of c ss] assms by (simp add: blocked_wait_def)

subsection \<open>Witnesses\<close>

definition idle_sample :: sample where
  "idle_sample = \<lparr>sm_throughput = Fin 1000, sm_sys_cpu = Fin (- 1), sm_dev_util = Fin (- 1),
     sm_rotational = False, sm_blocked = False\<rparr>"

theorem guard_forbids_growth_witness:
  "let c = control_new 1 16 4; s = idle_sample\<lparr>sm_sys_cpu := Fin 1\<rparr> in
   \<not> can_grow c s \<and> ct_w (update c s) \<le> 4"
proof -
  let ?c = "control_new 1 16 4" and ?s = "idle_sample\<lparr>sm_sys_cpu := Fin 1\<rparr>"
  have h: "\<not> can_grow ?c ?s" by code_simp
  have "ct_w ?c = 4" "ct_prev_w ?c = 4" by code_simp+
  then show ?thesis
    using guard_forbids_growth [OF control_new_inv h] h by (simp add: Let_def)
qed

theorem change_settles_witness:
  "let c = control_new 1 16 4; c1 = update c idle_sample in
   ct_w c1 = 6 \<and> ct_w (run_updates c1 [idle_sample, idle_sample]) = 6"
proof -
  let ?c = "control_new 1 16 4"
  have w: "ct_w (update ?c idle_sample) = 6" "ct_w ?c = 4" "ct_dwell_n ?c = 2" by code_simp+
  then show ?thesis
    using change_settles [OF control_new_inv, of 1 16 4 idle_sample "[idle_sample, idle_sample]"]
    by (simp add: Let_def)
qed

theorem tentative_change_undone_witness:
  "let c = (control_new 1 16 4)\<lparr>ct_ph := Holding, ct_hold := 7, ct_ema := Fin 1000, ct_ema_set := True,
      ct_peak_t := Fin 1000\<rparr>;
      c1 = update c idle_sample; c2 = run_updates c1 [idle_sample, idle_sample]
   in ct_w c = 4 \<and> ct_w c1 = 6 \<and> ct_w (update c2 idle_sample) = 4"
proof -
  let ?c = "(control_new 1 16 4)\<lparr>ct_ph := Holding, ct_hold := 7, ct_ema := Fin 1000,
     ct_ema_set := True, ct_peak_t := Fin 1000\<rparr>"
  let ?c1 = "update ?c idle_sample"
  let ?c2 = "run_updates ?c1 [idle_sample, idle_sample]"
  have inv: "ctl_inv ?c" by (simp add: ctl_inv_def control_new_def Let_def)
  have ph: "ct_ph ?c = Holding" "int (length [idle_sample, idle_sample]) = ct_dwell_n ?c"
    and nb: "\<not> sm_blocked idle_sample"
    by code_simp+
  have w: "ct_w ?c = 4" "ct_w ?c1 = 6" by code_simp+
  have bad: "ct_ph ?c1 = Climbing \<and>
      \<not> f_less (f_mul (ct_ref_t ?c2) (f_add (Fin 1) (ct_margin ?c2))) (ct_ema (fold_sample ?c2 idle_sample))"
    by code_simp
  show ?thesis
    using tentative_change_undone [OF inv ph(1) refl ph(2) refl nb nb disjI1 [OF bad]] w
    by (simp add: Let_def)
qed

theorem blocked_streams_reach_ceiling_witness:
  "ct_w (run_updates (control_new 1 6 4) (replicate 6 (idle_sample\<lparr>sm_blocked := True\<rparr>))) = 6"
proof -
  let ?c = "control_new 1 6 4" and ?s = "idle_sample\<lparr>sm_blocked := True\<rparr>"
  have "sm_blocked ?s \<and> can_grow ?c ?s" by code_simp
  then have s: "\<forall>s \<in> set (replicate 6 ?s). sm_blocked s \<and> can_grow ?c s" by simp
  have "ct_dwell ?c + (ct_dwell_n ?c + 1) * (ct_max ?c - ct_w ?c) \<le> int (length (replicate 6 ?s))"
    "ct_max ?c = 6"
    by code_simp+
  then show ?thesis using blocked_streams_reach_ceiling [OF control_new_inv s] by simp
qed

end
