(* ===== verification/GoErr.thy ===== *)
theory GoErr
  imports Prelude
begin

text \<open>
  Go error values. An error is its dynamic type with the values it carries: a system call number, the
  wrappers of the standard library and of \<open>fmt.Errorf("%w")\<close>, the sentinels the program compares
  with, and the program's own \<open>MetaError\<close> (internal/fsx/copy.go). \<open>nil\<close> is \<open>None\<close> of an
  option. \<open>errors.Is\<close> and \<open>errors.As\<close> walk the wrappers as the standard library does; the
  \<open>os.Is...\<close> functions look through at most one \<open>PathError\<close>.
\<close>

datatype errno =
    ENOENT | EEXIST | EPERM | EACCES | ENOSPC | EAGAIN | EBUSY | EINTR | ETIMEDOUT | ESTALE
  | ECONNRESET | ENOMEM | ENOSYS | EOPNOTSUPP | EXDEV | EINVAL | EBADF | ENOTEMPTY | ENOTDIR
  | EISDIR | ENODATA | ERANGE | ELOOP | EIO

datatype sentinel =
    ErrUnsupported | ErrPermission | ErrExist | ErrNotExist | IoEOF | ErrShortWrite
  | ErrCanceled | ErrInterrupted | ErrSourceChanged | ErrNoSource

datatype goerr =
    Errno errno
  | Sentinel sentinel
  | PathErr string string goerr
  | WrapErr string goerr
  | NewErr string "string list"
  | MetaErr string "goerr list"
  | SftpStatus nat

text \<open>
  \<open>NewErr\<close> is a message made from a format and its string arguments, kept unexpanded. A printed
  line likewise keeps its format and its arguments.
\<close>

datatype arg = Str string | Num int | Err goerr

type_synonym message = "string \<times> arg list"

text \<open>The \<open>Is\<close> method of \<open>syscall.Errno\<close>.\<close>

definition errno_is :: "errno \<Rightarrow> goerr \<Rightarrow> bool" where
  "errno_is n t =
     (case t of
        Sentinel ErrPermission \<Rightarrow> n \<in> set [EACCES, EPERM]
      | Sentinel ErrExist \<Rightarrow> n \<in> set [EEXIST, ENOTEMPTY]
      | Sentinel ErrNotExist \<Rightarrow> n = ENOENT
      | Sentinel ErrUnsupported \<Rightarrow> n \<in> set [ENOSYS, EOPNOTSUPP]
      | _ \<Rightarrow> False)"

fun err_is :: "goerr \<Rightarrow> goerr \<Rightarrow> bool" where
  "err_is (Errno n) t = (Errno n = t \<or> errno_is n t)"
| "err_is (PathErr op p e) t = (PathErr op p e = t \<or> err_is e t)"
| "err_is (WrapErr m e) t = (WrapErr m e = t \<or> err_is e t)"
| "err_is (MetaErr p es) t = (MetaErr p es = t \<or> list_ex (\<lambda>e. err_is e t) es)"
| "err_is e t = (e = t)"

text \<open>\<open>os.IsPermission\<close> and \<open>os.IsExist\<close>, \<open>os.IsNotExist\<close>.\<close>

definition underlying_error_is :: "goerr \<Rightarrow> sentinel \<Rightarrow> bool" where
  "underlying_error_is e s =
     (let e = (case e of PathErr _ _ e' \<Rightarrow> e' | _ \<Rightarrow> e)
      in e = Sentinel s \<or> (case e of Errno n \<Rightarrow> errno_is n (Sentinel s) | _ \<Rightarrow> False))"

abbreviation os_is_permission :: "goerr \<Rightarrow> bool" where
  "os_is_permission e \<equiv> underlying_error_is e ErrPermission"

abbreviation os_is_exist :: "goerr \<Rightarrow> bool" where
  "os_is_exist e \<equiv> underlying_error_is e ErrExist"

abbreviation os_is_not_exist :: "goerr \<Rightarrow> bool" where
  "os_is_not_exist e \<equiv> underlying_error_is e ErrNotExist"

text \<open>\<open>errors.As\<close> for \<open>*fsx.MetaError\<close> and \<open>*sftp.StatusError\<close>: the first match, depth first.\<close>

fun as_meta :: "goerr \<Rightarrow> bool" where
  "as_meta (MetaErr _ _) = True"
| "as_meta (PathErr _ _ e) = as_meta e"
| "as_meta (WrapErr _ e) = as_meta e"
| "as_meta _ = False"

fun as_status :: "goerr \<Rightarrow> nat option" and as_status_list :: "goerr list \<Rightarrow> nat option" where
  "as_status (SftpStatus c) = Some c"
| "as_status (PathErr _ _ e) = as_status e"
| "as_status (WrapErr _ e) = as_status e"
| "as_status (MetaErr _ es) = as_status_list es"
| "as_status _ = None"
| "as_status_list [] = None"
| "as_status_list (e # es) = (case as_status e of Some c \<Rightarrow> Some c | None \<Rightarrow> as_status_list es)"

definition isMetaErr :: "goerr option \<Rightarrow> bool" where
  "isMetaErr err = (case err of None \<Rightarrow> False | Some e \<Rightarrow> as_meta e)"

text \<open>\<open>Unsupported\<close> of internal/vfs/vfs.go; 8 is \<open>sftp.ErrSSHFxOpUnsupported\<close>.\<close>

definition unsupported :: "goerr option \<Rightarrow> bool" where
  "unsupported err =
     (case err of
        None \<Rightarrow> False
      | Some e \<Rightarrow> err_is e (Sentinel ErrUnsupported) \<or>
          (case as_status e of Some c \<Rightarrow> c = 8 | None \<Rightarrow> False))"

text \<open>internal/engine/retry_unix.go.\<close>

definition retryable :: "goerr option \<Rightarrow> bool" where
  "retryable err =
     (case err of
        None \<Rightarrow> False
      | Some e \<Rightarrow> list_ex (\<lambda>n. err_is e (Errno n))
          [EAGAIN, EBUSY, EINTR, ETIMEDOUT, ESTALE, ECONNRESET, ENOMEM])"

definition isNoSpace :: "goerr \<Rightarrow> bool" where
  "isNoSpace e = err_is e (Errno ENOSPC)"

subsection \<open>Facts\<close>

lemma err_is_wrap [simp]: "err_is (WrapErr m e) (Errno n) = err_is e (Errno n)"
  "err_is (PathErr op p e) (Errno n) = err_is e (Errno n)"
  "err_is (WrapErr m e) (Sentinel s) = err_is e (Sentinel s)"
  by simp_all

lemma err_is_errno: "err_is (Errno m) (Errno n) = (m = n)"
  by (auto simp: errno_is_def)

lemma isNoSpace_wrap [simp]: "isNoSpace (WrapErr m e) = isNoSpace e" "isNoSpace (PathErr op p e) = isNoSpace e"
  by (simp_all add: isNoSpace_def)

end
