(* ===== verification/GoPath.thy ===== *)
theory GoPath
  imports Prelude
begin

text \<open>
  Lexical path handling on slash-separated paths: the functions of Go's \<open>path\<close> package (and of
  \<open>path/filepath\<close> on Unix) that both filesystems use, \<open>relPosix\<close> and \<open>splitParts\<close> of
  internal/vfs/sftp.go, and what the two notions of a relative path mean.
\<close>

subsection \<open>Go's path package\<close>

definition path_is_abs :: "string \<Rightarrow> bool" where
  "path_is_abs p \<longleftrightarrow> has_prefix p ''/''"

text \<open>The elements of a path, without the empty and the \<open>.\<close> ones.\<close>

definition path_comps :: "string \<Rightarrow> string list" where
  "path_comps p = filter (\<lambda>c. c \<noteq> [] \<and> c \<noteq> ''.'') (split_on (CHR ''/'') p)"

fun clean_comps :: "bool \<Rightarrow> string list \<Rightarrow> string list \<Rightarrow> string list" where
  "clean_comps rooted st [] = rev st"
| "clean_comps rooted st (c # cs) =
     (if c = ''..''
      then (case st of
              [] \<Rightarrow> clean_comps rooted (if rooted then [] else [''..'']) cs
            | t # st' \<Rightarrow> (if t = ''..'' then clean_comps rooted (''..'' # st) cs
                         else clean_comps rooted st' cs))
      else clean_comps rooted (c # st) cs)"

definition path_string :: "bool \<Rightarrow> string list \<Rightarrow> string" where
  "path_string rooted cs =
     (let s = (if rooted then ''/'' else []) @ join_with ''/'' cs in if s = [] then ''.'' else s)"

definition path_clean :: "string \<Rightarrow> string" where
  "path_clean p = path_string (path_is_abs p) (clean_comps (path_is_abs p) [] (path_comps p))"

definition path_join :: "string list \<Rightarrow> string" where
  "path_join elems =
     (case dropWhile (\<lambda>e. e = []) elems of [] \<Rightarrow> [] | es \<Rightarrow> path_clean (join_with ''/'' es))"

definition path_dir :: "string \<Rightarrow> string" where
  "path_dir p =
     (case last_index_byte (CHR ''/'') p of None \<Rightarrow> path_clean [] | Some i \<Rightarrow> path_clean (take (Suc i) p))"

definition path_base :: "string \<Rightarrow> string" where
  "path_base p =
     (if p = [] then ''.''
      else (let q = trim_right_char (CHR ''/'') p;
                b = (case last_index_byte (CHR ''/'') q of None \<Rightarrow> q | Some i \<Rightarrow> drop (Suc i) q)
            in if b = [] then ''/'' else b))"

subsection \<open>Relative paths\<close>

text \<open>\<open>splitParts\<close> and \<open>relPosix\<close>; the arguments of the latter are already cleaned. The error of
  the code carries a message only, so it is a \<^typ>\<open>string\<close> here.\<close>

definition split_parts :: "string \<Rightarrow> string list" where
  "split_parts p =
     (let p = trim_prefix p ''/'' in if p = [] \<or> p = ''.'' then [] else split_on (CHR ''/'') p)"

fun common_prefix_len :: "'a list \<Rightarrow> 'a list \<Rightarrow> nat" where
  "common_prefix_len (x # xs) (y # ys) = (if x = y then Suc (common_prefix_len xs ys) else 0)"
| "common_prefix_len _ _ = 0"

definition rel_posix :: "string \<Rightarrow> string \<Rightarrow> string + string" where
  "rel_posix base target =
     (if base = target then Inr ''.''
      else if path_is_abs base \<noteq> path_is_abs target
      then Inl (''Rel: can't make '' @ target @ '' relative to '' @ base)
      else
        (let bs = split_parts base; ts = split_parts target;
             i = common_prefix_len bs ts;
             out = map (\<lambda>_. ''..'') (drop i bs) @ drop i ts
         in if out = [] then Inr ''.'' else Inr (path_join out)))"

text \<open>\<open>filepath.Rel\<close> of the standard library on Unix.\<close>

definition filepath_rel :: "string \<Rightarrow> string \<Rightarrow> string + string" where
  "filepath_rel basepath targpath =
     (let base = path_clean basepath; targ = path_clean targpath in
      if targ = base then Inr ''.''
      else if path_is_abs base \<noteq> path_is_abs targ
      then Inl (''Rel: can't make '' @ targpath @ '' relative to '' @ basepath)
      else
        (let bs = split_parts base; ts = split_parts targ; i = common_prefix_len bs ts in
         case drop i bs of
           [] \<Rightarrow> Inr (join_with ''/'' (drop i ts))
         | b # _ \<Rightarrow>
             (if b = ''..'' then Inl (''Rel: can't make '' @ targpath @ '' relative to '' @ basepath)
              else Inr (join_with ''/'' (map (\<lambda>_. ''..'') (drop i bs) @ drop i ts)))))"

subsection \<open>Normal element lists\<close>

definition plain_name :: "string \<Rightarrow> bool" where
  "plain_name c \<longleftrightarrow> c \<noteq> [] \<and> c \<noteq> ''.'' \<and> c \<noteq> ''..'' \<and> CHR ''/'' \<notin> set c"

definition path_elem :: "string \<Rightarrow> bool" where
  "path_elem c \<longleftrightarrow> c \<noteq> [] \<and> c \<noteq> ''.'' \<and> CHR ''/'' \<notin> set c"

text \<open>An absolute path is clean when it is the string of plain names.\<close>

definition clean_abs :: "string \<Rightarrow> bool" where
  "clean_abs p \<longleftrightarrow> (\<exists>cs. p = path_string True cs \<and> list_all plain_name cs)"

lemma plain_name_elem: "plain_name c \<Longrightarrow> path_elem c"
  by (simp add: plain_name_def path_elem_def)

lemma dotdot_elem [simp]: "path_elem ''..''"
  by (simp add: path_elem_def)

lemma list_all_plain_elem: "list_all plain_name cs \<Longrightarrow> list_all path_elem cs"
  by (auto simp: list_all_iff plain_name_elem)

lemma split_on_join_elems:
  "cs \<noteq> [] \<Longrightarrow> list_all path_elem cs \<Longrightarrow> split_on (CHR ''/'') (join_with ''/'' cs) = cs"
  by (rule split_join) (auto simp: list_all_iff path_elem_def)

lemma filter_elems: "list_all path_elem cs \<Longrightarrow> filter (\<lambda>c. c \<noteq> [] \<and> c \<noteq> ''.'') cs = cs"
  by (induction cs) (auto simp: path_elem_def)

lemma path_comps_join: "list_all path_elem cs \<Longrightarrow> path_comps (join_with ''/'' cs) = cs"
  by (cases "cs = []") (simp_all add: path_comps_def split_on_join_elems filter_elems)

lemma path_comps_append: "path_comps (a @ CHR ''/'' # b) = path_comps a @ path_comps b"
  by (simp add: path_comps_def split_on_append_sep)

lemma join_elems_nonempty: "cs \<noteq> [] \<Longrightarrow> list_all path_elem cs \<Longrightarrow> join_with ''/'' cs \<noteq> []"
  by (cases cs rule: list.exhaust; cases "tl cs") (auto simp: path_elem_def)

lemma join_elems_no_slash_head:
  "cs \<noteq> [] \<Longrightarrow> list_all path_elem cs \<Longrightarrow> hd (join_with ''/'' cs) \<noteq> CHR ''/''"
  by (cases cs; cases "tl cs"; cases "hd cs") (auto simp: path_elem_def)

lemma path_is_abs_Cons [simp]: "path_is_abs (CHR ''/'' # p)" "path_is_abs [] = False"
  by (simp_all add: path_is_abs_def has_prefix_def)

lemma path_is_abs_hd: "p \<noteq> [] \<Longrightarrow> path_is_abs p = (hd p = CHR ''/'')"
  by (cases p) (auto simp: path_is_abs_def has_prefix_def)

lemma path_string_abs [simp]: "path_is_abs (path_string True cs)"
  by (simp add: path_string_def Let_def)

lemma path_string_rel [simp]: "list_all path_elem cs \<Longrightarrow> \<not> path_is_abs (path_string False cs)"
  using join_elems_no_slash_head [of cs]
  by (cases "cs = []") (auto simp: path_string_def Let_def path_is_abs_hd)

lemma path_comps_string: "list_all path_elem cs \<Longrightarrow> path_comps (path_string r cs) = cs"
proof (cases r)
  case True
  assume "list_all path_elem cs"
  then have "path_comps ([] @ CHR ''/'' # join_with ''/'' cs) = cs"
    by (simp only: path_comps_append path_comps_join) (simp add: path_comps_def)
  with True show ?thesis by (simp add: path_string_def)
next
  case False
  assume cs: "list_all path_elem cs"
  show ?thesis
  proof (cases "cs = []")
    case True
    with False show ?thesis by (simp add: path_string_def path_comps_def)
  next
    case ne: False
    with cs False show ?thesis
      by (simp add: path_string_def Let_def path_comps_join join_elems_nonempty)
  qed
qed

lemma path_string_inj:
  "list_all path_elem cs \<Longrightarrow> list_all path_elem ds \<Longrightarrow> path_string r cs = path_string r ds \<Longrightarrow> cs = ds"
  by (metis path_comps_string)

lemma path_comps_elems: "list_all path_elem (path_comps p)"
  by (auto simp: list_all_iff path_comps_def path_elem_def dest: split_on_no_sep)

subsection \<open>Cleaning\<close>

lemma clean_comps_plain: "list_all plain_name cs \<Longrightarrow> clean_comps r st (cs @ ds) = clean_comps r (rev cs @ st) ds"
  by (induction cs arbitrary: st) (auto simp: plain_name_def)

lemma clean_comps_up:
  "list_all plain_name (take n st) \<Longrightarrow> n \<le> length st \<Longrightarrow>
     clean_comps r st (replicate n ''..'' @ ds) = clean_comps r (drop n st) ds"
proof (induction n arbitrary: st)
  case (Suc n)
  then show ?case by (cases st) (auto simp: plain_name_def)
qed simp

lemma clean_comps_dotdots: "clean_comps False (replicate k ''..'') (replicate n ''..'' @ ds) =
    clean_comps False (replicate (k + n) ''..'') ds"
proof (induction n arbitrary: k)
  case (Suc n)
  have "clean_comps False (replicate k ''..'') (''..'' # replicate n ''..'' @ ds) =
      clean_comps False (replicate (Suc k) ''..'') (replicate n ''..'' @ ds)"
    by (cases k) auto
  with Suc [of "Suc k"] show ?case by simp
qed simp

lemma clean_comps_normal:
  "list_all plain_name cs \<Longrightarrow>
     clean_comps False [] (replicate n ''..'' @ cs) = replicate n ''..'' @ cs"
  using clean_comps_dotdots [of 0 n cs] clean_comps_plain [of cs False "replicate n ''..''" "[]"] by simp

lemma clean_comps_rooted:
  "list_all path_elem cs \<Longrightarrow> list_all plain_name st \<Longrightarrow> list_all plain_name (clean_comps True st cs)"
proof (induction cs arbitrary: st)
  case Nil
  then show ?case by (simp add: list_all_iff)
next
  case (Cons c cs)
  then show ?case by (cases st) (auto simp: plain_name_def path_elem_def)
qed

lemma clean_abs_path_clean: "path_is_abs p \<Longrightarrow> clean_abs (path_clean p)"
  using clean_comps_rooted [OF path_comps_elems [of p], of "[]"]
  by (auto simp: clean_abs_def path_clean_def)

lemma path_clean_abs_string:
  "list_all plain_name cs \<Longrightarrow> path_clean (path_string True cs) = path_string True cs"
  using clean_comps_plain [of cs True "[]" "[]"]
  by (simp add: path_clean_def path_comps_string list_all_plain_elem)

lemma path_clean_clean_abs: "clean_abs p \<Longrightarrow> path_clean p = p"
  by (auto simp: clean_abs_def path_clean_abs_string)

lemma split_parts_abs:
  "list_all plain_name cs \<Longrightarrow> split_parts (path_string True cs) = cs"
proof (cases "cs = []")
  case False
  assume cs: "list_all plain_name cs"
  note e = list_all_plain_elem [OF cs]
  have "join_with ''/'' cs \<noteq> ''.''"
    using path_comps_join [OF e] False by (auto simp: path_comps_def)
  then show ?thesis
    using False join_elems_nonempty [OF False e] split_on_join_elems [OF False e]
    by (simp add: split_parts_def path_string_def trim_prefix_def has_prefix_def)
qed (simp add: split_parts_def path_string_def trim_prefix_def has_prefix_def)

lemma common_prefix_len_take: "take (common_prefix_len xs ys) xs = take (common_prefix_len xs ys) ys"
  by (induction xs ys rule: common_prefix_len.induct) auto

lemma common_prefix_len_le: "common_prefix_len xs ys \<le> length xs" "common_prefix_len xs ys \<le> length ys"
  by (induction xs ys rule: common_prefix_len.induct) auto

lemma common_prefix_len_full: "common_prefix_len xs ys = length xs \<longleftrightarrow> take (length xs) ys = xs"
  by (induction xs ys rule: common_prefix_len.induct) auto

subsection \<open>Relative paths of clean absolute paths\<close>

definition rel_comps :: "string list \<Rightarrow> string list \<Rightarrow> string list" where
  "rel_comps bs ts =
     (let i = common_prefix_len bs ts in replicate (length bs - i) ''..'' @ drop i ts)"

lemma rel_comps_elems: "list_all plain_name ts \<Longrightarrow> list_all path_elem (rel_comps bs ts)"
  by (auto simp: rel_comps_def Let_def list_all_iff plain_name_elem dest: in_set_dropD)

lemma rel_comps_empty: "rel_comps bs ts = [] \<longleftrightarrow> bs = ts"
proof
  assume "rel_comps bs ts = []"
  then have le: "length bs \<le> common_prefix_len bs ts" "length ts \<le> common_prefix_len bs ts"
    by (simp_all add: rel_comps_def Let_def)
  have "take (common_prefix_len bs ts) bs = take (common_prefix_len bs ts) ts"
    by (rule common_prefix_len_take)
  with le show "bs = ts" by simp
next
  assume "bs = ts"
  moreover have "common_prefix_len ts ts = length ts" by (simp add: common_prefix_len_full)
  ultimately show "rel_comps bs ts = []" by (simp add: rel_comps_def)
qed

lemma clean_rel_comps:
  assumes "list_all plain_name ts"
  shows "clean_comps False [] (rel_comps bs ts) = rel_comps bs ts"
proof -
  have "list_all plain_name (drop (common_prefix_len bs ts) ts)"
    using assms by (auto simp: list_all_iff dest: in_set_dropD)
  then show ?thesis unfolding rel_comps_def Let_def by (rule clean_comps_normal)
qed

lemma path_string_not_empty [simp]: "path_string r cs \<noteq> []"
  by (simp add: path_string_def Let_def)

lemma map_const_drop: "map (\<lambda>_. x) (drop i xs) = replicate (length xs - i) x"
  by (simp add: map_replicate_const)

lemma join_rel_string:
  assumes "list_all path_elem cs" and "cs \<noteq> []"
  shows "path_string False cs = join_with ''/'' cs"
  using assms join_elems_nonempty by (auto simp: path_string_def Let_def)

lemma path_join_elems:
  assumes cs: "list_all path_elem cs" and ne: "cs \<noteq> []" and cl: "clean_comps False [] cs = cs"
  shows "path_join cs = path_string False cs"
proof -
  have "dropWhile (\<lambda>e. e = []) cs = cs" using cs ne by (cases cs) (auto simp: path_elem_def)
  then have "path_join cs = path_clean (join_with ''/'' cs)"
    using ne by (cases cs) (simp_all add: path_join_def)
  also have "\<dots> = path_string False (clean_comps False [] (path_comps (join_with ''/'' cs)))"
    using path_string_rel [OF cs] join_rel_string [OF cs ne] by (simp add: path_clean_def)
  finally show ?thesis using cs cl by (simp add: path_comps_join)
qed

lemma rel_posix_abs:
  assumes bs: "list_all plain_name bs" and ts: "list_all plain_name ts"
  shows "rel_posix (path_string True bs) (path_string True ts) = Inr (path_string False (rel_comps bs ts))"
proof (cases "bs = ts")
  case True
  then have "rel_comps bs ts = []" by (simp add: rel_comps_empty)
  with True show ?thesis by (simp add: rel_posix_def path_string_def)
next
  case False
  let ?bs = "path_string True bs" and ?ts = "path_string True ts"
  have "?bs \<noteq> ?ts"
    using False path_string_inj [OF list_all_plain_elem [OF bs] list_all_plain_elem [OF ts]] by blast
  moreover have "map (\<lambda>_. ''..'') (drop (common_prefix_len bs ts) bs) @ drop (common_prefix_len bs ts) ts
      = rel_comps bs ts"
    by (simp add: rel_comps_def Let_def map_const_drop)
  moreover have ne: "rel_comps bs ts \<noteq> []" using False by (simp add: rel_comps_empty)
  ultimately show ?thesis
    using path_join_elems [OF rel_comps_elems [OF ts] ne clean_rel_comps [OF ts]]
    unfolding rel_posix_def split_parts_abs [OF bs] split_parts_abs [OF ts] Let_def
    by (simp only: path_string_abs if_False simp_thms)
qed

lemma filepath_rel_abs:
  assumes bs: "list_all plain_name bs" and ts: "list_all plain_name ts"
  shows "filepath_rel (path_string True bs) (path_string True ts) = Inr (path_string False (rel_comps bs ts))"
proof (cases "bs = ts")
  case True
  then have "rel_comps bs ts = []" by (simp add: rel_comps_empty)
  with True show ?thesis by (simp add: filepath_rel_def path_string_def)
next
  case False
  let ?bs = "path_string True bs" and ?ts = "path_string True ts"
  let ?i = "common_prefix_len bs ts"
  have ne: "?ts \<noteq> ?bs"
    using False path_string_inj [OF list_all_plain_elem [OF bs] list_all_plain_elem [OF ts]] by metis
  have str: "join_with ''/'' (rel_comps bs ts) = path_string False (rel_comps bs ts)"
    using False by (simp add: join_rel_string rel_comps_elems [OF ts] rel_comps_empty)
  have rc: "rel_comps bs ts = map (\<lambda>_. ''..'') (drop ?i bs) @ drop ?i ts"
    by (simp add: rel_comps_def Let_def map_const_drop)
  show ?thesis
  proof (cases "drop ?i bs")
    case Nil
    then show ?thesis using ne str rc unfolding filepath_rel_def
      by (simp add: Let_def path_clean_abs_string bs ts split_parts_abs)
  next
    case (Cons b rest)
    then have "b \<in> set bs" by (metis in_set_dropD list.set_intros(1))
    then have "b \<noteq> ''..''" using bs by (auto simp: list_all_iff plain_name_def)
    then show ?thesis using ne str rc Cons unfolding filepath_rel_def
      by (simp add: Let_def path_clean_abs_string bs ts split_parts_abs)
  qed
qed

lemma join_two: "a \<noteq> [] \<Longrightarrow> path_join [a, b] = path_clean (a @ CHR ''/'' # b)"
  by (simp add: path_join_def)

lemma path_join_abs_comps:
  assumes "list_all plain_name bs"
  shows "path_join [path_string True bs, q] = path_string True (clean_comps True (rev bs) (path_comps q))"
proof -
  let ?p = "path_string True bs @ CHR ''/'' # q"
  have "path_is_abs ?p" by (simp add: path_is_abs_hd) (simp add: path_string_def Let_def)
  moreover have "path_comps ?p = bs @ path_comps q"
    by (simp add: path_comps_append path_comps_string list_all_plain_elem assms)
  ultimately show ?thesis
    using clean_comps_plain [OF assms, of True "[]" "path_comps q"]
    by (simp add: join_two path_clean_def)
qed

text \<open>C4: Round trip of the relative path: for clean absolute paths, joining the base with the
  result of \<open>relPosix\<close> gives the target back, so the exclude patterns and the containment
  checks of the walk are asked about the path they mean.\<close>

theorem rel_posix_join_roundtrip:
  assumes "clean_abs base" and "clean_abs target"
  shows "\<exists>r. rel_posix base target = Inr r \<and> path_join [base, r] = target"
proof -
  obtain bs ts where b: "base = path_string True bs" "list_all plain_name bs"
    and t: "target = path_string True ts" "list_all plain_name ts"
    using assms by (auto simp: clean_abs_def)
  let ?i = "common_prefix_len bs ts"
  have d: "list_all plain_name (drop ?i ts)" "list_all plain_name (take (length bs - ?i) (rev bs))"
    using b t by (auto simp: list_all_iff dest: in_set_dropD in_set_takeD)
  have "drop (length bs - ?i) (rev bs) = rev (take ?i bs)"
    using common_prefix_len_le(1) [of bs ts] by (simp add: rev_take)
  then have "clean_comps True (rev bs) (rel_comps bs ts) = take ?i bs @ drop ?i ts"
    using clean_comps_up [OF d(2), of True "drop ?i ts"] clean_comps_plain [OF d(1), of True _ "[]"]
    by (simp add: rel_comps_def Let_def)
  then have "clean_comps True (rev bs) (rel_comps bs ts) = ts"
    by (metis common_prefix_len_take append_take_drop_id)
  then have "path_join [base, path_string False (rel_comps bs ts)] = target"
    using b t by (simp add: path_join_abs_comps path_comps_string rel_comps_elems)
  then show ?thesis using b t by (simp add: rel_posix_abs)
qed

theorem rel_posix_join_roundtrip_witness:
  "rel_posix ''/srv/a/b'' ''/srv/c'' = Inr ''../../c'' \<and> path_join [''/srv/a/b'', ''../../c''] = ''/srv/c''"
proof -
  have "clean_abs ''/srv/a/b''" "clean_abs ''/srv/c''"
    using clean_abs_path_clean [of "''/srv/a/b''"] clean_abs_path_clean [of "''/srv/c''"]
    by (simp_all add: path_clean_def path_comps_def path_string_def)
  from rel_posix_join_roundtrip [OF this]
  show ?thesis by (simp add: rel_posix_def split_parts_def trim_prefix_def has_prefix_def path_is_abs_def
        Let_def path_join_def path_clean_def path_comps_def path_string_def)
qed

end
