(* ===== verification/GoMatch.thy ===== *)
theory GoMatch
  imports Prelude
begin

text \<open>
  \<open>path.Match\<close> of Go's standard library (\<open>filepath.Match\<close> on Unix), the glob of \<open>--exclude\<close> and
  \<open>--include\<close>: the pattern is cut into chunks at its stars, and a chunk is matched at the current
  position or, after a star, at the first later position before a slash that lets it match. The only
  error is a malformed pattern. Runes are decoded from UTF-8 as package \<open>utf8\<close> does.
\<close>

subsection \<open>Runes\<close>

definition byte_val :: "char \<Rightarrow> nat" where
  "byte_val c = of_char c"

definition cont_byte :: "char \<Rightarrow> bool" where
  "cont_byte c \<longleftrightarrow> 128 \<le> byte_val c \<and> byte_val c \<le> 191"

definition rune_error :: nat where
  "rune_error = 0xFFFD"

text \<open>\<open>DecodeRuneInString\<close> of a non-empty text: the rune and its width; an invalid sequence is one byte
  wide. The bounds on the second byte exclude overlong forms, surrogates and values above 10FFFF.\<close>

definition second_ok :: "nat \<Rightarrow> nat \<Rightarrow> bool" where
  "second_ok a b \<longleftrightarrow>
     (if a = 0xE0 then 0xA0 else if a = 0xF0 then 0x90 else 0x80) \<le> b \<and>
     b \<le> (if a = 0xED then 0x9F else if a = 0xF4 then 0x8F else 0xBF)"

definition decode_rune :: "string \<Rightarrow> nat \<times> nat" where
  "decode_rune s =
     (case map byte_val (take 4 s) of
        [] \<Rightarrow> (rune_error, 0)
      | a # rest \<Rightarrow>
          if a < 0x80 then (a, 1)
          else if 0xC2 \<le> a \<and> a \<le> 0xDF
          then (case rest of
                  b # _ \<Rightarrow> if second_ok a b then ((a - 0xC0) * 64 + (b - 0x80), 2) else (rune_error, 1)
                | [] \<Rightarrow> (rune_error, 1))
          else if 0xE0 \<le> a \<and> a \<le> 0xEF
          then (case rest of
                  b # c # _ \<Rightarrow>
                    if second_ok a b \<and> 0x80 \<le> c \<and> c \<le> 0xBF
                    then ((a - 0xE0) * 4096 + (b - 0x80) * 64 + (c - 0x80), 3) else (rune_error, 1)
                | _ \<Rightarrow> (rune_error, 1))
          else if 0xF0 \<le> a \<and> a \<le> 0xF4
          then (case rest of
                  [b, c, d] \<Rightarrow>
                    if second_ok a b \<and> 0x80 \<le> c \<and> c \<le> 0xBF \<and> 0x80 \<le> d \<and> d \<le> 0xBF
                    then ((a - 0xF0) * 262144 + (b - 0x80) * 4096 + (c - 0x80) * 64 + (d - 0x80), 4)
                    else (rune_error, 1)
                | _ \<Rightarrow> (rune_error, 1))
          else (rune_error, 1))"

subsection \<open>Chunks\<close>

text \<open>How far a chunk reaches: up to a star outside of brackets.\<close>

fun chunk_len :: "bool \<Rightarrow> string \<Rightarrow> nat" where
  "chunk_len inrange [] = 0"
| "chunk_len inrange (c # cs) =
     (if c = CHR 0x5C then (case cs of [] \<Rightarrow> 1 | d # ds \<Rightarrow> 2 + chunk_len inrange ds)
      else if c = CHR ''['' then 1 + chunk_len True cs
      else if c = CHR '']'' then 1 + chunk_len False cs
      else if c = CHR ''*'' \<and> \<not> inrange then 0
      else 1 + chunk_len inrange cs)"

definition scan_chunk :: "string \<Rightarrow> bool \<times> string \<times> string" where
  "scan_chunk pattern =
     (let p = dropWhile (\<lambda>c. c = CHR ''*'') pattern; n = chunk_len False p in
      (p \<noteq> pattern, take n p, drop n p))"

text \<open>\<open>getEsc\<close>: one character of a class; \<open>None\<close> for a malformed one.\<close>

definition get_esc :: "string \<Rightarrow> (nat \<times> string) option" where
  "get_esc chunk =
     (if chunk = [] \<or> hd chunk = CHR ''-'' \<or> hd chunk = CHR '']'' then None
      else
        (let chunk = (if hd chunk = CHR 0x5C then tl chunk else chunk) in
         if chunk = [] then None
         else
           (let (r, n) = decode_rune chunk in
            if r = rune_error \<and> n = 1 then None
            else if drop n chunk = [] then None
            else Some (r, drop n chunk))))"

text \<open>The ranges of a class up to its bracket: does one hold \<open>r\<close>, and the rest of the chunk. Every range
  takes a character of the chunk, so its length is enough fuel.\<close>

fun class_ranges :: "nat \<Rightarrow> nat \<Rightarrow> bool \<Rightarrow> nat \<Rightarrow> string \<Rightarrow> (bool \<times> string) option" where
  "class_ranges 0 r matched nrange chunk = None"
| "class_ranges (Suc k) r matched nrange chunk =
     (if chunk \<noteq> [] \<and> hd chunk = CHR '']'' \<and> nrange > 0 then Some (matched, tl chunk)
      else
        (case get_esc chunk of
           None \<Rightarrow> None
         | Some (lo, chunk) \<Rightarrow>
             (case (if hd chunk = CHR ''-'' then get_esc (tl chunk) else Some (lo, chunk)) of
                None \<Rightarrow> None
              | Some (hi, chunk) \<Rightarrow>
                  class_ranges k r (matched \<or> lo \<le> r \<and> r \<le> hi) (Suc nrange) chunk)))"

text \<open>\<open>matchChunk\<close> from the point where \<open>s\<close> is what is left of the name (\<open>None\<close> once the match has failed,
  after which the chunk is only checked): the outer \<open>None\<close> is a malformed pattern.\<close>

fun match_chunk :: "nat \<Rightarrow> string \<Rightarrow> string option \<Rightarrow> string option option" where
  "match_chunk 0 chunk s = (if chunk = [] then Some s else None)"
| "match_chunk (Suc k) [] s = Some s"
| "match_chunk (Suc k) (c # chunk) s =
     (let s = (if s = Some [] then None else s) in
      if c = CHR ''[''
      then
        (let negated = (chunk \<noteq> [] \<and> hd chunk = CHR ''^'');
             body = (if negated then tl chunk else chunk);
             r = (case s of Some t \<Rightarrow> fst (decode_rune t) | None \<Rightarrow> 0)
         in case class_ranges (Suc (length body)) r False 0 body of
              None \<Rightarrow> None
            | Some (matched, rest) \<Rightarrow>
                match_chunk k rest
                  (case s of
                     Some t \<Rightarrow> if matched = negated then None else Some (drop (snd (decode_rune t)) t)
                   | None \<Rightarrow> None))
      else if c = CHR ''?''
      then
        match_chunk k chunk
          (case s of Some t \<Rightarrow> if hd t = CHR ''/'' then None else Some (drop (snd (decode_rune t)) t) | None \<Rightarrow> None)
      else if c = CHR 0x5C
      then
        (case chunk of
           [] \<Rightarrow> None
         | d # ds \<Rightarrow> match_chunk k ds (case s of Some t \<Rightarrow> if hd t = d then Some (tl t) else None | None \<Rightarrow> None))
      else match_chunk k chunk (case s of Some t \<Rightarrow> if hd t = c then Some (tl t) else None | None \<Rightarrow> None))"

definition matchChunk :: "string \<Rightarrow> string \<Rightarrow> string option option" where
  "matchChunk chunk s = match_chunk (length chunk) chunk (Some s)"

subsection \<open>Match\<close>

text \<open>The positions after a star: the first at which the chunk matches, and whether it is malformed.\<close>

fun star_match :: "string \<Rightarrow> bool \<Rightarrow> string \<Rightarrow> string option option" where
  "star_match chunk is_last [] = Some None"
| "star_match chunk is_last (c # name) =
     (if c = CHR ''/'' then Some None
      else
        (case matchChunk chunk name of
           None \<Rightarrow> None
         | Some (Some t) \<Rightarrow> if is_last \<and> t \<noteq> [] then star_match chunk is_last name else Some (Some t)
         | Some None \<Rightarrow> star_match chunk is_last name))"

text \<open>The rest of a failed pattern must be well formed.\<close>

fun pattern_ok :: "nat \<Rightarrow> string \<Rightarrow> bool" where
  "pattern_ok 0 pattern = True"
| "pattern_ok (Suc k) pattern =
     (if pattern = [] then True
      else (let (_, chunk, rest) = scan_chunk pattern in matchChunk chunk [] \<noteq> None \<and> pattern_ok k rest))"

definition bad_pattern :: string where
  "bad_pattern = ''syntax error in pattern''"

definition match_failed :: "string \<Rightarrow> string + bool" where
  "match_failed rest = (if pattern_ok (length rest) rest then Inr False else Inl bad_pattern)"

fun glob :: "nat \<Rightarrow> string \<Rightarrow> string \<Rightarrow> string + bool" where
  "glob 0 pattern name = Inr (pattern = [] \<and> name = [])"
| "glob (Suc k) pattern name =
     (if pattern = [] then Inr (name = [])
      else
        (let (star, chunk, rest) = scan_chunk pattern in
         if star \<and> chunk = [] then Inr (CHR ''/'' \<notin> set name)
         else
           (case matchChunk chunk name of
              None \<Rightarrow> Inl bad_pattern
            | Some t \<Rightarrow>
                if t \<noteq> None \<and> (t = Some [] \<or> rest \<noteq> []) then glob k rest (the t)
                else if star
                then (case star_match chunk (rest = []) name of
                        None \<Rightarrow> Inl bad_pattern
                      | Some (Some t) \<Rightarrow> glob k rest t
                      | Some None \<Rightarrow> match_failed rest)
                else match_failed rest)))"

text \<open>Every round consumes a part of the pattern, so its length is enough fuel.\<close>

definition path_match :: "string \<Rightarrow> string \<Rightarrow> string + bool" where
  "path_match pattern name = glob (length pattern) pattern name"

subsection \<open>Facts\<close>

definition glob_meta :: "char \<Rightarrow> bool" where
  "glob_meta c \<longleftrightarrow> c \<in> set [CHR ''*'', CHR ''?'', CHR ''['', CHR 0x5C]"

lemma chunk_len_plain: "\<forall>c \<in> set p. \<not> glob_meta c \<Longrightarrow> chunk_len False p = length p"
proof (induction p)
  case (Cons c p)
  then show ?case by (cases p) (auto simp: glob_meta_def)
qed simp

lemma match_chunk_plain:
  "\<forall>c \<in> set p. \<not> glob_meta c \<Longrightarrow> length p \<le> k \<Longrightarrow>
     match_chunk k p s = Some (case s of Some t \<Rightarrow> if take (length p) t = p then Some (drop (length p) t) else None | None \<Rightarrow> None)"
proof (induction p arbitrary: k s)
  case Nil
  then show ?case by (cases k) (auto split: option.split)
next
  case (Cons c p)
  then obtain j where k: "k = Suc j" "length p \<le> j" by (cases k) auto
  have c: "c \<noteq> CHR ''*''" "c \<noteq> CHR ''?''" "c \<noteq> CHR ''[''" "c \<noteq> CHR 0x5C" using Cons.prems(1) by (auto simp: glob_meta_def)
  have "match_chunk k (c # p) s = match_chunk j p (case (if s = Some [] then None else s) of
      Some t \<Rightarrow> if hd t = c then Some (tl t) else None | None \<Rightarrow> None)"
    using c by (simp add: k(1) Let_def)
  also have "\<dots> = Some (case (case (if s = Some [] then None else s) of
      Some t \<Rightarrow> if hd t = c then Some (tl t) else None | None \<Rightarrow> None) of
      Some t \<Rightarrow> if take (length p) t = p then Some (drop (length p) t) else None | None \<Rightarrow> None)"
    by (rule Cons.IH) (use Cons.prems(1) k(2) in simp_all)
  also have "\<dots> = Some (case s of Some t \<Rightarrow> if take (length (c # p)) t = c # p then Some (drop (length (c # p)) t) else None
      | None \<Rightarrow> None)"
  proof (cases s)
    case (Some t)
    then show ?thesis by (cases t) auto
  qed simp
  finally show ?case .
qed

text \<open>A pattern without a metacharacter matches its own text only.\<close>

lemma path_match_plain: "\<forall>c \<in> set p. \<not> glob_meta c \<Longrightarrow> path_match p name = Inr (name = p)"
proof (cases "p = []")
  case False
  assume a: "\<forall>c \<in> set p. \<not> glob_meta c"
  have star: "dropWhile (\<lambda>c. c = CHR ''*'') p = p" using a False by (cases p) (auto simp: glob_meta_def)
  then have sc: "scan_chunk p = (False, p, [])" using chunk_len_plain [OF a] by (simp add: scan_chunk_def Let_def)
  have mc: "matchChunk p name = Some (if take (length p) name = p then Some (drop (length p) name) else None)"
    using match_chunk_plain [OF a, of "length p" "Some name"] by (simp add: matchChunk_def)
  obtain k where k: "length p = Suc k" using False by (cases p) auto
  have "take (length p) name = p \<and> drop (length p) name = [] \<longleftrightarrow> name = p"
    by (metis append_Nil2 append_take_drop_id drop_all order_refl take_all)
  moreover have "glob k [] [] = Inr True" by (cases k) simp_all
  ultimately show ?thesis
    using sc mc False unfolding path_match_def k by (auto simp: match_failed_def)
qed (simp add: path_match_def)

text \<open>A single star matches exactly the names without a slash.\<close>

lemma path_match_star: "path_match ''*'' name = Inr (CHR ''/'' \<notin> set name)"
  by (simp add: path_match_def scan_chunk_def)

end
