(* ===== verification/Vfs.thy ===== *)
theory Vfs
  imports GoErr GoPath GoMatch
begin

text \<open>
  The filesystem seam, internal/vfs: file modes and file information, the \<open>FS\<close> and \<open>File\<close>
  interfaces as records of functions over a world \<open>'w\<close> (what the operating system and the remote
  hosts hold), and the local filesystem of local.go and local_unix.go over the \<open>os\<close> package. A
  read-only call is a function of the world; a call that can change it returns the new world with
  its error.
\<close>

subsection \<open>File modes and information\<close>

text \<open>\<open>os.FileMode\<close>: Go's own bit assignment.\<close>

type_synonym filemode = "32 word"

definition mode_dir :: filemode where "mode_dir = 0x80000000"
definition mode_symlink :: filemode where "mode_symlink = 0x08000000"
definition mode_type :: filemode where "mode_type = 0x8F280000"

definition is_dir :: "filemode \<Rightarrow> bool" where
  "is_dir m \<longleftrightarrow> m AND mode_dir \<noteq> 0"

definition is_symlink :: "filemode \<Rightarrow> bool" where
  "is_symlink m \<longleftrightarrow> m AND mode_symlink \<noteq> 0"

definition is_regular :: "filemode \<Rightarrow> bool" where
  "is_regular m \<longleftrightarrow> m AND mode_type = 0"

definition mode_perm :: "filemode \<Rightarrow> filemode" where
  "mode_perm m = m AND 0x1FF"

text \<open>What \<open>FileInfo.Sys()\<close> holds: the stat buffer of a local file, the SFTP attributes of a remote
  one, or something else.\<close>

record stat_t =
  st_uid :: int
  st_gid :: int
  st_dev :: nat
  st_ino :: nat
  st_nlink :: nat
  st_blocks :: int

datatype sysinfo = SysStat stat_t | SysSftp int int | SysNone

record file_info =
  fi_name :: string
  fi_size :: int
  fi_mode :: filemode
  fi_mtime :: int
  fi_sys :: sysinfo

subsection \<open>Open files\<close>

type_synonym bytes = "8 word list"

text \<open>
  An open file for reading: what the successive \<open>Read\<close> calls return for a buffer of the given
  size (the bytes and the error), end of file after the last; and what \<open>ReadAt\<close> returns for an
  offset and a length. \<open>rd_is_os\<close> tells whether the dynamic type is \<open>*os.File\<close>.
\<close>

record reader =
  rd_is_os :: bool
  rd_script :: "nat \<Rightarrow> (bytes \<times> goerr option) list"
  rd_at :: "int \<Rightarrow> nat \<Rightarrow> bytes \<times> goerr option"

text \<open>An open file for writing. \<open>WriteAt\<close> exists on \<open>*os.File\<close> only.\<close>

record 'w gofile =
  fl_is_os :: bool
  fl_name :: string
  fl_write :: "bytes \<Rightarrow> 'w \<Rightarrow> (nat \<times> goerr option) \<times> 'w"
  fl_write_at :: "bytes \<Rightarrow> int \<Rightarrow> 'w \<Rightarrow> goerr option \<times> 'w"
  fl_truncate :: "int \<Rightarrow> 'w \<Rightarrow> goerr option \<times> 'w"
  fl_sync :: "'w \<Rightarrow> goerr option \<times> 'w"
  fl_chmod :: "filemode \<Rightarrow> 'w \<Rightarrow> goerr option \<times> 'w"
  fl_close :: "'w \<Rightarrow> goerr option \<times> 'w"

subsection \<open>The FS interface\<close>

record 'w fs =
  fs_local :: bool
  fs_host :: string
  fs_display :: "string \<Rightarrow> string"
  fs_join :: "string \<Rightarrow> string \<Rightarrow> string"
  fs_clean :: "string \<Rightarrow> string"
  fs_dir :: "string \<Rightarrow> string"
  fs_base :: "string \<Rightarrow> string"
  fs_is_abs :: "string \<Rightarrow> bool"
  fs_abs :: "string \<Rightarrow> goerr + string"
  fs_rel :: "string \<Rightarrow> string \<Rightarrow> string + string"
  fs_match :: "string \<Rightarrow> string \<Rightarrow> string + bool"
  fs_sep :: string
  fs_lstat :: "'w \<Rightarrow> string \<Rightarrow> goerr + file_info"
  fs_stat :: "'w \<Rightarrow> string \<Rightarrow> goerr + file_info"
  fs_read_dir :: "'w \<Rightarrow> string \<Rightarrow> goerr + file_info list"
  fs_readlink :: "'w \<Rightarrow> string \<Rightarrow> goerr + string"
  fs_symlink :: "string \<Rightarrow> string \<Rightarrow> 'w \<Rightarrow> goerr option \<times> 'w"
  fs_link :: "string \<Rightarrow> string \<Rightarrow> 'w \<Rightarrow> goerr option \<times> 'w"
  fs_mkdir :: "string \<Rightarrow> filemode \<Rightarrow> 'w \<Rightarrow> goerr option \<times> 'w"
  fs_mkdir_all :: "string \<Rightarrow> filemode \<Rightarrow> 'w \<Rightarrow> goerr option \<times> 'w"
  fs_remove :: "string \<Rightarrow> 'w \<Rightarrow> goerr option \<times> 'w"
  fs_remove_all :: "string \<Rightarrow> 'w \<Rightarrow> goerr option \<times> 'w"
  fs_rename :: "string \<Rightarrow> string \<Rightarrow> 'w \<Rightarrow> goerr option \<times> 'w"
  fs_chmod :: "string \<Rightarrow> filemode \<Rightarrow> 'w \<Rightarrow> goerr option \<times> 'w"
  fs_chown :: "string \<Rightarrow> int \<Rightarrow> int \<Rightarrow> 'w \<Rightarrow> goerr option \<times> 'w"
  fs_chtimes :: "string \<Rightarrow> int \<Rightarrow> int \<Rightarrow> 'w \<Rightarrow> goerr option \<times> 'w"
  fs_open :: "'w \<Rightarrow> string \<Rightarrow> goerr + reader"
  fs_create_temp :: "string \<Rightarrow> string \<Rightarrow> 'w \<Rightarrow> (goerr + 'w gofile) \<times> 'w"
  fs_avail :: "'w \<Rightarrow> string \<Rightarrow> int option"
  fs_owner :: "file_info \<Rightarrow> (int \<times> int) option"
  fs_file_id :: "file_info \<Rightarrow> (string \<times> nat) option"
  fs_dev :: "file_info \<Rightarrow> nat option"
  fs_same_file :: "file_info \<Rightarrow> file_info \<Rightarrow> bool"

text \<open>\<open>SameHost\<close>; neither filesystem of a run is nil.\<close>

definition same_host :: "'w fs \<Rightarrow> 'w fs \<Rightarrow> bool" where
  "same_host a b = (if fs_local a \<noteq> fs_local b then False else fs_host a = fs_host b)"

subsection \<open>Numbers as text\<close>

fun show_nat_aux :: "nat \<Rightarrow> nat \<Rightarrow> string" where
  "show_nat_aux 0 n = []"
| "show_nat_aux (Suc k) n =
     (if n < 10 then [char_of (48 + n)] else show_nat_aux k (n div 10) @ [char_of (48 + n mod 10)])"

text \<open>\<open>%d\<close> of a non-negative number; the fuel \<open>n + 1\<close> exceeds the number of digits.\<close>

definition show_nat :: "nat \<Rightarrow> string" where
  "show_nat n = show_nat_aux (Suc n) n"

definition show_int :: "int \<Rightarrow> string" where
  "show_int i = (if i < 0 then CHR ''-'' # show_nat (nat (- i)) else show_nat (nat i))"

lemma show_nat_aux_digits: "c \<in> set (show_nat_aux k n) \<Longrightarrow> \<exists>d < 10. c = char_of (48 + d :: nat)"
proof (induction k arbitrary: n)
  case (Suc k)
  show ?case
  proof (cases "c \<in> set (show_nat_aux k (n div 10)) \<and> \<not> n < 10")
    case True
    then show ?thesis using Suc.IH by blast
  next
    case False
    then have "c = char_of (48 + n mod 10)" using Suc.prems by (auto split: if_splits)
    then show ?thesis by (intro exI [of _ "n mod 10"]) simp
  qed
qed simp

lemma show_nat_digit: "c \<in> set (show_nat n) \<Longrightarrow> \<exists>d < 10. (of_char c :: nat) = 48 + d"
proof -
  assume "c \<in> set (show_nat n)"
  then have "c \<in> set (show_nat_aux (Suc n) n)" by (simp only: show_nat_def)
  then obtain d :: nat where d: "d < 10" "c = char_of (48 + d)" using show_nat_aux_digits by blast
  then have "(of_char c :: nat) = 48 + d" by (simp add: of_char_of)
  with d(1) show ?thesis by blast
qed

lemma show_nat_no_slash: "CHR ''/'' \<notin> set (show_nat n)"
  using show_nat_digit [of "CHR ''/''" n] by auto

subsection \<open>The local filesystem\<close>

definition localOwner :: "file_info \<Rightarrow> (int \<times> int) option" where
  "localOwner fi = (case fi_sys fi of SysStat st \<Rightarrow> Some (st_uid st, st_gid st) | _ \<Rightarrow> None)"

definition localFileID :: "file_info \<Rightarrow> (string \<times> nat) option" where
  "localFileID fi =
     (case fi_sys fi of
        SysStat st \<Rightarrow> Some (show_nat (st_dev st) @ '':'' @ show_nat (st_ino st), st_nlink st)
      | _ \<Rightarrow> None)"

definition localDev :: "file_info \<Rightarrow> nat option" where
  "localDev fi = (case fi_sys fi of SysStat st \<Rightarrow> Some (st_dev st) | _ \<Rightarrow> None)"

text \<open>\<open>os.SameFile\<close> of the standard library on Unix.\<close>

definition os_same_file :: "file_info \<Rightarrow> file_info \<Rightarrow> bool" where
  "os_same_file a b =
     (case (fi_sys a, fi_sys b) of
        (SysStat s, SysStat t) \<Rightarrow> st_dev s = st_dev t \<and> st_ino s = st_ino t
      | _ \<Rightarrow> False)"

text \<open>The system calls behind package \<open>os\<close>; \<open>os_read_dir\<close> gives each entry with what its
  \<open>Info()\<close> answers.\<close>

record 'w os =
  os_getwd :: string
  os_lstat :: "'w \<Rightarrow> string \<Rightarrow> goerr + file_info"
  os_stat :: "'w \<Rightarrow> string \<Rightarrow> goerr + file_info"
  os_read_dir :: "'w \<Rightarrow> string \<Rightarrow> goerr + (goerr + file_info) list"
  os_readlink :: "'w \<Rightarrow> string \<Rightarrow> goerr + string"
  os_symlink :: "string \<Rightarrow> string \<Rightarrow> 'w \<Rightarrow> goerr option \<times> 'w"
  os_link :: "string \<Rightarrow> string \<Rightarrow> 'w \<Rightarrow> goerr option \<times> 'w"
  os_mkdir :: "string \<Rightarrow> filemode \<Rightarrow> 'w \<Rightarrow> goerr option \<times> 'w"
  os_mkdir_all :: "string \<Rightarrow> filemode \<Rightarrow> 'w \<Rightarrow> goerr option \<times> 'w"
  os_remove :: "string \<Rightarrow> 'w \<Rightarrow> goerr option \<times> 'w"
  os_remove_all :: "string \<Rightarrow> 'w \<Rightarrow> goerr option \<times> 'w"
  os_rename :: "string \<Rightarrow> string \<Rightarrow> 'w \<Rightarrow> goerr option \<times> 'w"
  os_chmod :: "string \<Rightarrow> filemode \<Rightarrow> 'w \<Rightarrow> goerr option \<times> 'w"
  os_lchown :: "string \<Rightarrow> int \<Rightarrow> int \<Rightarrow> 'w \<Rightarrow> goerr option \<times> 'w"
  os_chtimes :: "string \<Rightarrow> int \<Rightarrow> int \<Rightarrow> 'w \<Rightarrow> goerr option \<times> 'w"
  os_open :: "'w \<Rightarrow> string \<Rightarrow> goerr + reader"
  os_create_temp :: "string \<Rightarrow> string \<Rightarrow> 'w \<Rightarrow> (goerr + 'w gofile) \<times> 'w"
  os_statfs :: "'w \<Rightarrow> string \<Rightarrow> (int \<times> int) option"

text \<open>\<open>ReadDir\<close>: an entry that vanished between the readdir and its lstat is treated as absent.\<close>

fun present_entries :: "(goerr + file_info) list \<Rightarrow> file_info list" where
  "present_entries [] = []"
| "present_entries (Inl e # es) = present_entries es"
| "present_entries (Inr fi # es) = fi # present_entries es"

definition local_read_dir :: "'w os \<Rightarrow> 'w \<Rightarrow> string \<Rightarrow> goerr + file_info list" where
  "local_read_dir os w name =
     (case os_read_dir os w name of Inl e \<Rightarrow> Inl e | Inr entries \<Rightarrow> Inr (present_entries entries))"

text \<open>\<open>statfsAvail\<close>: blocks an unprivileged caller can use times the block size, as \<open>int64\<close>.\<close>

definition statfsAvail :: "'w os \<Rightarrow> 'w \<Rightarrow> string \<Rightarrow> int option" where
  "statfsAvail os w p =
     (case os_statfs os w p of None \<Rightarrow> None | Some (bavail, bsize) \<Rightarrow> Some (wrap64 (wrap64 bavail * bsize)))"

text \<open>\<open>filepath.Abs\<close>: a relative path is joined to the working directory.\<close>

definition local_abs :: "'w os \<Rightarrow> string \<Rightarrow> goerr + string" where
  "local_abs os p = Inr (if path_is_abs p then path_clean p else path_join [os_getwd os, p])"

definition local_fs :: "'w os \<Rightarrow> 'w fs" where
  "local_fs os =
     \<lparr>fs_local = True, fs_host = [], fs_display = (\<lambda>p. p),
      fs_join = (\<lambda>a b. path_join [a, b]), fs_clean = path_clean, fs_dir = path_dir, fs_base = path_base,
      fs_is_abs = path_is_abs, fs_abs = local_abs os, fs_rel = filepath_rel, fs_match = path_match,
      fs_sep = ''/'',
      fs_lstat = os_lstat os, fs_stat = os_stat os, fs_read_dir = local_read_dir os,
      fs_readlink = os_readlink os, fs_symlink = os_symlink os, fs_link = os_link os,
      fs_mkdir = os_mkdir os, fs_mkdir_all = os_mkdir_all os,
      fs_remove = os_remove os, fs_remove_all = os_remove_all os, fs_rename = os_rename os,
      fs_chmod = os_chmod os, fs_chown = os_lchown os, fs_chtimes = os_chtimes os,
      fs_open = os_open os, fs_create_temp = os_create_temp os,
      fs_avail = statfsAvail os, fs_owner = localOwner, fs_file_id = localFileID, fs_dev = localDev,
      fs_same_file = os_same_file\<rparr>"

subsection \<open>Facts about modes\<close>

lemma regular_not_dir: "is_regular m \<Longrightarrow> \<not> is_dir m"
proof -
  have "m AND mode_dir = (m AND mode_type) AND mode_dir"
    by (simp add: mode_dir_def mode_type_def and.assoc)
  then show "is_regular m \<Longrightarrow> \<not> is_dir m" by (simp add: is_regular_def is_dir_def)
qed

lemma regular_not_symlink: "is_regular m \<Longrightarrow> \<not> is_symlink m"
proof -
  have "m AND mode_symlink = (m AND mode_type) AND mode_symlink"
    by (simp add: mode_symlink_def mode_type_def and.assoc)
  then show "is_regular m \<Longrightarrow> \<not> is_symlink m" by (simp add: is_regular_def is_symlink_def)
qed

end
