(* ===== verification/Fsx.thy ===== *)
theory Fsx
  imports Vfs
begin

text \<open>
  The copy primitives, internal/fsx: streaming and hole-preserving copies of one open file
  (copy.go, copy_linux.go), metadata (meta.go, xattr.go) and \<open>CopyFile\<close>, which writes a temporary
  file and renames it into place. A copy threads a state of the world, the bytes reported to the
  progress callback and the number of cancellation polls so far; the answers of the successive
  polls are the function \<open>co_cancel\<close>, so a theorem about all of them covers a cancel at any poll.
\<close>

record 'w cst =
  cs_world :: 'w
  cs_moved :: int
  cs_polls :: nat

record copy_opts =
  co_preserve :: bool
  co_fsync :: bool
  co_buf_size :: int
  co_cancel :: "nat \<Rightarrow> bool"

definition DefaultBufSize :: int where
  "DefaultBufSize = 2 ^ 20"

text \<open>The size of the buffer \<open>getBuf\<close> hands out.\<close>

definition buf_size :: "copy_opts \<Rightarrow> nat" where
  "buf_size o' = nat (if co_buf_size o' \<le> 0 then DefaultBufSize else co_buf_size o')"

definition canceled :: "copy_opts \<Rightarrow> 'w cst \<Rightarrow> bool" where
  "canceled o' s = co_cancel o' (cs_polls s)"

definition polled :: "'w cst \<Rightarrow> 'w cst" where
  "polled s = s\<lparr>cs_polls := Suc (cs_polls s)\<rparr>"

definition progress :: "int \<Rightarrow> 'w cst \<Rightarrow> 'w cst" where
  "progress n s = s\<lparr>cs_moved := cs_moved s + n\<rparr>"

text \<open>Run a call that changes the world.\<close>

definition on_world :: "('w \<Rightarrow> 'r \<times> 'w) \<Rightarrow> 'w cst \<Rightarrow> 'r \<times> 'w cst" where
  "on_world f s = (let (r, w) = f (cs_world s) in (r, s\<lparr>cs_world := w\<rparr>))"

abbreviation err_canceled :: "goerr option" where
  "err_canceled \<equiv> Some (Sentinel ErrCanceled)"

subsection \<open>Streaming copy\<close>

text \<open>The write of one chunk in \<open>plainCopy\<close>: the error to return, and the bytes written so far.\<close>

definition write_chunk ::
  "'w gofile \<Rightarrow> bytes \<Rightarrow> int \<Rightarrow> 'w cst \<Rightarrow> (goerr option \<times> int) \<times> 'w cst" where
  "write_chunk dst b written s =
     (let ((nw, werr), s) = on_world (fl_write dst b) s;
          (written, s) = (if nw > 0 then (written + int nw, progress (int nw) s) else (written, s))
      in (if werr \<noteq> None then ((werr, written), s)
          else if nw < length b then ((Some (Sentinel ErrShortWrite), written), s)
          else ((None, written), s)))"

fun plain_loop ::
  "copy_opts \<Rightarrow> 'w gofile \<Rightarrow> (bytes \<times> goerr option) list \<Rightarrow> int \<Rightarrow> 'w cst \<Rightarrow>
     (int \<times> goerr option) \<times> 'w cst" where
  "plain_loop o' dst [] written s =
     (if canceled o' s then ((written, err_canceled), polled s) else ((written, None), polled s))"
| "plain_loop o' dst ((b, rerr) # rest) written s =
     (if canceled o' s then ((written, err_canceled), polled s)
      else
        (let ((werr, written), s) =
               (if b \<noteq> [] then write_chunk dst b written (polled s) else ((None, written), polled s))
         in if werr \<noteq> None then ((written, werr), s)
            else if rerr = Some (Sentinel IoEOF) then ((written, None), s)
            else if rerr \<noteq> None then ((written, rerr), s)
            else plain_loop o' dst rest written s))"

definition plainCopy ::
  "'w gofile \<Rightarrow> reader \<Rightarrow> copy_opts \<Rightarrow> 'w cst \<Rightarrow> (int \<times> goerr option) \<times> 'w cst" where
  "plainCopy dst src o' s = plain_loop o' dst (rd_script src (buf_size o')) 0 s"

subsection \<open>Hole-preserving copy\<close>

definition sparseBlock :: nat where
  "sparseBlock = 4096"

definition slice :: "nat \<Rightarrow> nat \<Rightarrow> 'a list \<Rightarrow> 'a list" where
  "slice i j xs = take (j - i) (drop i xs)"

definition all_zero :: "bytes \<Rightarrow> bool" where
  "all_zero b = list_all (\<lambda>x. x = 0) b"

text \<open>The loop of \<open>writeNonZero\<close>: \<open>run\<close> is \<open>runStart\<close>, \<open>None\<close> for -1.\<close>

function wnz_loop ::
  "'w gofile \<Rightarrow> bytes \<Rightarrow> int \<Rightarrow> nat \<Rightarrow> nat option \<Rightarrow> 'w \<Rightarrow> goerr option \<times> 'w" where
  "wnz_loop dst p off i run w =
     (if i < length p
      then
        (let e = min (i + sparseBlock) (length p);
             zero = all_zero (slice i e p);
             run = (if \<not> zero \<and> run = None then Some i else run)
         in case run of
              Some r \<Rightarrow>
                (if zero
                 then (let (err, w) = fl_write_at dst (slice r i p) (off + int r) w in
                       if err \<noteq> None then (err, w) else wnz_loop dst p off (i + sparseBlock) None w)
                 else wnz_loop dst p off (i + sparseBlock) (Some r) w)
            | None \<Rightarrow> wnz_loop dst p off (i + sparseBlock) None w)
      else
        (case run of
           Some r \<Rightarrow> fl_write_at dst (drop r p) (off + int r) w
         | None \<Rightarrow> (None, w)))"
  by pat_completeness auto
termination
  by (relation "measure (\<lambda>(dst, p, off, i, run, w). length p - i)") (auto simp: sparseBlock_def)

declare wnz_loop.simps [simp del]

text \<open>One round of the loop, with its block test and the run it leaves named.\<close>

definition wnz_zero :: "bytes \<Rightarrow> nat \<Rightarrow> bool" where
  "wnz_zero p i = all_zero (slice i (min (i + sparseBlock) (length p)) p)"

definition wnz_run :: "bytes \<Rightarrow> nat \<Rightarrow> nat option \<Rightarrow> nat option" where
  "wnz_run p i run = (if \<not> wnz_zero p i \<and> run = None then Some i else run)"

lemma wnz_loop_end:
  "\<not> i < length p \<Longrightarrow> wnz_loop dst p off i run w =
     (case run of Some r \<Rightarrow> fl_write_at dst (drop r p) (off + int r) w | None \<Rightarrow> (None, w))"
  by (subst wnz_loop.simps) simp

lemma wnz_loop_step:
  "i < length p \<Longrightarrow> wnz_loop dst p off i run w =
     (case wnz_run p i run of
        Some r \<Rightarrow>
          (if wnz_zero p i
           then (if fst (fl_write_at dst (slice r i p) (off + int r) w) \<noteq> None
                 then fl_write_at dst (slice r i p) (off + int r) w
                 else wnz_loop dst p off (i + sparseBlock) None
                        (snd (fl_write_at dst (slice r i p) (off + int r) w)))
           else wnz_loop dst p off (i + sparseBlock) (Some r) w)
      | None \<Rightarrow> wnz_loop dst p off (i + sparseBlock) None w)"
  by (subst wnz_loop.simps)
    (simp add: Let_def wnz_run_def wnz_zero_def case_prod_beta split: option.split)

lemma wnz_induct [case_names fin step]:
  assumes "\<And>i run w. \<not> i < length p \<Longrightarrow> P i run w"
    and "\<And>i run w. i < length p \<Longrightarrow> (\<And>run w. P (i + sparseBlock) run w) \<Longrightarrow> P i run w"
  shows "P i run w"
proof (induction "length p - i" arbitrary: i run w rule: less_induct)
  case (less i run w)
  show ?case
    using assms(1) [of i run w] assms(2) [of i run w] less [of "i + sparseBlock"]
    by (cases "i < length p") (auto simp: sparseBlock_def)
qed

definition writeNonZero :: "'w gofile \<Rightarrow> bytes \<Rightarrow> int \<Rightarrow> 'w \<Rightarrow> goerr option \<times> 'w" where
  "writeNonZero dst p off w = wnz_loop dst p off 0 None w"

text \<open>The loop of \<open>copySparse\<close>; the result after the last read still needs the truncation.\<close>

fun sparse_loop ::
  "copy_opts \<Rightarrow> 'w gofile \<Rightarrow> (bytes \<times> goerr option) list \<Rightarrow> int \<Rightarrow> 'w cst \<Rightarrow>
     (int \<times> goerr option) \<times> 'w cst" where
  "sparse_loop o' dst [] offset s =
     (if canceled o' s then ((offset, err_canceled), polled s) else ((offset, None), polled s))"
| "sparse_loop o' dst ((b, rerr) # rest) offset s =
     (if canceled o' s then ((offset, err_canceled), polled s)
      else
        (let (werr, s) =
               (if b \<noteq> [] then on_world (writeNonZero dst b offset) (polled s) else (None, polled s))
         in if werr \<noteq> None then ((offset, werr), s)
            else
              (let (offset, s) =
                     (if b \<noteq> [] then (offset + int (length b), progress (int (length b)) s)
                      else (offset, s))
               in if rerr = Some (Sentinel IoEOF) then ((offset, None), s)
                  else if rerr \<noteq> None then ((offset, rerr), s)
                  else sparse_loop o' dst rest offset s)))"

definition copySparse ::
  "'w gofile \<Rightarrow> reader \<Rightarrow> copy_opts \<Rightarrow> 'w cst \<Rightarrow> (int \<times> goerr option) \<times> 'w cst" where
  "copySparse dst src o' s =
     (let ((offset, err), s) = sparse_loop o' dst (rd_script src (buf_size o')) 0 s in
      if err \<noteq> None then ((offset, err), s)
      else (let (terr, s) = on_world (fl_truncate dst offset) s in
            if terr \<noteq> None then ((offset, terr), s) else ((offset, None), s)))"

subsection \<open>Kernel copies\<close>

text \<open>
  The system calls of the Linux fast paths: \<open>FICLONE\<close>, and \<open>copy_file_range\<close> from the current
  source position. The extent-aware copy (extents_linux.go) is the parameter \<open>kn_dedup\<close>, which
  answers the bytes, whether it applied, and its error; \<open>kn_kill\<close> and \<open>kn_commit\<close> are the end
  of a file's dedup state. The extended attribute calls are those of xattr.go's \<open>xattrSys\<close>: \<open>None\<close> as
  the destination buffer asks for the size.
\<close>

record 'w kernel =
  kn_ficlone :: "'w gofile \<Rightarrow> reader \<Rightarrow> 'w \<Rightarrow> goerr option \<times> 'w"
  kn_copy_range :: "'w gofile \<Rightarrow> reader \<Rightarrow> int \<Rightarrow> 'w \<Rightarrow> (errno + nat) \<times> 'w"
  kn_dedup :: "'w gofile \<Rightarrow> reader \<Rightarrow> int \<Rightarrow> copy_opts \<Rightarrow> 'w cst \<Rightarrow> (int \<times> bool \<times> goerr option) \<times> 'w cst"
  kn_kill :: "'w \<Rightarrow> 'w"
  kn_commit :: "string \<Rightarrow> 'w \<Rightarrow> 'w"
  kn_xattr_list :: "'w \<Rightarrow> string \<Rightarrow> nat option \<Rightarrow> bool \<Rightarrow> goerr + bytes"
  kn_xattr_get :: "'w \<Rightarrow> string \<Rightarrow> bytes \<Rightarrow> nat option \<Rightarrow> bool \<Rightarrow> goerr + bytes"
  kn_xattr_set :: "string \<Rightarrow> bytes \<Rightarrow> bytes \<Rightarrow> bool \<Rightarrow> 'w \<Rightarrow> goerr option \<times> 'w"

definition copyChunk :: int where
  "copyChunk = 128 * 2 ^ 20"

text \<open>\<open>copyFileRange\<close>: the bytes copied, whether the call applied, and the error.\<close>

function cfr_loop ::
  "'w kernel \<Rightarrow> 'w gofile \<Rightarrow> reader \<Rightarrow> copy_opts \<Rightarrow> int \<Rightarrow> int \<Rightarrow> 'w cst \<Rightarrow>
     (int \<times> bool \<times> goerr option) \<times> 'w cst" where
  "cfr_loop kn dst src o' remaining copied s =
     (if remaining > 0
      then
        (if canceled o' s then ((copied, True, err_canceled), polled s)
         else
           (let chunk = (if remaining > copyChunk then copyChunk else remaining);
                (r, s) = on_world (kn_copy_range kn dst src chunk) (polled s)
            in case r of
                 Inl e \<Rightarrow>
                   (if copied = 0 \<and> e \<in> set [ENOSYS, EXDEV, EINVAL, EOPNOTSUPP, EBADF, EPERM]
                    then ((0, False, None), s)
                    else ((copied, True, Some (Errno e)), s))
               | Inr n \<Rightarrow>
                   (if n = 0 then ((copied, True, None), s)
                    else cfr_loop kn dst src o' (remaining - int n) (copied + int n)
                           (progress (int n) s))))
      else ((copied, True, None), s))"
  by pat_completeness auto
termination
  by (relation "measure (\<lambda>(kn, dst, src, o', remaining, copied, s). nat remaining)") auto

declare cfr_loop.simps [simp del]

definition copyFileRange ::
  "'w kernel \<Rightarrow> 'w gofile \<Rightarrow> reader \<Rightarrow> int \<Rightarrow> copy_opts \<Rightarrow> 'w cst \<Rightarrow>
     (int \<times> bool \<times> goerr option) \<times> 'w cst" where
  "copyFileRange kn dst src size' o' s = cfr_loop kn dst src o' size' 0 s"

definition isSparse :: "file_info \<Rightarrow> bool" where
  "isSparse fi =
     (case fi_sys fi of SysStat st \<Rightarrow> wrap64 (st_blocks st * 512) < fi_size fi | _ \<Rightarrow> False)"

text \<open>The sparse, \<open>copy_file_range\<close> and streaming tail of \<open>copyData\<close>.\<close>

definition copy_data_tail ::
  "'w kernel \<Rightarrow> 'w gofile \<Rightarrow> reader \<Rightarrow> file_info \<Rightarrow> copy_opts \<Rightarrow> 'w cst \<Rightarrow>
     (int \<times> goerr option) \<times> 'w cst" where
  "copy_data_tail kn dst src info o' s =
     (if isSparse info then copySparse dst src o' s
      else (let ((n, ok, err), s) = copyFileRange kn dst src (fi_size info) o' s in
            if ok then ((n, err), s) else plainCopy dst src o' s))"

definition copyData ::
  "'w kernel \<Rightarrow> 'w gofile \<Rightarrow> reader \<Rightarrow> file_info option \<Rightarrow> copy_opts \<Rightarrow> 'w cst \<Rightarrow>
     (int \<times> goerr option) \<times> 'w cst" where
  "copyData kn dst src info o' s =
     (case info of None \<Rightarrow> plainCopy dst src o' s | Some info \<Rightarrow>
      let size' = fi_size info in
      if size' > 0
      then
        (let (cerr, s) = on_world (kn_ficlone kn dst src) s in
         if cerr = None then ((size', None), progress size' s)
         else
           (let ((n, ok, err), s) = kn_dedup kn dst src size' o' s in
            if ok
            then
              (if \<not> (case err of None \<Rightarrow> False | Some e \<Rightarrow> err_is e (Sentinel ErrSourceChanged))
               then ((n, err), s)
               else
                 (let s = s\<lparr>cs_world := kn_kill kn (cs_world s)\<rparr>;
                      (terr, s) = on_world (fl_truncate dst 0) s
                  in if terr \<noteq> None then ((0, terr), s) else copy_data_tail kn dst src info o' s))
            else copy_data_tail kn dst src info o' s))
      else copy_data_tail kn dst src info o' s)"

text \<open>\<open>copyContents\<close>: the fast paths need a real local file at both ends.\<close>

definition copyContents ::
  "'w kernel \<Rightarrow> 'w gofile \<Rightarrow> reader \<Rightarrow> file_info option \<Rightarrow> copy_opts \<Rightarrow> 'w cst \<Rightarrow>
     (int \<times> goerr option) \<times> 'w cst" where
  "copyContents kn dst src info o' s =
     (if fl_is_os dst \<and> rd_is_os src then copyData kn dst src info o' s else plainCopy dst src o' s)"

subsection \<open>Extended attributes\<close>

text \<open>The receiver of skipped attributes (xattrskip.go): the slot holds a callback or nothing; the copy takes \<open>xattrSkipped\<close> of it.\<close>

type_synonym 'w skip_report = "string \<Rightarrow> bytes \<Rightarrow> goerr \<Rightarrow> 'w \<Rightarrow> 'w"

definition xattrSkipped :: "'w skip_report option \<Rightarrow> 'w skip_report" where
  "xattrSkipped slot path name e w = (case slot of None \<Rightarrow> w | Some report \<Rightarrow> report path name e w)"

definition bytes_string :: "bytes \<Rightarrow> string" where
  "bytes_string b = map (\<lambda>x. char_of (unat x)) b"

definition ignorableXattrErr :: "goerr \<Rightarrow> bool" where
  "ignorableXattrErr e \<longleftrightarrow> err_is e (Sentinel ErrUnsupported) \<or> err_is e (Errno ENODATA) \<or> os_is_permission e"

definition xattrFirstBuf :: nat where
  "xattrFirstBuf = 4096"

definition readXattr :: "(nat option \<Rightarrow> goerr + bytes) \<Rightarrow> goerr + bytes" where
  "readXattr read =
     (case read (Some xattrFirstBuf) of
        Inr b \<Rightarrow> Inr b
      | Inl e \<Rightarrow>
          if \<not> err_is e (Errno ERANGE) then Inl e
          else (case read None of
                  Inl e \<Rightarrow> Inl e
                | Inr b \<Rightarrow> read (Some (length b))))"

definition listXattrs :: "'w kernel \<Rightarrow> 'w \<Rightarrow> string \<Rightarrow> bool \<Rightarrow> goerr + bytes list" where
  "listXattrs kn w p nofollow =
     (case readXattr (\<lambda>dest. kn_xattr_list kn w p dest nofollow) of
        Inl e \<Rightarrow> Inl e
      | Inr l \<Rightarrow> if l = [] then Inr [] else Inr (filter (\<lambda>n. n \<noteq> []) (split_on 0 l)))"

definition getXattr :: "'w kernel \<Rightarrow> 'w \<Rightarrow> string \<Rightarrow> bytes \<Rightarrow> bool \<Rightarrow> goerr + bytes" where
  "getXattr kn w p name nofollow = readXattr (\<lambda>dest. kn_xattr_get kn w p name dest nofollow)"

fun copy_xattr_names ::
  "'w kernel \<Rightarrow> 'w skip_report \<Rightarrow> string \<Rightarrow> string \<Rightarrow> bool \<Rightarrow> bytes list \<Rightarrow> 'w \<Rightarrow> goerr option \<times> 'w" where
  "copy_xattr_names kn rep src dst nofollow [] w = (None, w)"
| "copy_xattr_names kn rep src dst nofollow (name # names) w =
     (case getXattr kn w src name nofollow of
        Inl e \<Rightarrow>
          (if ignorableXattrErr e
           then copy_xattr_names kn rep src dst nofollow names (rep src name e w)
           else (Some (WrapErr (''get xattr '' @ bytes_string name @ '' on '' @ src) e), w))
      | Inr v \<Rightarrow>
          (let (err, w) = kn_xattr_set kn dst name v nofollow w in
           case err of
             Some e \<Rightarrow>
               (if ignorableXattrErr e
                then copy_xattr_names kn rep src dst nofollow names (rep dst name e w)
                else (Some (WrapErr (''set xattr '' @ bytes_string name @ '' on '' @ dst) e), w))
           | None \<Rightarrow> copy_xattr_names kn rep src dst nofollow names w))"

definition copyXattrs ::
  "'w kernel \<Rightarrow> 'w skip_report \<Rightarrow> string \<Rightarrow> string \<Rightarrow> bool \<Rightarrow> 'w \<Rightarrow> goerr option \<times> 'w" where
  "copyXattrs kn rep src dst nofollow w =
     (case listXattrs kn w src nofollow of
        Inl e \<Rightarrow>
          (if ignorableXattrErr e then (None, rep src [] e w)
           else (Some (WrapErr (''list xattrs on '' @ src) e), w))
      | Inr names \<Rightarrow> copy_xattr_names kn rep src dst nofollow names w)"

subsection \<open>Metadata\<close>

text \<open>The environment of the package: the kernel calls and the receiver of skipped attributes.\<close>

record 'w env =
  en_kernel :: "'w kernel"
  en_report :: "'w skip_report"

definition copyXattrsFS ::
  "'w env \<Rightarrow> 'w fs \<Rightarrow> string \<Rightarrow> 'w fs \<Rightarrow> string \<Rightarrow> bool \<Rightarrow> 'w \<Rightarrow> goerr option \<times> 'w" where
  "copyXattrsFS en srcFS src dstFS dst nofollow w =
     (if \<not> fs_local srcFS \<or> \<not> fs_local dstFS then (None, w)
      else copyXattrs (en_kernel en) (en_report en) src dst nofollow w)"

definition preserveOwner ::
  "'w fs \<Rightarrow> file_info \<Rightarrow> 'w fs \<Rightarrow> string \<Rightarrow> 'w \<Rightarrow> goerr option \<times> 'w" where
  "preserveOwner srcFS info dstFS dst w =
     (case fs_owner srcFS info of
        None \<Rightarrow> (None, w)
      | Some (uid, gid) \<Rightarrow>
          (let (err, w) = fs_chown dstFS dst uid gid w in
           case err of
             Some e \<Rightarrow> if os_is_permission e \<or> unsupported err then (None, w) else (err, w)
           | None \<Rightarrow> (None, w)))"

definition preserveTimes :: "'w fs \<Rightarrow> string \<Rightarrow> file_info \<Rightarrow> 'w \<Rightarrow> goerr option \<times> 'w" where
  "preserveTimes dstFS dst info w =
     (let mt = fi_mtime info; (err, w) = fs_chtimes dstFS dst mt mt w in
      case err of
        Some e \<Rightarrow>
          if unsupported err then (None, w)
          else (Some (WrapErr (''set times on '' @ fs_display dstFS dst) e), w)
      | None \<Rightarrow> (None, w))"

text \<open>The chmod both \<open>ApplyMeta\<close> and \<open>SyncAttrs\<close> start with.\<close>

definition chmod_perm :: "'w fs \<Rightarrow> string \<Rightarrow> file_info \<Rightarrow> 'w \<Rightarrow> goerr option \<times> 'w" where
  "chmod_perm dstFS dst info w =
     (let (err, w) = fs_chmod dstFS dst (mode_perm (fi_mode info)) w in
      case err of
        Some e \<Rightarrow>
          if unsupported err then (None, w) else (Some (WrapErr (''chmod '' @ fs_display dstFS dst) e), w)
      | None \<Rightarrow> (None, w))"

definition applyMeta ::
  "'w env \<Rightarrow> 'w fs \<Rightarrow> string \<Rightarrow> 'w fs \<Rightarrow> string \<Rightarrow> file_info option \<Rightarrow> bool \<Rightarrow> 'w \<Rightarrow> goerr option \<times> 'w" where
  "applyMeta en srcFS src dstFS dst info preserve w =
     (case info of
        None \<Rightarrow> (None, w)
      | Some info \<Rightarrow>
          if \<not> preserve then (None, w)
          else
            (let isLink = is_symlink (fi_mode info);
                 (err, w) = (if \<not> isLink then chmod_perm dstFS dst info w else (None, w))
             in if err \<noteq> None then (err, w)
                else
                  (let (err, w) = preserveOwner srcFS info dstFS dst w in
                   if err \<noteq> None then (err, w)
                   else
                     (let (err, w) = copyXattrsFS en srcFS src dstFS dst isLink w in
                      if err \<noteq> None then (err, w)
                      else if \<not> isLink then preserveTimes dstFS dst info w
                      else (None, w)))))"

definition syncAttrs ::
  "'w fs \<Rightarrow> file_info \<Rightarrow> 'w fs \<Rightarrow> string \<Rightarrow> bool \<Rightarrow> bool \<Rightarrow> bool \<Rightarrow> 'w \<Rightarrow> goerr option \<times> 'w" where
  "syncAttrs srcFS info dstFS dst mode owner times' w =
     (let (err, w) = (if mode then chmod_perm dstFS dst info w else (None, w)) in
      if err \<noteq> None then (err, w)
      else
        (let (err, w) = (if owner then preserveOwner srcFS info dstFS dst w else (None, w)) in
         if err \<noteq> None then (err, w)
         else if times' then preserveTimes dstFS dst info w
         else (None, w)))"

subsection \<open>CopyFile\<close>

definition replace_file :: "'w fs \<Rightarrow> string \<Rightarrow> string \<Rightarrow> 'w \<Rightarrow> goerr option \<times> 'w" where
  "replace_file fsys tmp dst w =
     (let (err, w) = fs_rename fsys tmp dst w in
      case err of
        None \<Rightarrow> (None, w)
      | Some e \<Rightarrow>
          if \<not> os_is_permission e then (err, w)
          else
            (case fs_lstat fsys w dst of
               Inl _ \<Rightarrow> (err, w)
             | Inr fi \<Rightarrow>
                 if \<not> is_regular (fi_mode fi) \<or> mode_perm (fi_mode fi) AND 0x80 \<noteq> 0 then (err, w)
                 else
                   (let (cerr, w) = fs_chmod fsys dst (mode_perm (fi_mode fi) OR 0x80) w in
                    if cerr \<noteq> None then (err, w)
                    else
                      (let (rerr, w) = fs_rename fsys tmp dst w in
                       if rerr \<noteq> None
                       then (rerr, snd (fs_chmod fsys dst (mode_perm (fi_mode fi)) w))
                       else (None, w)))))"

text \<open>The metadata applied to the open temporary file and its path, before it is synced and closed:
  the collected errors.\<close>

definition temp_meta ::
  "'w env \<Rightarrow> 'w fs \<Rightarrow> string \<Rightarrow> 'w fs \<Rightarrow> 'w gofile \<Rightarrow> file_info option \<Rightarrow> copy_opts \<Rightarrow> 'w \<Rightarrow>
     goerr list \<times> 'w" where
  "temp_meta en srcFS src dstFS tmp info o' w =
     (let perm = (case info of None \<Rightarrow> 0x1A4 | Some i \<Rightarrow> mode_perm (fi_mode i));
          (err, w) = fl_chmod tmp perm w;
          errs = (case err of Some e \<Rightarrow> if unsupported err then [] else [WrapErr ''chmod'' e] | None \<Rightarrow> [])
      in case info of
           None \<Rightarrow> (errs, w)
         | Some i \<Rightarrow>
             if \<not> co_preserve o' then (errs, w)
             else
               (let (err, w) = preserveOwner srcFS i dstFS (fl_name tmp) w;
                    errs = errs @ (case err of Some e \<Rightarrow> [WrapErr ''chown'' e] | None \<Rightarrow> []);
                    (err, w) = copyXattrsFS en srcFS src dstFS (fl_name tmp) False w
                in (errs @ (case err of Some e \<Rightarrow> [e] | None \<Rightarrow> []), w)))"

text \<open>The deferred clean-up of a copy that did not commit.\<close>

definition discard_temp :: "'w env \<Rightarrow> 'w fs \<Rightarrow> 'w gofile \<Rightarrow> 'w \<Rightarrow> 'w" where
  "discard_temp en dstFS tmp w =
     (let w = kn_kill (en_kernel en) w;
          w = snd (fl_close tmp w)
      in snd (fs_remove dstFS (fl_name tmp) w))"

text \<open>From the closed temporary file to the published one.\<close>

definition publish ::
  "'w env \<Rightarrow> 'w fs \<Rightarrow> 'w gofile \<Rightarrow> string \<Rightarrow> file_info option \<Rightarrow> copy_opts \<Rightarrow> goerr list \<Rightarrow> int \<Rightarrow> 'w \<Rightarrow>
     (int \<times> goerr option) \<times> 'w" where
  "publish en dstFS tmp dst info o' errs n w =
     (let (err, w) =
            (case info of
               Some i \<Rightarrow> if co_preserve o' then preserveTimes dstFS (fl_name tmp) i w else (None, w)
             | None \<Rightarrow> (None, w));
          errs = errs @ (case err of Some e \<Rightarrow> [e] | None \<Rightarrow> []);
          (err, w) = replace_file dstFS (fl_name tmp) dst w
      in case err of
           Some e \<Rightarrow>
             ((n, Some (WrapErr (''rename '' @ fs_display dstFS (fl_name tmp) @ '' -> '' @ fs_display dstFS dst) e)),
              discard_temp en dstFS tmp w)
         | None \<Rightarrow>
             (let w = kn_commit (en_kernel en) dst w in
              if errs \<noteq> [] then ((n, Some (MetaErr (fs_display dstFS dst) errs)), w) else ((n, None), w)))"

text \<open>From the copied contents to the closed temporary file.\<close>

definition finish_temp ::
  "'w env \<Rightarrow> 'w fs \<Rightarrow> string \<Rightarrow> 'w fs \<Rightarrow> 'w gofile \<Rightarrow> string \<Rightarrow> file_info option \<Rightarrow> copy_opts \<Rightarrow> int \<Rightarrow> 'w \<Rightarrow>
     (int \<times> goerr option) \<times> 'w" where
  "finish_temp en srcFS src dstFS tmp dst info o' n w =
     (let (errs, w) = temp_meta en srcFS src dstFS tmp info o' w;
          (serr, w) = (if co_fsync o' then fl_sync tmp w else (None, w))
      in if serr \<noteq> None \<and> \<not> unsupported serr
         then ((n, Some (WrapErr (''fsync '' @ fs_display dstFS (fl_name tmp)) (the serr))),
               discard_temp en dstFS tmp w)
         else
           (let (cerr, w) = fl_close tmp w in
            if cerr \<noteq> None
            then ((n, Some (WrapErr (''close '' @ fs_display dstFS (fl_name tmp)) (the cerr))),
                  discard_temp en dstFS tmp w)
            else publish en dstFS tmp dst info o' errs n w))"

definition copyFile ::
  "'w env \<Rightarrow> 'w fs \<Rightarrow> string \<Rightarrow> 'w fs \<Rightarrow> string \<Rightarrow> file_info option \<Rightarrow> copy_opts \<Rightarrow> 'w cst \<Rightarrow>
     (int \<times> goerr option) \<times> 'w cst" where
  "copyFile en srcFS src dstFS dst info o' s =
     (if canceled o' s then ((0, err_canceled), polled s)
      else
        (let s = polled s in
         case fs_open srcFS (cs_world s) src of
           Inl e \<Rightarrow> ((0, Some e), s)
         | Inr inp \<Rightarrow>
             (let (t, s) = on_world (fs_create_temp dstFS (fs_dir dstFS dst) ''.basicopy-tmp-*'') s in
              case t of
                Inl e \<Rightarrow> ((0, Some (WrapErr (''create temp for '' @ fs_display dstFS dst) e)), s)
              | Inr tmp \<Rightarrow>
                  (let ((n, err), s) = copyContents (en_kernel en) tmp inp info o' s in
                   case err of
                     Some e \<Rightarrow>
                       ((n, Some (WrapErr (''copy '' @ fs_display srcFS src @ '' -> '' @ fs_display dstFS dst) e)),
                        s\<lparr>cs_world := discard_temp en dstFS tmp (cs_world s)\<rparr>)
                   | None \<Rightarrow> on_world (finish_temp en srcFS src dstFS tmp dst info o' n) s))))"

end
