(* ===== verification/Scan.thy ===== *)
theory Scan
  imports Vfs
begin

text \<open>
  The skip decision, internal/scan/scan.go: does a destination entry already match its source, and
  why not when it does not. The hash of the \<open>blake3\<close> package is the parameter \<open>hash\<close>, a function of
  the bytes written to it.
\<close>

record verdict =
  vd_need_copy :: bool
  vd_reason :: string
  vd_dst_info :: "file_info option"
  vd_mode_diff :: bool
  vd_owner_diff :: bool
  vd_time_diff :: bool
  vd_src_uid :: int
  vd_src_gid :: int
  vd_dst_uid :: int
  vd_dst_gid :: int

definition no_verdict :: verdict where
  "no_verdict = \<lparr>vd_need_copy = False, vd_reason = [], vd_dst_info = None, vd_mode_diff = False,
     vd_owner_diff = False, vd_time_diff = False, vd_src_uid = 0, vd_src_gid = 0, vd_dst_uid = 0,
     vd_dst_gid = 0\<rparr>"

subsection \<open>Durations\<close>

text \<open>\<open>mtimeTolerance\<close> is \<open>time.Second\<close>, in nanoseconds.\<close>

definition mtimeTolerance :: int where
  "mtimeTolerance = 1000000000"

text \<open>\<open>Time.Sub\<close> saturates at the ends of \<open>int64\<close>; negating a duration wraps.\<close>

definition time_sub :: "int \<Rightarrow> int \<Rightarrow> int" where
  "time_sub a b = max (- (2 ^ 63)) (min (2 ^ 63 - 1) (a - b))"

definition absDur :: "int \<Rightarrow> int" where
  "absDur d = (if d < 0 then wrap64 (- d) else d)"

subsection \<open>Content hashes\<close>

text \<open>The loop of \<open>hashFile\<close>: every chunk read goes to the hasher, also one that comes with an error.\<close>

fun read_chunks :: "(bytes \<times> goerr option) list \<Rightarrow> bytes \<Rightarrow> goerr + bytes" where
  "read_chunks [] acc = Inr acc"
| "read_chunks ((b, err) # rest) acc =
     (let acc = acc @ b in
      if err = Some (Sentinel IoEOF) then Inr acc
      else (case err of Some e \<Rightarrow> Inl e | None \<Rightarrow> read_chunks rest acc))"

definition hashBufSize :: nat where
  "hashBufSize = 2 ^ 20"

definition hashFile :: "(bytes \<Rightarrow> 'd) \<Rightarrow> 'w fs \<Rightarrow> 'w \<Rightarrow> string \<Rightarrow> goerr + 'd" where
  "hashFile hash vfsys w path =
     (case fs_open vfsys w path of
        Inl e \<Rightarrow> Inl e
      | Inr f \<Rightarrow>
          (case read_chunks (rd_script f hashBufSize) [] of
             Inl e \<Rightarrow> Inl e
           | Inr bs \<Rightarrow> Inr (hash bs)))"

definition sameContent :: "(bytes \<Rightarrow> 'd) \<Rightarrow> 'w fs \<Rightarrow> string \<Rightarrow> 'w fs \<Rightarrow> string \<Rightarrow> 'w \<Rightarrow> bool" where
  "sameContent hash srcFS srcPath dstFS dstPath w =
     (case hashFile hash srcFS w srcPath of
        Inl e \<Rightarrow> False
      | Inr hs \<Rightarrow>
          (case hashFile hash dstFS w dstPath of
             Inl e \<Rightarrow> False
           | Inr h \<Rightarrow> hs = h))"

subsection \<open>Comparing\<close>

definition compareAttrs :: "'w fs \<Rightarrow> file_info \<Rightarrow> 'w fs \<Rightarrow> file_info \<Rightarrow> verdict" where
  "compareAttrs srcFS srcInfo dstFS dstInfo =
     (let v = no_verdict\<lparr>vd_dst_info := Some dstInfo,
                vd_mode_diff := mode_perm (fi_mode srcInfo) \<noteq> mode_perm (fi_mode dstInfo)\<rparr>
      in case fs_owner srcFS srcInfo of
           None \<Rightarrow> v
         | Some (su, sg) \<Rightarrow>
             (case fs_owner dstFS dstInfo of
                None \<Rightarrow> v
              | Some (du, dg) \<Rightarrow>
                  if su \<noteq> du \<or> sg \<noteq> dg
                  then v\<lparr>vd_owner_diff := True, vd_src_uid := su, vd_src_gid := sg,
                         vd_dst_uid := du, vd_dst_gid := dg\<rparr>
                  else v))"

definition need_copy :: "string \<Rightarrow> file_info option \<Rightarrow> verdict" where
  "need_copy reason di = no_verdict\<lparr>vd_need_copy := True, vd_reason := reason, vd_dst_info := di\<rparr>"

definition mtime_match :: "file_info \<Rightarrow> file_info \<Rightarrow> bool" where
  "mtime_match srcInfo dstInfo \<longleftrightarrow>
     absDur (time_sub (fi_mtime srcInfo) (fi_mtime dstInfo)) \<le> mtimeTolerance"

definition compare ::
  "(bytes \<Rightarrow> 'd) \<Rightarrow> 'w fs \<Rightarrow> string \<Rightarrow> file_info \<Rightarrow> 'w fs \<Rightarrow> string \<Rightarrow> bool \<Rightarrow> 'w \<Rightarrow> verdict" where
  "compare hash srcFS srcPath srcInfo dstFS dstPath checksum w =
     (case fs_lstat dstFS w dstPath of
        Inl e \<Rightarrow> need_copy ''new'' None
      | Inr dstInfo \<Rightarrow>
          if \<not> is_regular (fi_mode dstInfo) then need_copy ''type change'' (Some dstInfo)
          else if fi_size srcInfo \<noteq> fi_size dstInfo
          then need_copy (''size '' @ show_int (fi_size dstInfo) @ '' -> '' @ show_int (fi_size srcInfo))
                 (Some dstInfo)
          else if \<not> checksum \<and> \<not> mtime_match srcInfo dstInfo
          then need_copy ''mtime differs'' (Some dstInfo)
          else if checksum \<and> \<not> sameContent hash srcFS srcPath dstFS dstPath w
          then need_copy ''content differs'' (Some dstInfo)
          else (compareAttrs srcFS srcInfo dstFS dstInfo)
                 \<lparr>vd_time_diff := checksum \<and> \<not> mtime_match srcInfo dstInfo\<rparr>)"

subsection \<open>Facts\<close>

lemma need_copy_simps [simp]:
  "vd_need_copy (need_copy r d)" "vd_reason (need_copy r d) = r" "vd_dst_info (need_copy r d) = d"
  by (simp_all add: need_copy_def)

lemma compareAttrs_simps [simp]:
  "\<not> vd_need_copy (compareAttrs sf si df di)" "vd_dst_info (compareAttrs sf si df di) = Some di"
  "vd_mode_diff (compareAttrs sf si df di) = (mode_perm (fi_mode si) \<noteq> mode_perm (fi_mode di))"
  "\<not> vd_time_diff (compareAttrs sf si df di)"
  by (auto simp: compareAttrs_def no_verdict_def Let_def split: option.splits)

lemma absDur_time_sub: "\<bar>a - b\<bar> < 2 ^ 63 \<Longrightarrow> absDur (time_sub a b) = \<bar>a - b\<bar>"
  by (auto simp: absDur_def time_sub_def wrap64_id)

lemma mtime_match_iff:
  "\<bar>fi_mtime si - fi_mtime di\<bar> < 2 ^ 63 \<Longrightarrow>
     mtime_match si di \<longleftrightarrow> \<bar>fi_mtime si - fi_mtime di\<bar> \<le> mtimeTolerance"
  by (simp add: mtime_match_def absDur_time_sub)

definition content_of :: "'w fs \<Rightarrow> 'w \<Rightarrow> string \<Rightarrow> goerr + bytes" where
  "content_of vfsys w path =
     (case fs_open vfsys w path of Inl e \<Rightarrow> Inl e | Inr f \<Rightarrow> read_chunks (rd_script f hashBufSize) [])"

lemma sameContent_iff:
  "sameContent hash sf sp df dp w \<longleftrightarrow>
     (\<exists>a b. content_of sf w sp = Inr a \<and> content_of df w dp = Inr b \<and> hash a = hash b)"
  by (auto simp: sameContent_def hashFile_def content_of_def split: sum.splits)

text \<open>C5: The skip decision is exact in both modes. For a destination entry that exists, with a
  modification time less than 2^63 nanoseconds away, the source is skipped if and only if the entry
  is a regular file of the same size and, with \<open>--checksum\<close>, both contents can be read and hash to
  the same digest, without it, the modification times differ by at most one second.\<close>

theorem compare_exact:
  assumes "fs_lstat df w dp = Inr di" and "\<bar>fi_mtime si - fi_mtime di\<bar> < 2 ^ 63"
  shows "\<not> vd_need_copy (compare hash sf sp si df dp checksum w) \<longleftrightarrow>
    is_regular (fi_mode di) \<and> fi_size di = fi_size si \<and>
    (if checksum
     then \<exists>a b. content_of sf w sp = Inr a \<and> content_of df w dp = Inr b \<and> hash a = hash b
     else \<bar>fi_mtime si - fi_mtime di\<bar> \<le> 10 ^ 9)"
  using assms
  by (auto simp: compare_def mtime_match_iff mtimeTolerance_def sameContent_iff)

text \<open>With \<open>--checksum\<close> a skipped file is a copy: when the hash separates the two contents that
  were read, a skip means that source and destination hold the same bytes.\<close>

lemma checksum_skip_same_bytes:
  assumes "\<not> vd_need_copy (compare hash sf sp si df dp True w)"
    and "\<And>a b. content_of sf w sp = Inr a \<Longrightarrow> content_of df w dp = Inr b \<Longrightarrow> hash a = hash b \<Longrightarrow> a = b"
  shows "\<exists>a. content_of sf w sp = Inr a \<and> content_of df w dp = Inr a"
  using assms by (auto simp: compare_def sameContent_iff split: sum.splits if_splits)

text \<open>A saturated time difference passes for a match. When the source's modification time is
  2^63 nanoseconds (about 292 years) or more before the destination's, \<open>Time.Sub\<close> saturates at the
  smallest duration, \<open>absDur\<close> leaves it negative, and the quick check skips a file of equal size
  although the times are centuries apart.\<close>

lemma quick_check_skips_saturated_times:
  assumes "fs_lstat df w dp = Inr di" and "is_regular (fi_mode di)" and "fi_size di = fi_size si"
    and "fi_mtime si - fi_mtime di \<le> - (2 ^ 63)"
  shows "\<not> vd_need_copy (compare hash sf sp si df dp False w)"
proof -
  have "time_sub (fi_mtime si) (fi_mtime di) = - (2 ^ 63)"
    using assms(4) by (simp add: time_sub_def)
  moreover have "absDur (- (2 ^ 63)) = - (2 ^ 63)"
    by (simp add: absDur_def wrap64_def)
  ultimately have "mtime_match si di"
    by (simp add: mtime_match_def mtimeTolerance_def)
  with assms show ?thesis by (simp add: compare_def)
qed

lemma compare_dst_info:
  "\<not> vd_need_copy (compare hash sf sp si df dp cs w) \<Longrightarrow>
     \<exists>di. fs_lstat df w dp = Inr di \<and> is_regular (fi_mode di) \<and>
       vd_dst_info (compare hash sf sp si df dp cs w) = Some di"
  by (auto simp: compare_def split: sum.splits if_splits)

end
