(* ===== verification/Publish.thy ===== *)
theory Publish
  imports Fsx Scan
begin

text \<open>
  What \<open>CopyFile\<close> promises, over what it relies on. The contract observes a world as the sequence of
  its past and present file contents (\<open>obs\<close>, newest first), one entry per system call at least, so
  a statement about every entry is a statement about every instant at which a crash can hit.
  \<open>owned f w\<close>: the open temporary file \<open>f\<close> is the only name of its contents in \<open>w\<close>.
\<close>

type_synonym contents = "string \<Rightarrow> bytes option"

definition alters :: "('w \<Rightarrow> contents list) \<Rightarrow> 'w gofile \<Rightarrow> 'w \<Rightarrow> 'w \<Rightarrow> bool" where
  "alters obs f w w' \<longleftrightarrow>
     (\<exists>ms. obs w' = ms @ obs w \<and>
       (\<forall>m \<in> set ms. m(fl_name f := None) = (hd (obs w))(fl_name f := None)))"

definition touches ::
  "('w \<Rightarrow> contents list) \<Rightarrow> ('w gofile \<Rightarrow> 'w \<Rightarrow> bool) \<Rightarrow> 'w gofile \<Rightarrow> 'w \<Rightarrow> 'w \<Rightarrow> bool" where
  "touches obs owned f w w' \<longleftrightarrow> owned f w' \<and> alters obs f w w'"

definition quiet ::
  "('w \<Rightarrow> contents list) \<Rightarrow> ('w gofile \<Rightarrow> 'w \<Rightarrow> bool) \<Rightarrow> 'w \<Rightarrow> 'w \<Rightarrow> bool" where
  "quiet obs owned w w' \<longleftrightarrow>
     (\<forall>f. owned f w \<longrightarrow> owned f w') \<and> (\<exists>ms. obs w' = ms @ obs w \<and> (\<forall>m \<in> set ms. m = hd (obs w)))"

locale publish_fs =
  fixes dfs :: "'w fs" and en :: "'w env" and obs :: "'w \<Rightarrow> contents list"
    and owned :: "'w gofile \<Rightarrow> 'w \<Rightarrow> bool"
  assumes obs_ne: "obs w \<noteq> []"
    and create_ok: "fs_create_temp dfs d (pre @ ''*'') w = (Inr f, w') \<Longrightarrow>
        hd (obs w) (fl_name f) = None \<and> owned f w' \<and>
        obs w' = (hd (obs w))(fl_name f := Some []) # obs w \<and>
        (\<exists>r. CHR ''/'' \<notin> set r \<and> fl_name f = fs_join dfs d (pre @ r))"
    and create_err: "fs_create_temp dfs d pat w = (Inl e, w') \<Longrightarrow> quiet obs owned w w'"
    and write_law: "owned f w \<Longrightarrow> touches obs owned f w (snd (fl_write f b w))"
    and write_at: "owned f w \<Longrightarrow> touches obs owned f w (snd (fl_write_at f b off w))"
    and truncate: "owned f w \<Longrightarrow> touches obs owned f w (snd (fl_truncate f off w))"
    and fchmod: "owned f w \<Longrightarrow> quiet obs owned w (snd (fl_chmod f perm w))"
    and sync: "owned f w \<Longrightarrow> quiet obs owned w (snd (fl_sync f w))"
    and close: "owned f w \<Longrightarrow> quiet obs owned w (snd (fl_close f w))"
    and chmod: "quiet obs owned w (snd (fs_chmod dfs p perm w))"
    and chown: "quiet obs owned w (snd (fs_chown dfs p u g w))"
    and chtimes: "quiet obs owned w (snd (fs_chtimes dfs p at mt w))"
    and rename_ok: "owned f w \<Longrightarrow> q \<noteq> fl_name f \<Longrightarrow> fs_rename dfs (fl_name f) q w = (None, w') \<Longrightarrow>
        obs w' = (hd (obs w))(q := hd (obs w) (fl_name f), fl_name f := None) # obs w"
    and rename_err: "fs_rename dfs p q w = (Some e, w') \<Longrightarrow> quiet obs owned w w'"
    and remove: "owned f w \<Longrightarrow> \<exists>m. obs (snd (fs_remove dfs (fl_name f) w)) = m # obs w \<and>
        m(fl_name f := None) = (hd (obs w))(fl_name f := None)"
    and ficlone: "owned f w \<Longrightarrow> touches obs owned f w (snd (kn_ficlone (en_kernel en) f rd w))"
    and copy_range: "owned f w \<Longrightarrow> touches obs owned f w (snd (kn_copy_range (en_kernel en) f rd off w))"
    and dedup: "owned f (cs_world s) \<Longrightarrow>
        touches obs owned f (cs_world s) (cs_world (snd (kn_dedup (en_kernel en) f rd off co s)))"
    and kill: "quiet obs owned w (kn_kill (en_kernel en) w)"
    and commit: "obs (kn_commit (en_kernel en) p w) = obs w"
    and xattr_set: "quiet obs owned w (snd (kn_xattr_set (en_kernel en) p name v nf w))"
    and report: "quiet obs owned w (en_report en p name e w)"
begin

lemma quiet_refl [simp]: "quiet obs owned w w"
  by (auto simp: quiet_def intro: exI [of _ "[]"])

lemma alters_refl [simp]: "alters obs f w w"
  by (auto simp: alters_def intro: exI [of _ "[]"])

lemma touches_refl: "owned f w \<Longrightarrow> touches obs owned f w w"
  by (simp add: touches_def)

lemma hd_append_obs: "\<forall>m \<in> set ms. P m \<Longrightarrow> P (hd (obs w)) \<Longrightarrow> P (hd (ms @ obs w))"
  by (cases ms) auto

lemma quiet_hd: "quiet obs owned w w' \<Longrightarrow> hd (obs w') = hd (obs w)"
proof -
  assume "quiet obs owned w w'"
  then obtain ms where ms: "obs w' = ms @ obs w" "\<forall>m \<in> set ms. m = hd (obs w)"
    by (auto simp: quiet_def)
  show ?thesis unfolding ms(1) by (rule hd_append_obs) (use ms(2) in simp_all)
qed

lemma alters_hd:
  "alters obs f w w' \<Longrightarrow> (hd (obs w'))(fl_name f := None) = (hd (obs w))(fl_name f := None)"
proof -
  assume "alters obs f w w'"
  then obtain ms where ms: "obs w' = ms @ obs w"
    "\<forall>m \<in> set ms. m(fl_name f := None) = (hd (obs w))(fl_name f := None)"
    by (auto simp: alters_def)
  show ?thesis unfolding ms(1) by (rule hd_append_obs) (use ms(2) in simp_all)
qed

lemma alters_hd_other: "alters obs f w w' \<Longrightarrow> p \<noteq> fl_name f \<Longrightarrow> hd (obs w') p = hd (obs w) p"
  using alters_hd [of f w w'] by (metis fun_upd_other)

lemma quiet_trans: "quiet obs owned a b \<Longrightarrow> quiet obs owned b c \<Longrightarrow> quiet obs owned a c"
proof -
  assume ab: "quiet obs owned a b" and bc: "quiet obs owned b c"
  obtain ms ns where "obs b = ms @ obs a" "\<forall>m \<in> set ms. m = hd (obs a)"
    "obs c = ns @ obs b" "\<forall>m \<in> set ns. m = hd (obs b)"
    using ab bc by (auto simp: quiet_def)
  then have "obs c = (ns @ ms) @ obs a" "\<forall>m \<in> set (ns @ ms). m = hd (obs a)"
    using quiet_hd [OF ab] by auto
  then show ?thesis using ab bc unfolding quiet_def by blast
qed

lemma alters_trans:
  assumes ab: "alters obs f a b" and bc: "alters obs f b c"
  shows "alters obs f a c"
proof -
  obtain ms ns where "obs b = ms @ obs a"
      "\<forall>m \<in> set ms. m(fl_name f := None) = (hd (obs a))(fl_name f := None)"
    "obs c = ns @ obs b"
      "\<forall>m \<in> set ns. m(fl_name f := None) = (hd (obs b))(fl_name f := None)"
    using ab bc by (auto simp: alters_def)
  then have "obs c = (ns @ ms) @ obs a"
    "\<forall>m \<in> set (ns @ ms). m(fl_name f := None) = (hd (obs a))(fl_name f := None)"
    using alters_hd [OF ab] by auto
  then show ?thesis unfolding alters_def by blast
qed

lemma touches_trans: "touches obs owned f a b \<Longrightarrow> touches obs owned f b c \<Longrightarrow> touches obs owned f a c"
  using alters_trans by (auto simp: touches_def)

lemma quiet_alters: "quiet obs owned w w' \<Longrightarrow> alters obs f w w'"
  by (auto simp: quiet_def alters_def)

lemma quiet_touches: "owned f w \<Longrightarrow> quiet obs owned w w' \<Longrightarrow> touches obs owned f w w'"
  by (auto simp: touches_def quiet_alters) (auto simp: quiet_def)

lemma touches_owned: "touches obs owned f w w' \<Longrightarrow> owned f w'"
  by (simp add: touches_def)

lemma quiet_owned: "quiet obs owned w w' \<Longrightarrow> owned f w \<Longrightarrow> owned f w'"
  by (simp add: quiet_def)

subsection \<open>The copy loops touch only the temporary file\<close>

lemma on_world_world [simp]: "cs_world (snd (on_world g s)) = snd (g (cs_world s))"
  by (simp add: on_world_def split: prod.split)

lemma polled_world [simp]: "cs_world (polled s) = cs_world s" "cs_world (progress n s) = cs_world s"
  by (simp_all add: polled_def progress_def)

lemma write_chunk_touches:
  assumes "owned f (cs_world s)"
  shows "touches obs owned f (cs_world s) (cs_world (snd (write_chunk f b n s)))"
proof -
  obtain r s1 where r: "on_world (fl_write f b) s = (r, s1)" by fastforce
  then have "cs_world s1 = snd (fl_write f b (cs_world s))" by (metis on_world_world snd_conv)
  then have "touches obs owned f (cs_world s) (cs_world s1)" using write_law [OF assms] by simp
  then show ?thesis by (cases r) (simp add: write_chunk_def r)
qed

lemma plain_loop_touches:
  "owned f (cs_world s) \<Longrightarrow> touches obs owned f (cs_world s) (cs_world (snd (plain_loop co f script n s)))"
proof (induction co f script n s rule: plain_loop.induct)
  case (1 co f n s)
  then show ?case by (simp add: touches_refl)
next
  case (2 co f b rerr rest n s)
  obtain werr m s1 where step: "(if b \<noteq> [] then write_chunk f b n (polled s) else ((None, n), polled s))
      = ((werr, m), s1)" by (metis prod.exhaust)
  have t1: "touches obs owned f (cs_world s) (cs_world s1)"
    using step write_chunk_touches [of f "polled s" b n] 2(2)
    by (auto simp: touches_refl split: if_splits)
  show ?case
  proof (cases "canceled co s \<or> werr \<noteq> None \<or> rerr \<noteq> None")
    case True
    then show ?thesis using 2(2) step t1 by (auto simp: touches_refl)
  next
    case False
    then have "touches obs owned f (cs_world s1) (cs_world (snd (plain_loop co f rest m s1)))"
      using 2(1) [OF _ step [symmetric] refl] touches_owned [OF t1] by simp
    with t1 False step show ?thesis by (auto intro: touches_trans)
  qed
qed

lemma plainCopy_touches:
  "owned f (cs_world s) \<Longrightarrow> touches obs owned f (cs_world s) (cs_world (snd (plainCopy f src co s)))"
  by (simp add: plainCopy_def plain_loop_touches)

lemma wnz_loop_touches: "owned f w \<Longrightarrow> touches obs owned f w (snd (wnz_loop f p off i run w))"
proof (induction i run w rule: wnz_induct [of p])
  case (fin i run w)
  then show ?case using write_at [OF fin(2)]
    by (simp add: wnz_loop_end touches_refl split: option.split)
next
  case (step i run w)
  show ?case
  proof (cases "wnz_run p i run")
    case None
    then show ?thesis using step by (simp add: wnz_loop_step)
  next
    case (Some r)
    let ?w = "snd (fl_write_at f (slice r i p) (off + int r) w)"
    have t: "touches obs owned f w ?w" using step(3) by (rule write_at)
    show ?thesis
      using t touches_trans [OF t step(2) [OF touches_owned [OF t]]] step Some
      by (simp add: wnz_loop_step)
  qed
qed

lemma writeNonZero_touches: "owned f w \<Longrightarrow> touches obs owned f w (snd (writeNonZero f p off w))"
  by (simp add: writeNonZero_def wnz_loop_touches)

lemma sparse_loop_touches:
  "owned f (cs_world s) \<Longrightarrow> touches obs owned f (cs_world s) (cs_world (snd (sparse_loop co f script n s)))"
proof (induction co f script n s rule: sparse_loop.induct)
  case (1 co f n s)
  then show ?case by (simp add: touches_refl)
next
  case (2 co f b rerr rest n s)
  obtain werr s1 where step: "(if b \<noteq> [] then on_world (writeNonZero f b n) (polled s) else (None, polled s))
      = (werr, s1)" by (metis prod.exhaust)
  obtain m s2 where adv: "(if b \<noteq> [] then (n + int (length b), progress (int (length b)) s1) else (n, s1))
      = (m, s2)" by (metis prod.exhaust)
  have "cs_world s1 = (if b \<noteq> [] then snd (writeNonZero f b n (cs_world s)) else cs_world s)"
    using step on_world_world [of "writeNonZero f b n" "polled s"]
    by (auto simp del: on_world_world split: if_splits)
  then have t1: "touches obs owned f (cs_world s) (cs_world s1)"
    using writeNonZero_touches [OF 2(2)] touches_refl [OF 2(2)] by simp
  have w2: "cs_world s2 = cs_world s1" using adv by (auto split: if_splits)
  show ?case
  proof (cases "canceled co s \<or> werr \<noteq> None \<or> rerr \<noteq> None")
    case True
    then show ?thesis using 2(2) step adv t1 w2 by (auto simp: touches_refl)
  next
    case False
    then have "touches obs owned f (cs_world s1) (cs_world (snd (sparse_loop co f rest m s2)))"
      using 2(1) [OF _ step [symmetric] _ _ adv [symmetric]] touches_owned [OF t1] w2 by simp
    with t1 False step adv show ?thesis by (auto intro: touches_trans)
  qed
qed

lemma on_world_touches:
  "(\<And>w. owned f w \<Longrightarrow> touches obs owned f w (snd (g w))) \<Longrightarrow> owned f (cs_world s) \<Longrightarrow>
     on_world g s = (r, s') \<Longrightarrow> touches obs owned f (cs_world s) (cs_world s')"
  by (metis on_world_world snd_conv)

lemma copySparse_touches:
  assumes "owned f (cs_world s)"
  shows "touches obs owned f (cs_world s) (cs_world (snd (copySparse f src co s)))"
proof -
  obtain off err s1 where l: "sparse_loop co f (rd_script src (buf_size co)) 0 s = ((off, err), s1)"
    by (metis prod.exhaust)
  have t1: "touches obs owned f (cs_world s) (cs_world s1)"
    using sparse_loop_touches [OF assms] l by (metis snd_conv)
  obtain terr s2 where tr: "on_world (fl_truncate f off) s1 = (terr, s2)" by fastforce
  have "touches obs owned f (cs_world s1) (cs_world s2)"
    using on_world_touches [OF truncate touches_owned [OF t1] tr] .
  with t1 l tr show ?thesis by (auto simp: copySparse_def intro: touches_trans)
qed

lemma cfr_loop_touches:
  "owned f (cs_world s) \<Longrightarrow>
     touches obs owned f (cs_world s) (cs_world (snd (cfr_loop (en_kernel en) f src co rem n s)))"
proof (induction "en_kernel en" f src co rem n s rule: cfr_loop.induct)
  case (1 f src co rem n s)
  let ?chunk = "if rem > copyChunk then copyChunk else rem"
  obtain r s1 where step: "on_world (kn_copy_range (en_kernel en) f src ?chunk) (polled s) = (r, s1)"
    by fastforce
  have t1: "touches obs owned f (cs_world s) (cs_world s1)"
    using on_world_touches [OF copy_range _ step] 1(2) by simp
  show ?case
  proof (cases "rem > 0 \<and> \<not> canceled co s \<and> (\<exists>k. r = Inr k \<and> k \<noteq> 0)")
    case True
    then obtain k where k: "r = Inr k" "k \<noteq> 0" by auto
    have "touches obs owned f (cs_world s1)
        (cs_world (snd (cfr_loop (en_kernel en) f src co (rem - int k) (n + int k) (progress (int k) s1))))"
      using 1(1) [OF _ _ refl refl step [symmetric] k] True touches_owned [OF t1] by simp
    with t1 True step k show ?thesis
      by (subst cfr_loop.simps) (auto simp: Let_def intro: touches_trans)
  next
    case False
    then show ?thesis using t1 step 1(2)
      by (subst cfr_loop.simps) (auto simp: Let_def touches_refl split: sum.split)
  qed
qed

lemma copy_data_tail_touches:
  assumes "owned f (cs_world s)"
  shows "touches obs owned f (cs_world s) (cs_world (snd (copy_data_tail (en_kernel en) f src info co s)))"
proof -
  obtain n ok err s1 where r: "copyFileRange (en_kernel en) f src (fi_size info) co s = ((n, ok, err), s1)"
    by (metis prod.exhaust)
  have t1: "touches obs owned f (cs_world s) (cs_world s1)"
    using cfr_loop_touches [OF assms] r by (metis copyFileRange_def snd_conv)
  have "touches obs owned f (cs_world s) (cs_world (snd (plainCopy f src co s1)))"
    using touches_trans [OF t1 plainCopy_touches [OF touches_owned [OF t1]]] .
  with t1 r copySparse_touches [OF assms] show ?thesis by (simp add: copy_data_tail_def)
qed

lemma copyData_touches:
  assumes ow: "owned f (cs_world s)"
  shows "touches obs owned f (cs_world s) (cs_world (snd (copyData (en_kernel en) f src info co s)))"
proof (cases info)
  case None
  then show ?thesis using plainCopy_touches [OF ow] by (simp add: copyData_def)
next
  case (Some i)
  let ?kn = "en_kernel en"
  obtain cerr s1 where c: "on_world (kn_ficlone ?kn f src) s = (cerr, s1)" by fastforce
  have t1: "touches obs owned f (cs_world s) (cs_world s1)"
    using on_world_touches [OF ficlone ow c] .
  obtain n ok err s2 where d: "kn_dedup ?kn f src (fi_size i) co s1 = ((n, ok, err), s2)"
    by (metis prod.exhaust)
  have t2: "touches obs owned f (cs_world s) (cs_world s2)"
    using touches_trans [OF t1 dedup [OF touches_owned [OF t1]]] d by (metis snd_conv)
  let ?s3 = "s2\<lparr>cs_world := kn_kill ?kn (cs_world s2)\<rparr>"
  have t3: "touches obs owned f (cs_world s) (cs_world ?s3)"
    using touches_trans [OF t2 quiet_touches [OF touches_owned [OF t2] kill]] by simp
  obtain terr s4 where tr: "on_world (fl_truncate f 0) ?s3 = (terr, s4)" by fastforce
  have t4: "touches obs owned f (cs_world s) (cs_world s4)"
    using touches_trans [OF t3 on_world_touches [OF truncate touches_owned [OF t3] tr]] .
  note tail = copy_data_tail_touches [of f _ src i co]
  show ?thesis
    using Some c d tr t1 t2 t3 t4 tail [OF ow] tail [OF touches_owned [OF t2]] tail [OF touches_owned [OF t4]]
    by (auto simp: copyData_def Let_def intro: touches_trans split: option.split)
qed

lemma copyContents_touches:
  "owned f (cs_world s) \<Longrightarrow>
     touches obs owned f (cs_world s) (cs_world (snd (copyContents (en_kernel en) f src info co s)))"
  by (simp add: copyContents_def copyData_touches plainCopy_touches)

subsection \<open>Metadata changes no contents\<close>

lemma chownD: "fs_chown dfs p u g w = (e, w') \<Longrightarrow> quiet obs owned w w'"
  by (metis chown snd_conv)

lemma chtimesD: "fs_chtimes dfs p at mt w = (e, w') \<Longrightarrow> quiet obs owned w w'"
  by (metis chtimes snd_conv)

lemma preserveOwner_quiet: "quiet obs owned w (snd (preserveOwner srcFS i dfs p w))"
  by (auto simp: preserveOwner_def dest: chownD split: option.split prod.split)

lemma preserveTimes_quiet: "quiet obs owned w (snd (preserveTimes dfs p i w))"
  by (auto simp: preserveTimes_def Let_def dest: chtimesD split: option.split prod.split)

lemma copy_xattr_names_quiet: "quiet obs owned w (snd (copy_xattr_names (en_kernel en) (en_report en) a b nf names w))"
proof (induction names arbitrary: w)
  case (Cons n names)
  show ?case
  proof (cases "getXattr (en_kernel en) w a n nf")
    case (Inl e)
    then show ?thesis using quiet_trans [OF report Cons.IH] by simp
  next
    case (Inr v)
    obtain err w1 where s: "kn_xattr_set (en_kernel en) b n v nf w = (err, w1)" by fastforce
    have q: "quiet obs owned w w1" using xattr_set [of w b n v nf] s by simp
    show ?thesis
      using Inr s q quiet_trans [OF q Cons.IH] quiet_trans [OF q quiet_trans [OF report Cons.IH]]
      by (auto split: option.split)
  qed
qed simp

lemma copyXattrsFS_quiet: "quiet obs owned w (snd (copyXattrsFS en srcFS a dfs b nf w))"
  using copy_xattr_names_quiet report
  by (auto simp: copyXattrsFS_def copyXattrs_def split: sum.split)

lemma temp_meta_quiet:
  assumes "owned f w"
  shows "quiet obs owned w (snd (temp_meta en srcFS a dfs f info co w))"
proof -
  let ?perm = "case info of None \<Rightarrow> 0x1A4 | Some i \<Rightarrow> mode_perm (fi_mode i)"
  obtain e1 w1 where c: "fl_chmod f ?perm w = (e1, w1)" by fastforce
  have q1: "quiet obs owned w w1" using fchmod [OF assms, of ?perm] c by simp
  show ?thesis
  proof (cases info)
    case None
    then show ?thesis using c q1 by (simp add: temp_meta_def)
  next
    case (Some i)
    obtain e2 w2 where ow: "preserveOwner srcFS i dfs (fl_name f) w1 = (e2, w2)" by fastforce
    obtain e3 w3 where xa: "copyXattrsFS en srcFS a dfs (fl_name f) False w2 = (e3, w3)" by fastforce
    have "quiet obs owned w w3"
      using q1 preserveOwner_quiet [of w1 srcFS i "fl_name f"] ow
        copyXattrsFS_quiet [of w2 srcFS a "fl_name f" False] xa
      by (metis quiet_trans snd_conv)
    then show ?thesis using Some c ow xa q1 by (simp add: temp_meta_def Let_def)
  qed
qed

lemma discard_temp_alters:
  assumes "owned f w"
  shows "alters obs f w (discard_temp en dfs f w)"
proof -
  let ?w1 = "kn_kill (en_kernel en) w" and ?w2 = "snd (fl_close f (kn_kill (en_kernel en) w))"
  have o1: "owned f ?w1" using quiet_owned [OF kill assms] .
  have q: "quiet obs owned w ?w2" using quiet_trans [OF kill close [OF o1]] .
  obtain m where "obs (snd (fs_remove dfs (fl_name f) ?w2)) = m # obs ?w2"
    "m(fl_name f := None) = (hd (obs ?w2))(fl_name f := None)"
    using remove [OF quiet_owned [OF q assms]] by blast
  then have "alters obs f ?w2 (snd (fs_remove dfs (fl_name f) ?w2))"
    unfolding alters_def by (intro exI [of _ "[m]"]) simp
  with quiet_alters [OF q] show ?thesis
    unfolding discard_temp_def Let_def by (rule alters_trans)
qed

lemma replace_file_cases:
  assumes ow: "owned f w" and ne: "q \<noteq> fl_name f"
    and r: "replace_file dfs (fl_name f) q w = (err, w')"
  shows "if err = None
    then \<exists>w1. quiet obs owned w w1 \<and>
       obs w' = (hd (obs w))(q := hd (obs w) (fl_name f), fl_name f := None) # obs w1
    else quiet obs owned w w'"
proof -
  obtain e1 w1 where r1: "fs_rename dfs (fl_name f) q w = (e1, w1)" by fastforce
  show ?thesis
  proof (cases e1)
    case None
    then show ?thesis using r r1 rename_ok [OF ow ne]
      by (auto simp: replace_file_def intro!: exI [of _ w])
  next
    case (Some e)
    have q1: "quiet obs owned w w1" using rename_err r1 Some by simp
    show ?thesis
    proof (cases "os_is_permission e \<and> (\<exists>fi. fs_lstat dfs w1 q = Inr fi \<and> is_regular (fi_mode fi) \<and>
        mode_perm (fi_mode fi) AND 0x80 = 0)")
      case False
      then show ?thesis using r r1 Some q1
        by (auto simp: replace_file_def split: sum.splits if_splits)
    next
      case True
      then obtain fi where fi: "os_is_permission e" "fs_lstat dfs w1 q = Inr fi" "is_regular (fi_mode fi)"
        "mode_perm (fi_mode fi) AND 0x80 = 0" by blast
      let ?perm = "mode_perm (fi_mode fi)"
      obtain ce w2 where c: "fs_chmod dfs q (?perm OR 0x80) w1 = (ce, w2)" by fastforce
      have q2: "quiet obs owned w w2"
        using quiet_trans [OF q1 chmod [of w1 q "?perm OR 0x80"]] c by simp
      obtain e2 w3 where r2: "fs_rename dfs (fl_name f) q w2 = (e2, w3)" by fastforce
      have ok: "e2 = None \<Longrightarrow> obs w3 = (hd (obs w))(q := hd (obs w) (fl_name f), fl_name f := None) # obs w2"
        using rename_ok [OF quiet_owned [OF q2 ow] ne] r2 quiet_hd [OF q2] by simp
      have bad: "e2 \<noteq> None \<Longrightarrow> quiet obs owned w w3"
        using quiet_trans [OF q2] rename_err r2 by auto
      have bk: "quiet obs owned w3 (snd (fs_chmod dfs q ?perm w3))" by (rule chmod)
      show ?thesis using r r1 Some fi c r2 q2 ok bad quiet_trans [OF bad bk]
        by (auto simp: replace_file_def Let_def split: if_splits)
    qed
  qed
qed

end

text \<open>
  The promise. \<open>crash_safe\<close>: from \<open>w\<close> to \<open>w'\<close> every observed instant holds at \<open>dst\<close> what was there
  before or what is there at the end, and every other path but the temporary one as it was.
\<close>

definition crash_safe :: "('w \<Rightarrow> contents list) \<Rightarrow> string \<Rightarrow> string \<Rightarrow> 'w \<Rightarrow> 'w \<Rightarrow> bool" where
  "crash_safe obs dst tmp w w' \<longleftrightarrow>
     (\<exists>ms. obs w' = ms @ obs w \<and>
       (\<forall>m \<in> set ms.
          (m dst = hd (obs w) dst \<or> m dst = hd (obs w') dst) \<and>
          (\<forall>p. p \<noteq> dst \<longrightarrow> p \<noteq> tmp \<longrightarrow> m p = hd (obs w) p)))"

definition data_failed :: "goerr option \<Rightarrow> bool" where
  "data_failed err \<longleftrightarrow> (case err of None \<Rightarrow> False | Some (MetaErr p es) \<Rightarrow> False | Some e \<Rightarrow> True)"

lemma data_failed_simps [simp]:
  "\<not> data_failed None" "\<not> data_failed (Some (MetaErr p es))" "data_failed (Some (WrapErr m e))"
  "data_failed (Some (Sentinel x))"
  by (simp_all add: data_failed_def)

context publish_fs
begin

lemma alters_crash_safe:
  assumes "alters obs f w w'" and "dst \<noteq> fl_name f"
  shows "crash_safe obs dst (fl_name f) w w' \<and> hd (obs w') dst = hd (obs w) dst"
proof -
  obtain ms where ms: "obs w' = ms @ obs w"
    "\<forall>m \<in> set ms. m(fl_name f := None) = (hd (obs w))(fl_name f := None)"
    using assms(1) by (auto simp: alters_def)
  have "\<forall>m \<in> set ms. \<forall>p. p \<noteq> fl_name f \<longrightarrow> m p = hd (obs w) p"
    using ms(2) by (metis fun_upd_other)
  with ms(1) alters_hd_other [OF assms] assms(2) show ?thesis by (auto simp: crash_safe_def)
qed

lemma crash_safe_prefix:
  assumes al: "alters obs f w w1" and ne: "dst \<noteq> fl_name f" and cs: "crash_safe obs dst (fl_name f) w1 w'"
  shows "crash_safe obs dst (fl_name f) w w'"
proof -
  obtain ms ns where ms: "obs w1 = ms @ obs w"
      "\<forall>m \<in> set ms. m(fl_name f := None) = (hd (obs w))(fl_name f := None)"
    and ns: "obs w' = ns @ obs w1"
      "\<forall>m \<in> set ns. (m dst = hd (obs w1) dst \<or> m dst = hd (obs w') dst) \<and>
          (\<forall>p. p \<noteq> dst \<longrightarrow> p \<noteq> fl_name f \<longrightarrow> m p = hd (obs w1) p)"
    using al cs by (auto simp: alters_def crash_safe_def)
  have other: "\<And>p. p \<noteq> fl_name f \<Longrightarrow> hd (obs w1) p = hd (obs w) p" using alters_hd_other [OF al] .
  have "\<forall>m \<in> set ms. \<forall>p. p \<noteq> fl_name f \<longrightarrow> m p = hd (obs w) p"
    using ms(2) by (metis fun_upd_other)
  then have "\<forall>m \<in> set (ns @ ms). (m dst = hd (obs w) dst \<or> m dst = hd (obs w') dst) \<and>
      (\<forall>p. p \<noteq> dst \<longrightarrow> p \<noteq> fl_name f \<longrightarrow> m p = hd (obs w) p)"
    using ns(2) other ne by auto
  with ms(1) ns(1) show ?thesis unfolding crash_safe_def by (intro exI [of _ "ns @ ms"]) simp
qed

text \<open>What a step of \<open>CopyFile\<close> that starts with the owned temporary file ends in: either \<open>dst\<close> is as
  it was, or it holds the temporary file's contents and the copy did not fail.\<close>

definition published :: "'w gofile \<Rightarrow> string \<Rightarrow> bytes option \<Rightarrow> 'w \<Rightarrow> goerr option \<Rightarrow> 'w \<Rightarrow> bool" where
  "published f dst c w err w' \<longleftrightarrow>
     crash_safe obs dst (fl_name f) w w' \<and>
     (if data_failed err then hd (obs w') dst = hd (obs w) dst
      else hd (obs w') dst = c \<and> hd (obs w') (fl_name f) = None)"

lemma published_prefix:
  "quiet obs owned w w1 \<Longrightarrow> dst \<noteq> fl_name f \<Longrightarrow> published f dst c w1 err w' \<Longrightarrow> published f dst c w err w'"
  using crash_safe_prefix [OF quiet_alters, of w w1 dst f w'] quiet_hd [of w w1]
  by (auto simp: published_def)

lemma discard_published:
  assumes "owned f w" and "dst \<noteq> fl_name f" and "data_failed err"
  shows "published f dst c w err (discard_temp en dfs f w)"
  using alters_crash_safe [OF discard_temp_alters [OF assms(1)] assms(2)] assms(3)
  by (simp add: published_def)

lemma publish_published:
  assumes ow: "owned f w" and ne: "dst \<noteq> fl_name f"
    and p: "publish en dfs f dst info co errs n w = ((n', err), w')"
  shows "published f dst (hd (obs w) (fl_name f)) w err w'"
proof -
  obtain e1 w1 where t: "(case info of
      Some i \<Rightarrow> if co_preserve co then preserveTimes dfs (fl_name f) i w else (None, w)
    | None \<Rightarrow> (None, w)) = (e1, w1)" by fastforce
  have q1: "quiet obs owned w w1"
    using t preserveTimes_quiet [of w "fl_name f"] by (auto split: option.splits if_splits) (metis snd_conv)
  note ow1 = quiet_owned [OF q1 ow]
  obtain e2 w2 where r: "replace_file dfs (fl_name f) dst w1 = (e2, w2)" by fastforce
  note rc = replace_file_cases [OF ow1 ne r]
  have "published f dst (hd (obs w1) (fl_name f)) w1 err w'"
  proof (cases e2)
    case (Some e)
    have q2: "quiet obs owned w1 w2" using rc Some by simp
    have w': "w' = discard_temp en dfs f w2" "data_failed err"
      using p t r Some by (auto simp: publish_def data_failed_def)
    have "published f dst (hd (obs w1) (fl_name f)) w2 err w'"
      using discard_published [OF quiet_owned [OF q2 ow1] ne] w' by simp
    then show ?thesis by (rule published_prefix [OF q2 ne])
  next
    case None
    then obtain w3 where q3: "quiet obs owned w1 w3"
      and o2: "obs w2 = (hd (obs w1))(dst := hd (obs w1) (fl_name f), fl_name f := None) # obs w3"
      using rc by auto
    have w': "obs w' = obs w2" "\<not> data_failed err"
      using p t r None commit by (auto simp: publish_def Let_def data_failed_def split: if_splits)
    have "published f dst (hd (obs w1) (fl_name f)) w3 err w'"
      using w' o2 ne quiet_hd [OF q3] unfolding published_def crash_safe_def
      by (auto intro!: exI [of _ "[(hd (obs w1))(dst := hd (obs w1) (fl_name f), fl_name f := None)]"])
    then show ?thesis by (rule published_prefix [OF q3 ne])
  qed
  then have "published f dst (hd (obs w1) (fl_name f)) w err w'" by (rule published_prefix [OF q1 ne])
  with quiet_hd [OF q1] show ?thesis by simp
qed

lemma finish_temp_published:
  assumes ow: "owned f w" and ne: "dst \<noteq> fl_name f"
    and p: "finish_temp en srcFS src dfs f dst info co n w = ((n', err), w')"
  shows "published f dst (hd (obs w) (fl_name f)) w err w'"
proof -
  obtain errs w1 where m: "temp_meta en srcFS src dfs f info co w = (errs, w1)" by fastforce
  have q1: "quiet obs owned w w1" using temp_meta_quiet [OF ow, of srcFS src info co] m by simp
  obtain se w2 where sy: "(if co_fsync co then fl_sync f w1 else (None, w1)) = (se, w2)" by fastforce
  have q2: "quiet obs owned w w2"
    using quiet_trans [OF q1 sync [OF quiet_owned [OF q1 ow]]] q1 sy by (auto split: if_splits)
  obtain ce w3 where cl: "fl_close f w2 = (ce, w3)" by fastforce
  have q3: "quiet obs owned w w3"
    using quiet_trans [OF q2 close [OF quiet_owned [OF q2 ow]]] cl by simp
  show ?thesis
  proof (cases "se \<noteq> None \<and> \<not> unsupported se \<or> ce \<noteq> None")
    case True
    then obtain wx where wx: "w' = discard_temp en dfs f wx" "quiet obs owned w wx" "data_failed err"
      using p m sy cl q2 q3 by (auto simp: finish_temp_def data_failed_def split: if_splits)
    show ?thesis unfolding wx(1)
      by (rule published_prefix [OF wx(2) ne discard_published [OF quiet_owned [OF wx(2) ow] ne wx(3)]])
  next
    case False
    then have "publish en dfs f dst info co errs n w3 = ((n', err), w')"
      using p m sy cl by (auto simp: finish_temp_def)
    from publish_published [OF quiet_owned [OF q3 ow] ne this]
    have "published f dst (hd (obs w3) (fl_name f)) w err w'" by (rule published_prefix [OF q3 ne])
    with quiet_hd [OF q3] show ?thesis by simp
  qed
qed

text \<open>The whole of \<open>CopyFile\<close>.\<close>

lemma copyFile_crash_safe:
  assumes cp: "copyFile en srcFS src dfs dst info co s = ((n, err), s')"
    and dst: "\<And>r. CHR ''/'' \<notin> set r \<Longrightarrow> dst \<noteq> fs_join dfs (fs_dir dfs dst) (''.basicopy-tmp-'' @ r)"
  shows "\<exists>tmp. crash_safe obs dst tmp (cs_world s) (cs_world s') \<and>
    (data_failed err \<longrightarrow> hd (obs (cs_world s')) dst = hd (obs (cs_world s)) dst)"
proof -
  have same: "\<And>tmp w. crash_safe obs dst tmp w w" by (auto simp: crash_safe_def intro: exI [of _ "[]"])
  let ?pat = "''.basicopy-tmp-'' @ ''*''"
  show ?thesis
  proof (cases "canceled co s \<or> (\<exists>e. fs_open srcFS (cs_world s) src = Inl e)")
    case True
    then have "cs_world s' = cs_world s"
      using cp by (cases "canceled co s") (auto simp: copyFile_def)
    with same show ?thesis by simp
  next
    case False
    then obtain inp where inp: "fs_open srcFS (cs_world s) src = Inr inp"
      by (cases "fs_open srcFS (cs_world s) src") auto
    obtain t s1 where t: "on_world (fs_create_temp dfs (fs_dir dfs dst) ?pat) (polled s) = (t, s1)"
      by fastforce
    then have t': "fs_create_temp dfs (fs_dir dfs dst) ?pat (cs_world s) = (t, cs_world s1)"
      by (auto simp: on_world_def split: prod.splits)
    show ?thesis
    proof (cases t)
      case (Inl e)
      have q: "quiet obs owned (cs_world s) (cs_world s1)" using create_err t' Inl by blast
      have "s' = s1" using cp False inp t Inl by (auto simp: copyFile_def Let_def)
      obtain ms where "obs (cs_world s1) = ms @ obs (cs_world s)" "\<forall>m \<in> set ms. m = hd (obs (cs_world s))"
        using q by (auto simp: quiet_def)
      with \<open>s' = s1\<close> show ?thesis using quiet_hd [OF q] by (auto simp: crash_safe_def)
    next
      case (Inr f)
      let ?w = "cs_world s" and ?w1 = "cs_world s1"
      have c: "hd (obs ?w) (fl_name f) = None" "owned f ?w1"
        "obs ?w1 = (hd (obs ?w))(fl_name f := Some []) # obs ?w"
        "\<exists>r. CHR ''/'' \<notin> set r \<and> fl_name f = fs_join dfs (fs_dir dfs dst) (''.basicopy-tmp-'' @ r)"
        using create_ok t' Inr by blast+
      have ne: "dst \<noteq> fl_name f" using c(4) dst by metis
      obtain n1 e1 s2 where cc: "copyContents (en_kernel en) f inp info co s1 = ((n1, e1), s2)"
        by (metis prod.exhaust)
      have tc: "touches obs owned f ?w1 (cs_world s2)"
        using copyContents_touches [OF c(2), of inp info co] cc by (metis snd_conv)
      have al1: "alters obs f ?w ?w1" using c(3) unfolding alters_def by (intro exI [of _ "[(hd (obs ?w))(fl_name f := Some [])]"]) simp
      have al: "alters obs f ?w (cs_world s2)" using alters_trans [OF al1] tc by (simp add: touches_def)
      have "\<exists>cc. published f dst cc (cs_world s2) err (cs_world s')"
      proof (cases e1)
        case (Some e)
        then have "cs_world s' = discard_temp en dfs f (cs_world s2)" "data_failed err"
          using cp False inp t Inr cc by (auto simp: copyFile_def Let_def data_failed_def)
        with discard_published [OF touches_owned [OF tc] ne] show ?thesis by metis
      next
        case None
        then have "on_world (finish_temp en srcFS src dfs f dst info co n1) s2 = ((n, err), s')"
          using cp False inp t Inr cc by (auto simp: copyFile_def Let_def)
        then have "finish_temp en srcFS src dfs f dst info co n1 (cs_world s2) = ((n, err), cs_world s')"
          by (auto simp: on_world_def split: prod.splits)
        from finish_temp_published [OF touches_owned [OF tc] ne this] show ?thesis by blast
      qed
      then obtain k where pb: "published f dst k (cs_world s2) err (cs_world s')" by blast
      then show ?thesis
        using crash_safe_prefix [OF al ne] alters_hd_other [OF al ne] by (auto simp: published_def)
    qed
  qed
qed

end

text \<open>Writes that append: a handle at the end of its file stays there, and what the call reports as
  written is what the file gained.\<close>

locale stream_fs = publish_fs dfs en obs owned
  for dfs :: "'w fs" and en :: "'w env" and obs :: "'w \<Rightarrow> contents list"
    and owned :: "'w gofile \<Rightarrow> 'w \<Rightarrow> bool" +
  fixes at_end :: "'w gofile \<Rightarrow> 'w \<Rightarrow> bool"
  assumes create_at_end: "fs_create_temp dfs d (pre @ ''*'') w = (Inr f, w') \<Longrightarrow> at_end f w'"
    and write_appends: "owned f w \<Longrightarrow> at_end f w \<Longrightarrow> hd (obs w) (fl_name f) = Some c \<Longrightarrow>
        fl_write f b w = ((nw, e), w') \<Longrightarrow>
        at_end f w' \<and> nw \<le> length b \<and> hd (obs w') (fl_name f) = Some (c @ take nw b)"
begin

lemma write_chunk_appends:
  assumes ow: "owned f (cs_world s)" and ae: "at_end f (cs_world s)"
    and c: "hd (obs (cs_world s)) (fl_name f) = Some c"
    and r: "write_chunk f b n s = ((None, m), s')"
  shows "at_end f (cs_world s') \<and> hd (obs (cs_world s')) (fl_name f) = Some (c @ b) \<and>
    m = n + int (length b)"
proof -
  obtain nw e w1 where wr: "fl_write f b (cs_world s) = ((nw, e), w1)" by (metis prod.exhaust)
  from write_appends [OF ow ae c wr]
  have a: "at_end f w1" "nw \<le> length b" "hd (obs w1) (fl_name f) = Some (c @ take nw b)" by auto
  have "cs_world s' = w1" "\<not> nw < length b" "m = n + int nw"
    using r wr by (auto simp: write_chunk_def on_world_def progress_def Let_def split: if_splits)
  with a show ?thesis by auto
qed

lemma plain_loop_appends:
  "owned f (cs_world s) \<Longrightarrow> at_end f (cs_world s) \<Longrightarrow>
     hd (obs (cs_world s)) (fl_name f) = Some c \<Longrightarrow> plain_loop co f script n s = ((m, None), s') \<Longrightarrow>
     \<exists>d. (\<forall>acc. read_chunks script acc = Inr (acc @ d)) \<and>
       hd (obs (cs_world s')) (fl_name f) = Some (c @ d) \<and> m = n + int (length d)"
proof (induction script arbitrary: n s c)
  case Nil
  then show ?case by (auto simp: polled_def split: if_splits)
next
  case (Cons x rest)
  obtain b rerr where x: "x = (b, rerr)" by fastforce
  obtain werr k s1 where step: "(if b \<noteq> [] then write_chunk f b n (polled s) else ((None, n), polled s))
      = ((werr, k), s1)" by (metis prod.exhaust)
  have ok: "\<not> canceled co s" "werr = None"
    using Cons.prems(4) step x by (auto split: if_splits)
  have here: "owned f (cs_world s1) \<and> at_end f (cs_world s1) \<and>
      hd (obs (cs_world s1)) (fl_name f) = Some (c @ b) \<and> k = n + int (length b)"
  proof (cases "b = []")
    case True
    then show ?thesis using step Cons.prems ok by auto
  next
    case False
    then have wc: "write_chunk f b n (polled s) = ((None, k), s1)" using step ok by simp
    have "owned f (cs_world s1)"
      using touches_owned [OF write_chunk_touches, of f "polled s" b n] Cons.prems(1) wc by simp
    with write_chunk_appends [OF _ _ _ wc] Cons.prems show ?thesis by simp
  qed
  show ?case
  proof (cases "rerr = None")
    case True
    then have "plain_loop co f rest k s1 = ((m, None), s')"
      using Cons.prems(4) step x ok by simp
    from Cons.IH [OF _ _ _ this, of "c @ b"] here
    obtain d where "\<forall>acc. read_chunks rest acc = Inr (acc @ d)"
      "hd (obs (cs_world s')) (fl_name f) = Some ((c @ b) @ d)" "m = k + int (length d)" by auto
    then show ?thesis using x True here by (intro exI [of _ "b @ d"]) (simp add: Let_def)
  next
    case False
    then have "rerr = Some (Sentinel IoEOF)" "s' = s1" "m = k"
      using Cons.prems(4) step x ok by (auto split: if_splits)
    then show ?thesis using x here by (intro exI [of _ b]) (simp add: Let_def)
  qed
qed

lemma copyFile_streams:
  assumes cp: "copyFile en srcFS src dfs dst info co s = ((n, err), s')"
    and dst: "\<And>r. CHR ''/'' \<notin> set r \<Longrightarrow> dst \<noteq> fs_join dfs (fs_dir dfs dst) (''.basicopy-tmp-'' @ r)"
    and inp: "fs_open srcFS (cs_world s) src = Inr inp" and st: "\<not> rd_is_os inp"
    and ok: "\<not> data_failed err"
  shows "\<exists>d. read_chunks (rd_script inp (buf_size co)) [] = Inr d \<and> n = int (length d) \<and>
    hd (obs (cs_world s')) dst = Some d"
proof -
  let ?pat = "''.basicopy-tmp-'' @ ''*''"
  have nc: "\<not> canceled co s" using cp ok by (auto simp: copyFile_def data_failed_def)
  obtain t s1 where t: "on_world (fs_create_temp dfs (fs_dir dfs dst) ?pat) (polled s) = (t, s1)"
    by fastforce
  then have t': "fs_create_temp dfs (fs_dir dfs dst) ?pat (cs_world s) = (t, cs_world s1)"
    by (auto simp: on_world_def split: prod.splits)
  obtain f where f: "t = Inr f"
    using cp nc inp t ok by (cases t) (auto simp: copyFile_def Let_def data_failed_def)
  have c0: "owned f (cs_world s1)"
    "obs (cs_world s1) = (hd (obs (cs_world s)))(fl_name f := Some []) # obs (cs_world s)"
    "\<exists>r. CHR ''/'' \<notin> set r \<and> fl_name f = fs_join dfs (fs_dir dfs dst) (''.basicopy-tmp-'' @ r)"
    using create_ok t' f by blast+
  then have c: "owned f (cs_world s1)" "hd (obs (cs_world s1)) (fl_name f) = Some []"
    "\<exists>r. CHR ''/'' \<notin> set r \<and> fl_name f = fs_join dfs (fs_dir dfs dst) (''.basicopy-tmp-'' @ r)"
    by simp_all
  have ae: "at_end f (cs_world s1)" using create_at_end t' f by blast
  have ne: "dst \<noteq> fl_name f" using c(3) dst by metis
  obtain n1 e1 s2 where cc: "plainCopy f inp co s1 = ((n1, e1), s2)" by (metis prod.exhaust)
  have e1: "e1 = None" using cp nc inp t f cc st ok
    by (cases e1) (auto simp: copyFile_def copyContents_def Let_def)
  have ow2: "owned f (cs_world s2)" using touches_owned [OF plainCopy_touches [OF c(1)]] cc by (metis snd_conv)
  obtain d where d: "read_chunks (rd_script inp (buf_size co)) [] = Inr d"
    "hd (obs (cs_world s2)) (fl_name f) = Some d" "n1 = int (length d)"
    using plain_loop_appends [OF c(1) ae c(2)] cc e1 by (fastforce simp: plainCopy_def)
  have "on_world (finish_temp en srcFS src dfs f dst info co n1) s2 = ((n, err), s')"
    using cp nc inp t f cc e1 st by (auto simp: copyFile_def copyContents_def Let_def)
  then have fin: "finish_temp en srcFS src dfs f dst info co n1 (cs_world s2) = ((n, err), cs_world s')"
    by (auto simp: on_world_def split: prod.splits)
  have "n = n1" using fin by (auto simp: finish_temp_def publish_def Let_def split: prod.splits if_splits option.splits)
  moreover have "hd (obs (cs_world s')) dst = Some d"
    using finish_temp_published [OF ow2 ne fin] ok d(2) by (simp add: published_def)
  ultimately show ?thesis using d by auto
qed

end

text \<open>Writes at an offset beyond the end: the gap reads as zeros.\<close>

definition padded :: "nat \<Rightarrow> bytes \<Rightarrow> bytes" where
  "padded n c = c @ replicate (n - length c) 0"

lemma padded_padded: "m \<le> n \<Longrightarrow> length c \<le> m \<Longrightarrow> padded n c = padded m c @ replicate (n - m) 0"
  by (simp add: padded_def replicate_add [symmetric])

lemma length_padded: "length c \<le> n \<Longrightarrow> length (padded n c) = n"
  by (simp add: padded_def)

lemma padded_id: "length c = n \<Longrightarrow> padded n c = c"
  by (simp add: padded_def)

lemma all_zero_replicate: "all_zero b \<Longrightarrow> b = replicate (length b) 0"
  by (simp add: all_zero_def list_all_iff replicate_length_same)

lemma take_slice: "i \<le> j \<Longrightarrow> take j xs = take i xs @ slice i j xs"
  by (simp add: slice_def take_add [symmetric])

locale sparse_fs = publish_fs dfs en obs owned
  for dfs :: "'w fs" and en :: "'w env" and obs :: "'w \<Rightarrow> contents list"
    and owned :: "'w gofile \<Rightarrow> 'w \<Rightarrow> bool" +
  assumes write_at_puts: "owned f w \<Longrightarrow> hd (obs w) (fl_name f) = Some c \<Longrightarrow> length c \<le> k \<Longrightarrow>
        fl_write_at f b (int k) w = (None, w') \<Longrightarrow> hd (obs w') (fl_name f) = Some (padded k c @ b)"
    and truncate_sets: "owned f w \<Longrightarrow> hd (obs w) (fl_name f) = Some c \<Longrightarrow> length c \<le> k \<Longrightarrow>
        fl_truncate f (int k) w = (None, w') \<Longrightarrow> hd (obs w') (fl_name f) = Some (padded k c)"
begin

text \<open>What the loop of \<open>writeNonZero\<close> keeps: the file holds the bytes before the open run, up to the
  zeros it has not written.\<close>

definition wnz_inv :: "'w gofile \<Rightarrow> bytes \<Rightarrow> bytes \<Rightarrow> nat \<Rightarrow> 'w \<Rightarrow> bool" where
  "wnz_inv f pre p k w \<longleftrightarrow> owned f w \<and>
     (\<exists>c. hd (obs w) (fl_name f) = Some c \<and> length c \<le> length pre + min k (length p) \<and>
        padded (length pre + min k (length p)) c = pre @ take k p)"

lemma wnz_inv_write:
  assumes inv: "wnz_inv f pre p r w" and r: "r \<le> length p" "r \<le> k"
    and wr: "fl_write_at f (slice r k p) (int (length pre) + int r) w = (None, w')"
  shows "wnz_inv f pre p k w'"
proof -
  obtain c where c: "owned f w" "hd (obs w) (fl_name f) = Some c" "length c \<le> length pre + r"
    "padded (length pre + r) c = pre @ take r p"
    using inv r(1) by (auto simp: wnz_inv_def)
  have "owned f w'" using touches_owned [OF write_at [OF c(1)]] wr by (metis snd_conv)
  moreover have "hd (obs w') (fl_name f) = Some (pre @ take k p)"
    using write_at_puts [OF c(1-3), of "slice r k p" w'] wr c(4) take_slice [OF r(2), of p] by simp
  ultimately show ?thesis by (simp add: wnz_inv_def padded_id)
qed

lemma wnz_inv_zero:
  assumes inv: "wnz_inv f pre p i w" and i: "i < length p" and z: "wnz_zero p i"
  shows "wnz_inv f pre p (i + sparseBlock) w"
proof -
  let ?e = "min (i + sparseBlock) (length p)"
  obtain c where c: "owned f w" "hd (obs w) (fl_name f) = Some c" "length c \<le> length pre + i"
    "padded (length pre + i) c = pre @ take i p"
    using inv i by (auto simp: wnz_inv_def)
  have ie: "i \<le> ?e" using i by simp
  have "slice i ?e p = replicate (?e - i) 0"
    using all_zero_replicate [of "slice i ?e p"] z i by (simp add: wnz_zero_def slice_def)
  then have "take ?e p = take i p @ replicate (?e - i) 0" using take_slice [OF ie, of p] by simp
  moreover have "padded (length pre + ?e) c = padded (length pre + i) c @ replicate (?e - i) 0"
    using padded_padded [of "length pre + i" "length pre + ?e" c] ie c(3) by simp
  moreover have "take (i + sparseBlock) p = take ?e p" by (simp add: min_def)
  ultimately show ?thesis using c ie unfolding wnz_inv_def by auto
qed

lemma wnz_loop_writes:
  "(case run of None \<Rightarrow> wnz_inv f pre p i w | Some r \<Rightarrow> r \<le> i \<and> r < length p \<and> wnz_inv f pre p r w) \<Longrightarrow>
     wnz_loop f p (int (length pre)) i run w = (None, w') \<Longrightarrow> wnz_inv f pre p (length p) w'"
proof (induction i run w rule: wnz_induct [of p])
  case (fin i run w)
  show ?case
  proof (cases run)
    case None
    then show ?thesis using fin by (auto simp: wnz_loop_end wnz_inv_def)
  next
    case (Some r)
    have "drop r p = slice r (length p) p" by (simp add: slice_def)
    then show ?thesis using fin Some wnz_inv_write [of f pre p r w "length p" w']
      by (simp add: wnz_loop_end)
  qed
next
  case (step i run w)
  show ?case
  proof (cases "wnz_run p i run")
    case None
    then have "run = None" "wnz_zero p i" by (auto simp: wnz_run_def split: if_splits)
    then show ?thesis
      using step(1,3,4) None wnz_inv_zero [of f pre p i w] step(2) [where run = None and w = w] by (simp add: wnz_loop_step)
  next
    case (Some r)
    have r: "r \<le> i" "r < length p" "wnz_inv f pre p r w"
      using step(1,3) Some by (auto simp: wnz_run_def split: if_splits option.splits)
    show ?thesis
    proof (cases "wnz_zero p i")
      case False
      then show ?thesis using step(2) [where run = "Some r" and w = w] step(1,4) Some r by (simp add: wnz_loop_step)
    next
      case True
      obtain e w1 where wr: "fl_write_at f (slice r i p) (int (length pre) + int r) w = (e, w1)" by fastforce
      then have e: "e = None" "wnz_loop f p (int (length pre)) (i + sparseBlock) None w1 = (None, w')"
        using step(1,4) Some True by (auto simp: wnz_loop_step split: if_splits)
      have "wnz_inv f pre p i w1" using wnz_inv_write [OF r(3) _ r(1)] r(2) wr e(1) by simp
      from wnz_inv_zero [OF this step(1) True] step(2) [where run = None and w = w1] e(2) show ?thesis by simp
    qed
  qed
qed

lemma writeNonZero_writes:
  assumes "owned f w" and "hd (obs w) (fl_name f) = Some c" and "length c \<le> length pre"
    and "padded (length pre) c = pre" and "writeNonZero f p (int (length pre)) w = (None, w')"
  shows "owned f w' \<and> (\<exists>c. hd (obs w') (fl_name f) = Some c \<and> length c \<le> length (pre @ p) \<and>
    padded (length (pre @ p)) c = pre @ p)"
proof -
  have "wnz_inv f pre p 0 w" using assms by (simp add: wnz_inv_def)
  then have "wnz_inv f pre p (length p) w'"
    using wnz_loop_writes [where run = None and i = 0 and f = f and pre = pre and p = p and w = w] assms(5) by (simp add: writeNonZero_def)
  then show ?thesis by (simp add: wnz_inv_def)
qed

lemma sparse_loop_writes:
  "owned f (cs_world s) \<Longrightarrow> hd (obs (cs_world s)) (fl_name f) = Some c \<Longrightarrow> length c \<le> length pre \<Longrightarrow>
     padded (length pre) c = pre \<Longrightarrow> sparse_loop co f script (int (length pre)) s = ((m, None), s') \<Longrightarrow>
     \<exists>d. (\<forall>acc. read_chunks script acc = Inr (acc @ d)) \<and> m = int (length (pre @ d)) \<and>
       owned f (cs_world s') \<and>
       (\<exists>c. hd (obs (cs_world s')) (fl_name f) = Some c \<and> length c \<le> length (pre @ d) \<and>
          padded (length (pre @ d)) c = pre @ d)"
proof (induction script arbitrary: pre s c)
  case Nil
  then show ?case by (auto simp: polled_def split: if_splits)
next
  case (Cons x rest)
  obtain b rerr where x: "x = (b, rerr)" by fastforce
  obtain werr s1 where st: "(if b \<noteq> [] then on_world (writeNonZero f b (int (length pre))) (polled s)
      else (None, polled s)) = (werr, s1)" by (metis prod.exhaust)
  let ?s2 = "if b \<noteq> [] then progress (int (length b)) s1 else s1"
  have ok: "\<not> canceled co s" "werr = None"
    using Cons.prems(5) st x by (auto simp: Let_def split: if_splits)
  have here: "owned f (cs_world ?s2) \<and> (\<exists>c. hd (obs (cs_world ?s2)) (fl_name f) = Some c \<and>
      length c \<le> length (pre @ b) \<and> padded (length (pre @ b)) c = pre @ b)"
  proof (cases "b = []")
    case True
    then show ?thesis using st Cons.prems by auto
  next
    case False
    then have "writeNonZero f b (int (length pre)) (cs_world s) = (None, cs_world s1)"
      using st ok(2) by (auto simp: on_world_def split: prod.splits)
    from writeNonZero_writes [OF Cons.prems(1-4) this] False show ?thesis by simp
  qed
  show ?case
  proof (cases "rerr = None")
    case True
    then have "sparse_loop co f rest (int (length (pre @ b))) ?s2 = ((m, None), s')"
      using Cons.prems(5) st x ok by (auto simp: Let_def split: if_splits)
    from here Cons.IH [OF _ _ _ _ this]
    obtain d where "\<forall>acc. read_chunks rest acc = Inr (acc @ d)" "m = int (length ((pre @ b) @ d))"
      "owned f (cs_world s')" "\<exists>c. hd (obs (cs_world s')) (fl_name f) = Some c \<and>
        length c \<le> length ((pre @ b) @ d) \<and> padded (length ((pre @ b) @ d)) c = (pre @ b) @ d" by blast
    then show ?thesis using x True by (intro exI [of _ "b @ d"]) (simp add: Let_def)
  next
    case False
    then have "rerr = Some (Sentinel IoEOF)" "s' = ?s2" "m = int (length (pre @ b))"
      using Cons.prems(5) st x ok by (auto simp: Let_def split: if_splits)
    then show ?thesis using x here by (intro exI [of _ b]) (simp add: Let_def)
  qed
qed

lemma copySparse_exact:
  assumes "owned f (cs_world s)" and "hd (obs (cs_world s)) (fl_name f) = Some []"
    and cp: "copySparse f src co s = ((n, None), s')"
  shows "\<exists>d. read_chunks (rd_script src (buf_size co)) [] = Inr d \<and> n = int (length d) \<and>
    hd (obs (cs_world s')) (fl_name f) = Some d"
proof -
  obtain off err s1 where l: "sparse_loop co f (rd_script src (buf_size co)) 0 s = ((off, err), s1)"
    by (metis prod.exhaust)
  obtain te s2 where t: "on_world (fl_truncate f off) s1 = (te, s2)" by fastforce
  have ok: "err = None" "te = None" "n = off" "s' = s2"
    using cp l t by (auto simp: copySparse_def split: if_splits)
  obtain d c where d: "\<forall>acc. read_chunks (rd_script src (buf_size co)) acc = Inr (acc @ d)"
    "off = int (length d)" "owned f (cs_world s1)" "hd (obs (cs_world s1)) (fl_name f) = Some c"
    "length c \<le> length d" "padded (length d) c = d"
    using sparse_loop_writes [of f s "[]" "[]" co "rd_script src (buf_size co)" off s1] assms(1,2) l ok(1)
    by (auto simp: padded_def)
  have "fl_truncate f (int (length d)) (cs_world s1) = (None, cs_world s')"
    using t ok d(2) by (auto simp: on_world_def split: prod.splits)
  from truncate_sets [OF d(3-5) this] d ok show ?thesis by simp
qed

end

end
