(* ===== verification/MemFs.thy ===== *)
theory MemFs
  imports Publish "HOL-Library.AList"
begin

text \<open>
  An operating system held in memory: names bound to inodes, with the contents of every past instant
  kept in \<open>mm_log\<close>. It is the concrete instance of package \<open>os\<close> on which the contracts of the
  development hold and on which the properties are evaluated; no property is stated about it alone.
\<close>

datatype ikind = IReg bytes | IDir | ILnk string

record inode =
  in_kind :: ikind
  in_perm :: filemode
  in_uid :: int
  in_gid :: int
  in_mtime :: int
  in_off :: nat

record mem =
  mm_names :: "(string \<times> nat) list"
  mm_inode :: "nat \<Rightarrow> inode"
  mm_log :: "contents list"

definition mem_lookup :: "mem \<Rightarrow> string \<Rightarrow> inode option" where
  "mem_lookup w p = map_option (mm_inode w) (map_of (mm_names w) p)"

definition kind_data :: "inode \<Rightarrow> bytes option" where
  "kind_data n = (case in_kind n of IReg b \<Rightarrow> Some b | _ \<Rightarrow> None)"

definition file_map :: "mem \<Rightarrow> contents" where
  "file_map w = (\<lambda>p. Option.bind (mem_lookup w p) kind_data)"

definition mem_obs :: "mem \<Rightarrow> contents list" where
  "mem_obs w = file_map w # mm_log w"

definition logged :: "mem \<Rightarrow> mem" where
  "logged w = w\<lparr>mm_log := file_map w # mm_log w\<rparr>"

definition fresh_ino :: "mem \<Rightarrow> nat" where
  "fresh_ino w = Suc (foldr (\<lambda>(p, i) m. max i m) (mm_names w) 0)"

definition set_inode :: "nat \<Rightarrow> (inode \<Rightarrow> inode) \<Rightarrow> mem \<Rightarrow> mem" where
  "set_inode i g w = (logged w)\<lparr>mm_inode := (mm_inode w)(i := g (mm_inode w i))\<rparr>"

definition new_name :: "string \<Rightarrow> inode \<Rightarrow> mem \<Rightarrow> mem" where
  "new_name p n w = (logged w)\<lparr>mm_names := (p, fresh_ino w) # mm_names w,
     mm_inode := (mm_inode w)(fresh_ino w := n)\<rparr>"

definition drop_name :: "string \<Rightarrow> mem \<Rightarrow> mem" where
  "drop_name p w = (logged w)\<lparr>mm_names := AList.delete p (mm_names w)\<rparr>"

subsection \<open>Reading\<close>

definition type_bits :: "ikind \<Rightarrow> filemode" where
  "type_bits k = (case k of IReg _ \<Rightarrow> 0 | IDir \<Rightarrow> mode_dir | ILnk _ \<Rightarrow> mode_symlink)"

definition kind_size :: "ikind \<Rightarrow> int" where
  "kind_size k = (case k of IReg b \<Rightarrow> int (length b) | IDir \<Rightarrow> 4096 | ILnk t \<Rightarrow> int (length t))"

definition mem_info :: "mem \<Rightarrow> string \<Rightarrow> nat \<Rightarrow> file_info" where
  "mem_info w p i =
     (let n = mm_inode w i in
      \<lparr>fi_name = path_base p, fi_size = kind_size (in_kind n),
       fi_mode = in_perm n OR type_bits (in_kind n), fi_mtime = in_mtime n,
       fi_sys = SysStat \<lparr>st_uid = in_uid n, st_gid = in_gid n, st_dev = 1, st_ino = i,
         st_nlink = length (filter (\<lambda>(q, j). j = i) (mm_names w)),
         st_blocks = (kind_size (in_kind n) + 511) div 512\<rparr>\<rparr>)"

definition mem_lstat :: "mem \<Rightarrow> string \<Rightarrow> goerr + file_info" where
  "mem_lstat w p =
     (case map_of (mm_names w) p of
        None \<Rightarrow> Inl (PathErr ''lstat'' p (Errno ENOENT))
      | Some i \<Rightarrow> Inr (mem_info w p i))"

fun mem_follow :: "nat \<Rightarrow> mem \<Rightarrow> string \<Rightarrow> goerr + string" where
  "mem_follow 0 w p = Inl (PathErr ''stat'' p (Errno ELOOP))"
| "mem_follow (Suc k) w p =
     (case mem_lookup w p of
        None \<Rightarrow> Inl (PathErr ''stat'' p (Errno ENOENT))
      | Some n \<Rightarrow>
          (case in_kind n of
             ILnk t \<Rightarrow> mem_follow k w (if path_is_abs t then path_clean t else path_join [path_dir p, t])
           | _ \<Rightarrow> Inr p))"

definition mem_stat :: "mem \<Rightarrow> string \<Rightarrow> goerr + file_info" where
  "mem_stat w p =
     (case mem_follow 40 w p of
        Inl e \<Rightarrow> Inl e
      | Inr q \<Rightarrow> map_sum id (\<lambda>fi. fi\<lparr>fi_name := path_base p\<rparr>) (mem_lstat w q))"

definition mem_read_dir :: "mem \<Rightarrow> string \<Rightarrow> goerr + (goerr + file_info) list" where
  "mem_read_dir w p =
     (case mem_lookup w p of
        None \<Rightarrow> Inl (PathErr ''open'' p (Errno ENOENT))
      | Some n \<Rightarrow>
          if in_kind n \<noteq> IDir then Inl (PathErr ''readdirent'' p (Errno ENOTDIR))
          else Inr (map (\<lambda>(q, i). Inr (mem_info w q i))
                 (filter (\<lambda>(q, i). path_dir q = p \<and> q \<noteq> p) (mm_names w))))"

definition mem_readlink :: "mem \<Rightarrow> string \<Rightarrow> goerr + string" where
  "mem_readlink w p =
     (case mem_lookup w p of
        Some n \<Rightarrow> (case in_kind n of ILnk t \<Rightarrow> Inr t | _ \<Rightarrow> Inl (PathErr ''readlink'' p (Errno EINVAL)))
      | None \<Rightarrow> Inl (PathErr ''readlink'' p (Errno ENOENT)))"

fun chunks :: "nat \<Rightarrow> nat \<Rightarrow> bytes \<Rightarrow> bytes list" where
  "chunks 0 n b = []"
| "chunks (Suc k) n b = (if b = [] then [] else take n b # chunks k n (drop n b))"

definition mem_reader :: "bytes \<Rightarrow> reader" where
  "mem_reader b =
     \<lparr>rd_is_os = True,
      rd_script = (\<lambda>n. map (\<lambda>c. (c, None)) (chunks (length b) (max 1 n) b)),
      rd_at = (\<lambda>off n. let c = take n (drop (nat off) b) in
                 (c, if length c < n then Some (Sentinel IoEOF) else None))\<rparr>"

definition mem_open :: "mem \<Rightarrow> string \<Rightarrow> goerr + reader" where
  "mem_open w p =
     (case mem_follow 40 w p of
        Inl e \<Rightarrow> Inl e
      | Inr q \<Rightarrow>
          (case file_map w q of
             None \<Rightarrow> Inl (PathErr ''open'' p (Errno EISDIR))
           | Some b \<Rightarrow> Inr (mem_reader b)))"

subsection \<open>Writing\<close>

text \<open>Overwriting from an offset, the gap filled with zeros.\<close>

definition put_bytes :: "nat \<Rightarrow> bytes \<Rightarrow> bytes \<Rightarrow> bytes" where
  "put_bytes off b d = take off d @ replicate (off - length d) 0 @ b @ drop (off + length b) d"

definition on_data :: "(bytes \<Rightarrow> bytes) \<Rightarrow> inode \<Rightarrow> inode" where
  "on_data g n = (case in_kind n of IReg d \<Rightarrow> n\<lparr>in_kind := IReg (g d)\<rparr> | _ \<Rightarrow> n)"

definition resize :: "nat \<Rightarrow> bytes \<Rightarrow> bytes" where
  "resize k d = take k d @ replicate (k - length d) 0"

definition mem_file :: "string \<Rightarrow> nat \<Rightarrow> mem gofile" where
  "mem_file p i =
     \<lparr>fl_is_os = True, fl_name = p,
      fl_write = (\<lambda>b w. ((length b, None),
         set_inode i (\<lambda>n. (on_data (put_bytes (in_off n) b) n)\<lparr>in_off := in_off n + length b\<rparr>) w)),
      fl_write_at = (\<lambda>b off w. (None, set_inode i (on_data (put_bytes (nat off) b)) w)),
      fl_truncate = (\<lambda>k w. (None, set_inode i (on_data (resize (nat k))) w)),
      fl_sync = (\<lambda>w. (None, w)),
      fl_chmod = (\<lambda>m w. (None, set_inode i (\<lambda>n. n\<lparr>in_perm := m\<rparr>) w)),
      fl_close = (\<lambda>w. (None, w))\<rparr>"

definition new_inode :: "ikind \<Rightarrow> filemode \<Rightarrow> inode" where
  "new_inode k m = \<lparr>in_kind = k, in_perm = m, in_uid = 0, in_gid = 0, in_mtime = 0, in_off = 0\<rparr>"

definition mem_create_temp :: "string \<Rightarrow> string \<Rightarrow> mem \<Rightarrow> (goerr + mem gofile) \<times> mem" where
  "mem_create_temp d pat w =
     (let p = path_join [d, butlast pat @ show_nat (fresh_ino w)] in
      if map_of (mm_names w) p \<noteq> None then (Inl (PathErr ''createtemp'' p (Errno EEXIST)), w)
      else (Inr (mem_file p (fresh_ino w)), new_name p (new_inode (IReg []) 0x180) w))"

definition mem_attr :: "(inode \<Rightarrow> inode) \<Rightarrow> string \<Rightarrow> mem \<Rightarrow> goerr option \<times> mem" where
  "mem_attr g p w =
     (case map_of (mm_names w) p of
        None \<Rightarrow> (Some (PathErr ''chattr'' p (Errno ENOENT)), w)
      | Some i \<Rightarrow> (None, set_inode i g w))"

definition mem_make :: "string \<Rightarrow> inode \<Rightarrow> mem \<Rightarrow> goerr option \<times> mem" where
  "mem_make p n w =
     (if map_of (mm_names w) p \<noteq> None then (Some (PathErr ''create'' p (Errno EEXIST)), w)
      else (None, new_name p n w))"

definition mem_link :: "string \<Rightarrow> string \<Rightarrow> mem \<Rightarrow> goerr option \<times> mem" where
  "mem_link old new w =
     (case map_of (mm_names w) old of
        None \<Rightarrow> (Some (PathErr ''link'' old (Errno ENOENT)), w)
      | Some i \<Rightarrow>
          if map_of (mm_names w) new \<noteq> None then (Some (PathErr ''link'' new (Errno EEXIST)), w)
          else (None, (logged w)\<lparr>mm_names := (new, i) # mm_names w\<rparr>))"

definition has_children :: "mem \<Rightarrow> string \<Rightarrow> bool" where
  "has_children w p = list_ex (\<lambda>(q, i). path_dir q = p \<and> q \<noteq> p) (mm_names w)"

definition mem_remove :: "string \<Rightarrow> mem \<Rightarrow> goerr option \<times> mem" where
  "mem_remove p w =
     (case map_of (mm_names w) p of
        None \<Rightarrow> (Some (PathErr ''remove'' p (Errno ENOENT)), w)
      | Some i \<Rightarrow>
          if in_kind (mm_inode w i) = IDir \<and> has_children w p
          then (Some (PathErr ''remove'' p (Errno ENOTEMPTY)), w)
          else (None, drop_name p w))"

definition mem_remove_all :: "string \<Rightarrow> mem \<Rightarrow> goerr option \<times> mem" where
  "mem_remove_all p w =
     (None, (logged w)\<lparr>mm_names := filter (\<lambda>(q, i). q \<noteq> p \<and> \<not> has_prefix q (p @ ''/'')) (mm_names w)\<rparr>)"

definition move_prefix :: "string \<Rightarrow> string \<Rightarrow> string \<Rightarrow> string" where
  "move_prefix p q x = (if has_prefix x (p @ ''/'') then q @ drop (length p) x else x)"

definition mem_rename :: "string \<Rightarrow> string \<Rightarrow> mem \<Rightarrow> goerr option \<times> mem" where
  "mem_rename p q w =
     (case map_of (mm_names w) p of
        None \<Rightarrow> (Some (PathErr ''rename'' p (Errno ENOENT)), w)
      | Some i \<Rightarrow>
          if in_kind (mm_inode w i) = IDir
          then
            (if map_of (mm_names w) q \<noteq> None then (Some (PathErr ''rename'' q (Errno EEXIST)), w)
             else (None, (logged w)\<lparr>mm_names :=
               map (\<lambda>(x, j). (if x = p then q else move_prefix p q x, j)) (mm_names w)\<rparr>))
          else
            (case map_of (mm_names w) q of
               Some j \<Rightarrow>
                 (if in_kind (mm_inode w j) = IDir then (Some (PathErr ''rename'' q (Errno EISDIR)), w)
                  else if j = i then (None, logged w)
                  else (None, (logged w)\<lparr>mm_names := (q, i) # AList.delete q (AList.delete p (mm_names w))\<rparr>))
             | None \<Rightarrow> (None, (logged w)\<lparr>mm_names := (q, i) # AList.delete p (mm_names w)\<rparr>)))"

definition mem_os :: "mem os" where
  "mem_os =
     \<lparr>os_getwd = ''/'',
      os_lstat = mem_lstat, os_stat = mem_stat, os_read_dir = mem_read_dir, os_readlink = mem_readlink,
      os_symlink = (\<lambda>t p. mem_make p (new_inode (ILnk t) 0x1FF)), os_link = mem_link,
      os_mkdir = (\<lambda>p m. mem_make p (new_inode IDir m)),
      os_mkdir_all = (\<lambda>p m w. if map_of (mm_names w) p \<noteq> None then (None, w) else mem_make p (new_inode IDir m) w),
      os_remove = mem_remove, os_remove_all = mem_remove_all, os_rename = mem_rename,
      os_chmod = (\<lambda>p m. mem_attr (\<lambda>n. n\<lparr>in_perm := m\<rparr>) p),
      os_lchown = (\<lambda>p u g. mem_attr (\<lambda>n. n\<lparr>in_uid := u, in_gid := g\<rparr>) p),
      os_chtimes = (\<lambda>p a m. mem_attr (\<lambda>n. n\<lparr>in_mtime := m\<rparr>) p),
      os_open = mem_open, os_create_temp = mem_create_temp,
      os_statfs = (\<lambda>w p. Some (1000, 4096))\<rparr>"

abbreviation mem_fs :: "mem fs" where
  "mem_fs \<equiv> local_fs mem_os"

text \<open>A kernel with no fast path and no extended attributes.\<close>

definition plain_kernel :: "'w kernel" where
  "plain_kernel =
     \<lparr>kn_ficlone = (\<lambda>f r w. (Some (Errno EOPNOTSUPP), w)),
      kn_copy_range = (\<lambda>f r n w. (Inl ENOSYS, w)),
      kn_dedup = (\<lambda>f r n co s. ((0, False, None), s)),
      kn_kill = (\<lambda>w. w), kn_commit = (\<lambda>p w. w),
      kn_xattr_list = (\<lambda>w p d nf. Inl (Errno EOPNOTSUPP)),
      kn_xattr_get = (\<lambda>w p n d nf. Inl (Errno EOPNOTSUPP)),
      kn_xattr_set = (\<lambda>p n v nf w. (Some (Errno EOPNOTSUPP), w))\<rparr>"

definition plain_env :: "'w env" where
  "plain_env = \<lparr>en_kernel = plain_kernel, en_report = (\<lambda>p n e w. w)\<rparr>"

definition mem_owned :: "mem gofile \<Rightarrow> mem \<Rightarrow> bool" where
  "mem_owned f w \<longleftrightarrow>
     (\<exists>p i d. f = mem_file p i \<and> map_of (mm_names w) p = Some i \<and>
        (\<forall>q. map_of (mm_names w) q = Some i \<longrightarrow> q = p) \<and> in_kind (mm_inode w i) = IReg d)"


subsection \<open>The contracts of publication hold of it\<close>

lemma file_map_at: "file_map w p =
    (case map_of (mm_names w) p of None \<Rightarrow> None | Some i \<Rightarrow> kind_data (mm_inode w i))"
  by (simp add: file_map_def mem_lookup_def split: option.split)

lemma logged_simps [simp]: "mm_names (logged w) = mm_names w" "mm_inode (logged w) = mm_inode w"
  "file_map (logged w) = file_map w" "mem_obs (logged w) = file_map w # mem_obs w"
  by (auto simp: logged_def mem_obs_def file_map_at fun_eq_iff split: option.split)

lemma hd_mem_obs [simp]: "hd (mem_obs w) = file_map w"
  by (simp add: mem_obs_def)

lemma set_inode_simps [simp]: "mm_names (set_inode i g w) = mm_names w"
  "mm_inode (set_inode i g w) = (mm_inode w)(i := g (mm_inode w i))"
  by (simp_all add: set_inode_def)

lemma mem_obs_set: "mem_obs (set_inode i g w) = file_map (set_inode i g w) # mem_obs w"
  by (simp add: mem_obs_def set_inode_def logged_def)

lemma fresh_above: "(p, i) \<in> set xs \<Longrightarrow> i \<le> foldr (\<lambda>(p, i) m. max i m) xs (0::nat)"
  by (induction xs) auto

lemma fresh_not_bound: "map_of (mm_names w) p \<noteq> Some (fresh_ino w)"
  using fresh_above [of p "fresh_ino w" "mm_names w"] map_of_SomeD [of "mm_names w" p "fresh_ino w"]
  by (auto simp: fresh_ino_def)

lemma ownedE:
  assumes "mem_owned f w"
  obtains p i d where "f = mem_file p i" "map_of (mm_names w) p = Some i"
    "\<And>q. map_of (mm_names w) q = Some i \<Longrightarrow> q = p" "in_kind (mm_inode w i) = IReg d"
  using assms unfolding mem_owned_def by blast

text \<open>A change of an inode that keeps its kind.\<close>

lemma set_inode_quiet:
  assumes "\<And>n. in_kind (g n) = in_kind n"
  shows "quiet mem_obs mem_owned w (set_inode i g w)"
proof -
  have "file_map (set_inode i g w) = file_map w"
    using assms by (auto simp: file_map_at fun_eq_iff kind_data_def split: option.split)
  then have "\<exists>ms. mem_obs (set_inode i g w) = ms @ mem_obs w \<and> (\<forall>m \<in> set ms. m = hd (mem_obs w))"
    by (intro exI [of _ "[file_map w]"]) (simp add: mem_obs_set)
  moreover have "mem_owned f (set_inode i g w)" if o: "mem_owned f w" for f
    using o
  proof (rule ownedE)
    fix p j d
    assume h: "f = mem_file p j" "map_of (mm_names w) p = Some j"
      "\<And>q. map_of (mm_names w) q = Some j \<Longrightarrow> q = p" "in_kind (mm_inode w j) = IReg d"
    have "in_kind (mm_inode (set_inode i g w) j) = IReg d" using h(4) assms by auto
    then show ?thesis using h(1,2) h(3) unfolding mem_owned_def set_inode_simps(1) by blast
  qed
  ultimately show ?thesis by (simp add: quiet_def)
qed

text \<open>A change of the owned inode's bytes.\<close>

lemma set_inode_touches:
  assumes "mem_owned (mem_file p i) w" and "\<And>n d. in_kind n = IReg d \<Longrightarrow> \<exists>d'. in_kind (g n) = IReg d'"
  shows "touches mem_obs mem_owned (mem_file p i) w (set_inode i g w)"
proof -
  obtain d where h: "map_of (mm_names w) p = Some i" "\<And>q. map_of (mm_names w) q = Some i \<Longrightarrow> q = p"
    "in_kind (mm_inode w i) = IReg d"
    using assms(1)
  proof (rule ownedE)
    fix p' i' d
    assume a: "mem_file p i = mem_file p' i'" "map_of (mm_names w) p' = Some i'"
      "\<And>q. map_of (mm_names w) q = Some i' \<Longrightarrow> q = p'" "in_kind (mm_inode w i') = IReg d"
      and that: "\<And>d. map_of (mm_names w) p = Some i \<Longrightarrow> (\<And>q. map_of (mm_names w) q = Some i \<Longrightarrow> q = p) \<Longrightarrow>
         in_kind (mm_inode w i) = IReg d \<Longrightarrow> thesis"
    have np: "fl_name (mem_file p i) = fl_name (mem_file p' i')"
      and tr: "snd (fl_chmod (mem_file p i) 0 w0) = snd (fl_chmod (mem_file p' i') 0 w0)" for w0
      using a(1) by simp_all
    have "p = p'" using np by (simp add: mem_file_def)
    moreover have "i = i'"
    proof (rule ccontr)
      assume "i \<noteq> i'"
      let ?w0 = "w\<lparr>mm_inode := \<lambda>_. new_inode IDir 1\<rparr>"
      have "mm_inode (snd (fl_chmod (mem_file p i) 0 ?w0)) i' = mm_inode (snd (fl_chmod (mem_file p' i') 0 ?w0)) i'"
        using tr by metis
      with \<open>i \<noteq> i'\<close> show False by (simp add: mem_file_def new_inode_def)
    qed
    ultimately show thesis using a that by blast
  qed
  obtain d' where d': "in_kind (g (mm_inode w i)) = IReg d'" using assms(2) h(3) by blast
  have "file_map (set_inode i g w) q = file_map w q" if "q \<noteq> p" for q
    using that h(2) [of q] by (auto simp: file_map_at split: option.split)
  then have "(file_map (set_inode i g w))(p := None) = (file_map w)(p := None)" by auto
  then have "alters mem_obs (mem_file p i) w (set_inode i g w)"
    unfolding alters_def
    by (intro exI [of _ "[file_map (set_inode i g w)]"]) (simp add: mem_obs_set mem_file_def)
  moreover have "in_kind (mm_inode (set_inode i g w) i) = IReg d'" using d' by simp
  then have "mem_owned (mem_file p i) (set_inode i g w)"
    using h(1) h(2) unfolding mem_owned_def set_inode_simps(1) by blast
  ultimately show ?thesis by (simp add: touches_def)
qed


lemma file_map_delete: "file_map (w\<lparr>mm_names := AList.delete p xs\<rparr>) = (file_map (w\<lparr>mm_names := xs\<rparr>))(p := None)"
  by (auto simp: file_map_at delete_conv' fun_eq_iff split: option.split)

lemma map_of_owned_other:
  "map_of xs p = Some i \<Longrightarrow> (\<And>q. map_of xs q = Some i \<Longrightarrow> q = p) \<Longrightarrow> q \<noteq> p \<Longrightarrow> map_of xs q \<noteq> Some i"
  by blast

lemma mem_create_law:
  assumes c: "fs_create_temp mem_fs d (pre @ ''*'') w = (Inr f, w')"
  shows "hd (mem_obs w) (fl_name f) = None \<and> mem_owned f w' \<and>
    mem_obs w' = (hd (mem_obs w))(fl_name f := Some []) # mem_obs w \<and>
    (\<exists>r. CHR ''/'' \<notin> set r \<and> fl_name f = fs_join mem_fs d (pre @ r))"
proof -
  let ?i = "fresh_ino w" let ?r = "show_nat ?i" let ?p = "path_join [d, pre @ ?r]"
  let ?n = "new_inode (IReg []) 0x180"
  have c': "mem_create_temp d (pre @ ''*'') w = (Inr f, w')"
    using c by (simp add: local_fs_def mem_os_def)
  have h: "map_of (mm_names w) ?p = None" "f = mem_file ?p ?i" "w' = new_name ?p ?n w"
    using c' by (auto simp: mem_create_temp_def Let_def butlast_append split: if_splits)
  have other: "map_of (mm_names w) q \<noteq> Some ?i" for q by (rule fresh_not_bound)
  have nm: "mm_names w' = (?p, ?i) # mm_names w" and ino: "mm_inode w' = (mm_inode w)(?i := ?n)"
    and lg: "mm_log w' = file_map w # mm_log w"
    by (simp_all add: h(3) new_name_def logged_def)
  have "file_map w' = (file_map w)(?p := Some [])"
  proof
    fix q
    show "file_map w' q = ((file_map w)(?p := Some [])) q"
      using other [of q]
      by (cases "map_of (mm_names w) q") (auto simp: file_map_at nm ino kind_data_def new_inode_def)
  qed
  moreover have "mem_owned f w'"
    unfolding mem_owned_def
    by (intro exI [of _ ?p] exI [of _ ?i] exI [of _ "[]"]) (auto simp: h(2) nm ino new_inode_def other)
  moreover have "file_map w ?p = None" using h(1) by (simp add: file_map_at)
  ultimately show ?thesis
    using h(2) lg show_nat_no_slash [of ?i] by (auto simp: mem_obs_def mem_file_def local_fs_def)
qed

lemma mem_create_err: "fs_create_temp mem_fs d pat w = (Inl e, w') \<Longrightarrow> w' = w"
  by (auto simp: local_fs_def mem_os_def mem_create_temp_def Let_def split: if_splits)

lemma mem_rename_law:
  assumes ow: "mem_owned f w" and ne: "q \<noteq> fl_name f" and r: "mem_rename (fl_name f) q w = (None, w')"
  shows "mem_obs w' = (hd (mem_obs w))(q := hd (mem_obs w) (fl_name f), fl_name f := None) # mem_obs w"
  using ow
proof (rule ownedE)
  fix p i d
  assume h: "f = mem_file p i" "map_of (mm_names w) p = Some i"
    "\<And>q. map_of (mm_names w) q = Some i \<Longrightarrow> q = p" "in_kind (mm_inode w i) = IReg d"
  have p: "fl_name f = p" by (simp add: h(1) mem_file_def)
  have "map_of (mm_names w) q \<noteq> Some i" using h(3) ne p by blast
  then have w': "w' = (logged w)\<lparr>mm_names := (q, i) # AList.delete q (AList.delete p (mm_names w))\<rparr> \<or>
      w' = (logged w)\<lparr>mm_names := (q, i) # AList.delete p (mm_names w)\<rparr> \<and> map_of (mm_names w) q = None"
    using r h(2,4) p by (auto simp: mem_rename_def split: option.splits if_splits)
  then have "mm_inode w' = mm_inode w" "mm_log w' = file_map w # mm_log w"
    and "map_of (mm_names w') = (map_of (mm_names w))(p := None, q := Some i)"
    using ne p by (auto simp: logged_def delete_conv' fun_eq_iff)
  then show ?thesis
    using ne p h(2) by (auto simp: mem_obs_def file_map_at fun_eq_iff split: option.split)
qed

lemma mem_rename_err: "mem_rename p q w = (Some e, w') \<Longrightarrow> w' = w"
  by (auto simp: mem_rename_def split: option.splits if_splits)

lemma mem_remove_law:
  assumes ow: "mem_owned f w"
  shows "\<exists>m. mem_obs (snd (mem_remove (fl_name f) w)) = m # mem_obs w \<and>
    m(fl_name f := None) = (hd (mem_obs w))(fl_name f := None)"
  using ow
proof (rule ownedE)
  fix p i d
  assume h: "f = mem_file p i" "map_of (mm_names w) p = Some i"
    "\<And>q. map_of (mm_names w) q = Some i \<Longrightarrow> q = p" "in_kind (mm_inode w i) = IReg d"
  have "snd (mem_remove p w) = drop_name p w" using h(2,4) by (simp add: mem_remove_def)
  moreover have "mem_obs (drop_name p w) = (file_map w)(p := None) # mem_obs w"
    by (auto simp: mem_obs_def drop_name_def logged_def file_map_at delete_conv' fun_eq_iff split: option.split)
  ultimately show ?thesis by (simp add: h(1) mem_file_def)
qed

lemma mem_quiet_refl: "quiet mem_obs mem_owned w w"
  by (auto simp: quiet_def intro: exI [of _ "[]"])

lemma mem_touches_refl: "mem_owned f w \<Longrightarrow> touches mem_obs mem_owned f w w"
  by (auto simp: touches_def alters_def intro: exI [of _ "[]"])

lemma on_data_reg: "in_kind n = IReg d \<Longrightarrow> \<exists>d'. in_kind (on_data g n) = IReg d'"
  by (simp add: on_data_def)

lemma mem_file_touches:
  assumes "mem_owned f w"
  shows "touches mem_obs mem_owned f w (snd (fl_write f b w))"
    and "touches mem_obs mem_owned f w (snd (fl_write_at f b off w))"
    and "touches mem_obs mem_owned f w (snd (fl_truncate f off w))"
proof -
  obtain p i where f: "f = mem_file p i" using assms by (rule ownedE)
  have "touches mem_obs mem_owned (mem_file p i) w (set_inode i g w)"
    if "\<And>n d. in_kind n = IReg d \<Longrightarrow> \<exists>d'. in_kind (g n) = IReg d'" for g
    using set_inode_touches [OF assms [unfolded f] that] .
  note t = this
  show "touches mem_obs mem_owned f w (snd (fl_write f b w))"
    using t [of "\<lambda>n. (on_data (put_bytes (in_off n) b) n)\<lparr>in_off := in_off n + length b\<rparr>"] on_data_reg
    by (simp add: f mem_file_def)
  show "touches mem_obs mem_owned f w (snd (fl_write_at f b off w))"
    using t [of "on_data (put_bytes (nat off) b)"] on_data_reg by (simp add: f mem_file_def)
  show "touches mem_obs mem_owned f w (snd (fl_truncate f off w))"
    using t [of "on_data (resize (nat off))"] on_data_reg by (simp add: f mem_file_def)
qed

lemma mem_file_quiet:
  assumes "mem_owned f w"
  shows "quiet mem_obs mem_owned w (snd (fl_chmod f m w))"
    and "quiet mem_obs mem_owned w (snd (fl_sync f w))"
    and "quiet mem_obs mem_owned w (snd (fl_close f w))"
proof -
  obtain p i where f: "f = mem_file p i" using assms by (rule ownedE)
  have "quiet mem_obs mem_owned w (set_inode i (\<lambda>n. n\<lparr>in_perm := m\<rparr>) w)"
    by (rule set_inode_quiet) simp
  then show "quiet mem_obs mem_owned w (snd (fl_chmod f m w))" by (simp add: f mem_file_def)
  show "quiet mem_obs mem_owned w (snd (fl_sync f w))" by (simp add: f mem_file_def mem_quiet_refl)
  show "quiet mem_obs mem_owned w (snd (fl_close f w))" by (simp add: f mem_file_def mem_quiet_refl)
qed

lemma mem_attr_quiet: "(\<And>n. in_kind (g n) = in_kind n) \<Longrightarrow> quiet mem_obs mem_owned w (snd (mem_attr g p w))"
  by (auto simp: mem_attr_def mem_quiet_refl intro: set_inode_quiet split: option.split)

lemmas mem_ops = local_fs_def mem_os_def plain_env_def plain_kernel_def

interpretation memory: publish_fs mem_fs plain_env mem_obs mem_owned
proof (unfold_locales, goal_cases)
  case 1 show ?case by (simp add: mem_obs_def)
next
  case 2 then show ?case by (rule mem_create_law)
next
  case 3 then show ?case using mem_create_err mem_quiet_refl by blast
next
  case (13 f w q w')
  then show ?case using mem_rename_law [of f w q w'] by (simp add: mem_ops)
next
  case (14 p q w e w')
  then show ?case using mem_rename_err [of p q w e w'] by (simp add: mem_ops mem_quiet_refl)
next
  case (15 f w)
  then show ?case using mem_remove_law [of f w] by (simp add: mem_ops)
qed (simp_all add: mem_file_touches mem_file_quiet mem_attr_quiet mem_quiet_refl mem_touches_refl mem_ops)

text \<open>Appending and writing at offsets.\<close>

definition mem_at_end :: "mem gofile \<Rightarrow> mem \<Rightarrow> bool" where
  "mem_at_end f w \<longleftrightarrow>
     (\<exists>p i d. f = mem_file p i \<and> in_kind (mm_inode w i) = IReg d \<and> in_off (mm_inode w i) = length d \<and>
        map_of (mm_names w) p = Some i)"

lemma put_bytes_end: "put_bytes (length d) b d = d @ b"
  by (simp add: put_bytes_def)

lemma put_bytes_beyond: "length d \<le> k \<Longrightarrow> put_bytes k b d = padded k d @ b"
  by (simp add: put_bytes_def padded_def)

lemma resize_beyond: "length d \<le> k \<Longrightarrow> resize k d = padded k d"
  by (simp add: resize_def padded_def)

lemma file_map_owned:
  "map_of (mm_names w) p = Some i \<Longrightarrow> in_kind (mm_inode w i) = IReg d \<Longrightarrow> file_map w p = Some d"
  by (simp add: file_map_at kind_data_def)

lemma mem_write_appends:
  assumes ae: "mem_at_end f w" and c: "hd (mem_obs w) (fl_name f) = Some c"
    and wr: "fl_write f b w = ((nw, e), w')"
  shows "mem_at_end f w' \<and> nw \<le> length b \<and> hd (mem_obs w') (fl_name f) = Some (c @ take nw b)"
proof -
  obtain p i d where h: "f = mem_file p i" "in_kind (mm_inode w i) = IReg d"
    "in_off (mm_inode w i) = length d" "map_of (mm_names w) p = Some i"
    using ae unfolding mem_at_end_def by blast
  have d: "d = c" using c h file_map_owned [OF h(4,2)] by (simp add: mem_file_def)
  have w': "nw = length b"
    "w' = set_inode i (\<lambda>n. (on_data (put_bytes (in_off n) b) n)\<lparr>in_off := in_off n + length b\<rparr>) w"
    using wr h(1) by (auto simp: mem_file_def)
  have k: "in_kind (mm_inode w' i) = IReg (d @ b)" "in_off (mm_inode w' i) = length (d @ b)"
    "map_of (mm_names w') p = Some i"
    using h by (simp_all add: w'(2) on_data_def put_bytes_end)
  then have "mem_at_end f w'" unfolding mem_at_end_def using h(1) by blast
  with file_map_owned [OF k(3,1)] show ?thesis by (simp add: w'(1) d h(1) mem_file_def)
qed

lemma mem_create_at_end:
  "fs_create_temp mem_fs d (pre @ ''*'') w = (Inr f, w') \<Longrightarrow> mem_at_end f w'"
  unfolding mem_at_end_def
  by (rule exI [of _ "path_join [d, pre @ show_nat (fresh_ino w)]"], rule exI [of _ "fresh_ino w"], rule exI [of _ "[]"])
    (auto simp: local_fs_def mem_os_def mem_create_temp_def Let_def butlast_append new_name_def logged_def
      new_inode_def split: if_splits)

interpretation memory: stream_fs mem_fs plain_env mem_obs mem_owned mem_at_end
  by unfold_locales (use mem_create_at_end mem_write_appends in blast)+

lemma mem_write_at_puts:
  assumes ow: "mem_owned f w" and c: "hd (mem_obs w) (fl_name f) = Some c" and k: "length c \<le> k"
  shows "fl_write_at f b (int k) w = (e, w') \<Longrightarrow> hd (mem_obs w') (fl_name f) = Some (padded k c @ b)"
    and "fl_truncate f (int k) w = (e, w') \<Longrightarrow> hd (mem_obs w') (fl_name f) = Some (padded k c)"
proof -
  obtain p i d where h: "f = mem_file p i" "map_of (mm_names w) p = Some i" "in_kind (mm_inode w i) = IReg d"
    using ow by (rule ownedE)
  have d: "d = c" using c h file_map_owned [OF h(2,3)] by (simp add: mem_file_def)
  have up: "file_map (set_inode i (on_data g) w) p = Some (g d)" for g
    using h by (simp add: file_map_at kind_data_def on_data_def)
  show "hd (mem_obs w') (fl_name f) = Some (padded k c @ b)" if "fl_write_at f b (int k) w = (e, w')"
    using that up [of "put_bytes k b"] h(1) d k by (auto simp: mem_file_def put_bytes_beyond)
  show "hd (mem_obs w') (fl_name f) = Some (padded k c)" if "fl_truncate f (int k) w = (e, w')"
    using that up [of "resize k"] h(1) d k by (auto simp: mem_file_def resize_beyond)
qed

interpretation memory: sparse_fs mem_fs plain_env mem_obs mem_owned
  by unfold_locales (use mem_write_at_puts in blast)+

end
