(* ===== verification/CopySpec.thy ===== *)
theory CopySpec
  imports MemFs
begin

text \<open>
  The properties of the copy primitives and of the skip decision, and the small world on which they
  are evaluated: two files \<open>/a\<close> and \<open>/b\<close> of three bytes with equal times.
\<close>

definition demo :: mem where
  "demo = \<lparr>mm_names = [(''/'', 1), (''/a'', 2), (''/b'', 3)],
     mm_inode = (\<lambda>_. new_inode IDir 0x1ED)
       (2 := (new_inode (IReg [1, 2, 3]) 0x1A4)\<lparr>in_mtime := 5\<rparr>,
        3 := (new_inode (IReg [1, 2, 4]) 0x1A4)\<lparr>in_mtime := 5\<rparr>),
     mm_log = []\<rparr>"

definition demo_st :: "mem cst" where
  "demo_st = \<lparr>cs_world = demo, cs_moved = 0, cs_polls = 0\<rparr>"

definition demo_opts :: copy_opts where
  "demo_opts = \<lparr>co_preserve = False, co_fsync = False, co_buf_size = 2, co_cancel = (\<lambda>_. False)\<rparr>"

text \<open>The same files read over SFTP.\<close>

definition demo_remote :: "mem fs" where
  "demo_remote = mem_fs\<lparr>fs_local := False, fs_host := ''h'',
     fs_open := (\<lambda>w p. map_sum id (\<lambda>r. r\<lparr>rd_is_os := False\<rparr>) (mem_open w p))\<rparr>"

text \<open>C7: \<open>CopyFile\<close> is crash safe. Over any filesystem whose calls keep the contract of
  publication: at every instant of the call the destination holds what it held before or what it holds
  at the end, no path but the destination and one temporary file changes, and a copy that reports an
  error other than a metadata one leaves the destination as it was.\<close>

theorem copy_is_crash_safe:
  assumes "publish_fs dfs en obs owned"
    and "copyFile en srcFS src dfs dst info co s = ((n, err), s')"
    and "\<And>r. CHR ''/'' \<notin> set r \<Longrightarrow> dst \<noteq> fs_join dfs (fs_dir dfs dst) (''.basicopy-tmp-'' @ r)"
  shows "\<exists>tmp. crash_safe obs dst tmp (cs_world s) (cs_world s') \<and>
    (data_failed err \<longrightarrow> hd (obs (cs_world s')) dst = hd (obs (cs_world s)) dst)"
  using publish_fs.copyFile_crash_safe [OF assms] .

lemma tmp_in_root:
  assumes "CHR ''/'' \<notin> set r"
  shows "fs_join mem_fs (fs_dir mem_fs ''/b'') (''.basicopy-tmp-'' @ r) = ''/.basicopy-tmp-'' @ r"
proof -
  have "path_comps (''.basicopy-tmp-'' @ r) = [''.basicopy-tmp-'' @ r]"
    using assms by (simp add: path_comps_def split_on_single)
  then show ?thesis
    using path_join_abs_comps [of "[]" "''.basicopy-tmp-'' @ r"]
    by (simp add: local_fs_def path_dir_def path_clean_def path_comps_def path_is_abs_def has_prefix_def
        path_string_def Let_def)
qed

lemma demo_dst: "CHR ''/'' \<notin> set r \<Longrightarrow> ''/b'' \<noteq> fs_join mem_fs (fs_dir mem_fs ''/b'') (''.basicopy-tmp-'' @ r)"
  by (subst tmp_in_root) simp_all

theorem copy_is_crash_safe_witness:
  "let r = copyFile plain_env mem_fs ''/a'' mem_fs ''/b'' None demo_opts demo_st in
     \<exists>tmp. crash_safe mem_obs ''/b'' tmp demo (cs_world (snd r)) \<and>
       (data_failed (snd (fst r)) \<longrightarrow> file_map (cs_world (snd r)) ''/b'' = Some [1, 2, 4])"
proof -
  let ?r = "copyFile plain_env mem_fs ''/a'' mem_fs ''/b'' None demo_opts demo_st"
  have "file_map demo ''/b'' = Some [1, 2, 4]"
    by (simp add: file_map_at demo_def kind_data_def new_inode_def)
  with copy_is_crash_safe [OF memory.publish_fs_axioms, of mem_fs "''/a''" "''/b''" None demo_opts
      demo_st "fst (fst ?r)" "snd (fst ?r)" "snd ?r"] demo_dst
  show ?thesis by (simp add: Let_def demo_st_def)
qed

text \<open>C8: A streamed copy is exact. Where the source is not a local file (so no kernel copy applies),
  a \<open>CopyFile\<close> that returns without an error in the data has put at the destination exactly the
  bytes its source reads to, whatever the chunks they came in, and reports their number.\<close>

theorem streamed_copy_is_exact:
  assumes "stream_fs dfs en obs owned at_end"
    and "copyFile en srcFS src dfs dst info co s = ((n, err), s')"
    and "\<And>r. CHR ''/'' \<notin> set r \<Longrightarrow> dst \<noteq> fs_join dfs (fs_dir dfs dst) (''.basicopy-tmp-'' @ r)"
    and "fs_open srcFS (cs_world s) src = Inr inp" and "\<not> rd_is_os inp" and "\<not> data_failed err"
  shows "\<exists>d. read_chunks (rd_script inp (buf_size co)) [] = Inr d \<and> n = int (length d) \<and>
    hd (obs (cs_world s')) dst = Some d"
  using stream_fs.copyFile_streams [OF assms] .

lemma show_4: "show_nat 4 = ''4''"
  by code_simp

lemma demo_temp:
  "fs_create_temp mem_fs (fs_dir mem_fs ''/b'') ''.basicopy-tmp-*'' demo =
     (Inr (mem_file ''/.basicopy-tmp-4'' 4), new_name ''/.basicopy-tmp-4'' (new_inode (IReg []) 0x180) demo)"
proof -
  have "path_join [path_dir ''/b'', ''.basicopy-tmp-4''] = ''/.basicopy-tmp-4''"
    using tmp_in_root [of "''4''"] by (simp add: local_fs_def)
  moreover have "fresh_ino demo = 4" by (simp add: fresh_ino_def demo_def)
  moreover have "map_of (mm_names demo) ''/.basicopy-tmp-4'' = None" by (simp add: demo_def)
  ultimately show ?thesis by (simp add: local_fs_def mem_os_def mem_create_temp_def show_4 Let_def)
qed

lemma demo_new_name:
  "mm_names (new_name p n demo) = [(p, 4), (''/'', 1), (''/a'', 2), (''/b'', 3)]"
  "mm_inode (new_name p n demo) = (mm_inode demo)(4 := n)"
  by (simp_all add: new_name_def logged_def demo_def fresh_ino_def)

lemma demo_kinds: "in_kind (mm_inode demo 2) = IReg [1, 2, 3]" "in_kind (mm_inode demo 3) = IReg [1, 2, 4]"
  by (simp_all add: demo_def new_inode_def)

text \<open>What the open temporary file answers, with the world it leaves folded.\<close>

lemma mem_file_sel:
  "fl_name (mem_file p i) = p" "fl_is_os (mem_file p i)"
  "fl_chmod (mem_file p i) m w = (None, set_inode i (\<lambda>n. n\<lparr>in_perm := m\<rparr>) w)"
  "fl_sync (mem_file p i) w = (None, w)" "fl_close (mem_file p i) w = (None, w)"
  "fl_write (mem_file p i) b w = ((length b, None),
     set_inode i (\<lambda>n. (on_data (put_bytes (in_off n) b) n)\<lparr>in_off := in_off n + length b\<rparr>) w)"
  by (simp_all add: mem_file_def)

lemma demo_read: "rd_script (mem_reader [1, 2, 3]) (buf_size demo_opts) =
    [([1, 2], None), ([3], None)]"
  by (simp add: mem_reader_def buf_size_def demo_opts_def eval_nat_numeral)

lemma demo_open: "fs_open demo_remote demo ''/a'' = Inr ((mem_reader [1, 2, 3])\<lparr>rd_is_os := False\<rparr>)"
  by (simp add: demo_remote_def mem_open_def mem_lookup_def file_map_def demo_def new_inode_def
      kind_data_def eval_nat_numeral)

lemma demo_copy_any:
  assumes "\<not> co_preserve co" and "\<not> co_fsync co" and "\<And>k. \<not> co_cancel co k" and "co_buf_size co = 2"
    and "fs_open sfs demo p = Inr ((mem_reader [1, 2, 3])\<lparr>rd_is_os := False\<rparr>)"
  shows "snd (fst (copyFile plain_env sfs p mem_fs ''/b'' info co demo_st)) = None"
proof -
  have cf: "\<not> canceled co s" for s :: "mem cst" using assms(3) by (simp add: canceled_def)
  have rd: "rd_script (mem_reader [1, 2, 3]) (buf_size co) = [([1, 2], None), ([3], None)]"
    using assms(4) by (simp add: mem_reader_def buf_size_def eval_nat_numeral)
  have rn: "fs_rename mem_fs p q w = mem_rename p q w" for p q w by (simp add: local_fs_def mem_os_def)
  show ?thesis
    using assms(1,2)
    by (simp add: copyFile_def cf polled_def demo_st_def assms(5) on_world_def demo_temp copyContents_def
        plainCopy_def rd write_chunk_def mem_file_sel progress_def finish_temp_def temp_meta_def
        publish_def replace_file_def rn mem_rename_def demo_new_name demo_kinds new_inode_def on_data_def
        plain_env_def plain_kernel_def Let_def split: option.split)
qed

lemma demo_copy:
  "snd (fst (copyFile plain_env demo_remote ''/a'' mem_fs ''/b'' None demo_opts demo_st)) = None"
  by (rule demo_copy_any) (simp_all add: demo_opts_def demo_open)

theorem streamed_copy_is_exact_witness:
  "hd (mem_obs (cs_world (snd (copyFile plain_env demo_remote ''/a'' mem_fs ''/b'' None demo_opts demo_st))))
     ''/b'' = Some [1, 2, 3]"
proof -
  let ?r = "copyFile plain_env demo_remote ''/a'' mem_fs ''/b'' None demo_opts demo_st"
  let ?inp = "(mem_reader [1, 2, 3])\<lparr>rd_is_os := False\<rparr>"
  have inp: "fs_open demo_remote (cs_world demo_st) ''/a'' = Inr ?inp"
    using demo_open by (simp add: demo_st_def)
  have "read_chunks (rd_script ?inp (buf_size demo_opts)) [] = Inr [1, 2, 3]"
    using demo_read by simp
  moreover have cp: "?r = ((fst (fst ?r), None), snd ?r)" using demo_copy by (metis prod.collapse)
  ultimately show ?thesis
    using streamed_copy_is_exact [OF memory.stream_fs_axioms cp demo_dst inp] by simp
qed

text \<open>C9: A hole-preserving copy is exact. Skipping the zero blocks and truncating at the end, a
  \<open>copySparse\<close> into an empty file that succeeds leaves exactly the bytes the source reads to.\<close>

theorem sparse_copy_is_exact:
  assumes "sparse_fs dfs en obs owned"
    and "owned f (cs_world s)" and "hd (obs (cs_world s)) (fl_name f) = Some []"
    and "copySparse f src co s = ((n, None), s')"
  shows "\<exists>d. read_chunks (rd_script src (buf_size co)) [] = Inr d \<and> n = int (length d) \<and>
    hd (obs (cs_world s')) (fl_name f) = Some d"
  using sparse_fs.copySparse_exact [OF assms] .

definition demo_tmp :: "mem cst" where
  "demo_tmp = demo_st\<lparr>cs_world := snd (mem_create_temp ''/'' ''t*'' demo)\<rparr>"

theorem sparse_copy_is_exact_witness:
  "hd (mem_obs (cs_world (snd (copySparse (mem_file ''/t4'' 4) (mem_reader [0, 7, 0]) demo_opts demo_tmp))))
     ''/t4'' = Some [0, 7, 0]"
proof -
  let ?f = "mem_file ''/t4'' 4" and ?rd = "mem_reader [0, 7, 0]"
  let ?r = "copySparse ?f ?rd demo_opts demo_tmp"
  have "path_join [''/'', ''t4''] = ''/t4''" by code_simp
  then have c: "mem_create_temp ''/'' (''t'' @ ''*'') demo = (Inr ?f, cs_world demo_tmp)"
    by (simp add: mem_create_temp_def demo_tmp_def demo_def fresh_ino_def Let_def show_4)
  then have "fs_create_temp mem_fs ''/'' (''t'' @ ''*'') demo = (Inr ?f, cs_world demo_tmp)"
    by (simp add: local_fs_def mem_os_def)
  from mem_create_law [OF this] have ow: "mem_owned ?f (cs_world demo_tmp)"
    and hd: "hd (mem_obs (cs_world demo_tmp)) (fl_name ?f) = Some []" by simp_all
  have "snd (fst ?r) = None" by code_simp
  then have "?r = ((fst (fst ?r), None), snd ?r)" by (metis prod.collapse)
  moreover have "read_chunks (rd_script ?rd (buf_size demo_opts)) [] = Inr [0, 7, 0]"
    by (simp add: mem_reader_def buf_size_def demo_opts_def eval_nat_numeral)
  ultimately show ?thesis
    using sparse_copy_is_exact [OF memory.sparse_fs_axioms ow hd] by (fastforce simp: mem_file_def)
qed

subsection \<open>The skip decision on the small world\<close>

lemma demo_lstat: "fs_lstat mem_fs demo ''/b'' = Inr (mem_info demo ''/b'' 3)"
  "fs_lstat mem_fs demo ''/a'' = Inr (mem_info demo ''/a'' 2)"
  by (simp_all add: local_fs_def mem_os_def mem_lstat_def demo_def)

lemma demo_opens: "mem_open demo ''/b'' = Inr (mem_reader [1, 2, 4])" "mem_open demo ''/a'' = Inr (mem_reader [1, 2, 3])"
  by (simp_all add: mem_open_def mem_lookup_def file_map_def demo_def new_inode_def kind_data_def eval_nat_numeral)

lemma chunks_one: "b \<noteq> [] \<Longrightarrow> length b \<le> n \<Longrightarrow> chunks (length b) n b = [b]"
proof -
  assume "b \<noteq> []" "length b \<le> n"
  then obtain k where "length b = Suc k" by (cases b) auto
  moreover have "chunks k n [] = []" by (cases k) simp_all
  ultimately show ?thesis using \<open>b \<noteq> []\<close> \<open>length b \<le> n\<close> by simp
qed

lemma demo_content: "content_of mem_fs demo ''/b'' = Inr [1, 2, 4]" "content_of mem_fs demo ''/a'' = Inr [1, 2, 3]"
  using chunks_one [of "[1, 2, 4]" hashBufSize] chunks_one [of "[1, 2, 3]" hashBufSize]
  by (simp_all add: content_of_def local_fs_def mem_os_def demo_opens mem_reader_def hashBufSize_def)

lemma demo_info: "fi_mtime (mem_info demo ''/b'' 3) = 5" "fi_size (mem_info demo ''/b'' 3) = 3"
  "is_regular (fi_mode (mem_info demo ''/b'' 3))"
  "fi_mtime (mem_info demo ''/a'' 2) = 5" "fi_size (mem_info demo ''/a'' 2) = 3"
  "is_regular (fi_mode (mem_info demo ''/a'' 2))"
  by (simp_all add: mem_info_def Let_def demo_def new_inode_def kind_size_def type_bits_def is_regular_def mode_type_def)

theorem compare_exact_witness:
  "vd_need_copy (compare (\<lambda>b. b) mem_fs ''/a'' (mem_info demo ''/a'' 2) mem_fs ''/b'' True demo) \<and>
   \<not> vd_need_copy (compare (\<lambda>b. b) mem_fs ''/a'' (mem_info demo ''/a'' 2) mem_fs ''/b'' False demo)"
  using compare_exact [OF demo_lstat(1), of "mem_info demo ''/a'' 2" "\<lambda>b. b" mem_fs "''/a''" True]
    compare_exact [OF demo_lstat(1), of "mem_info demo ''/a'' 2" "\<lambda>b. b" mem_fs "''/a''" False]
  by (simp add: demo_info demo_content)

theorem checksum_skip_same_bytes_witness: "content_of mem_fs demo ''/a'' = Inr [1, 2, 3]"
proof -
  have "\<not> vd_need_copy (compare (\<lambda>b. b) mem_fs ''/a'' (mem_info demo ''/a'' 2) mem_fs ''/a'' True demo)"
    by (simp add: compare_def demo_lstat demo_info sameContent_iff demo_content)
  from checksum_skip_same_bytes [OF this] demo_content(2) show ?thesis by auto
qed

theorem quick_check_skips_saturated_times_witness:
  "\<not> vd_need_copy (compare (\<lambda>b. b) mem_fs ''/a'' ((mem_info demo ''/a'' 2)\<lparr>fi_mtime := - (2 ^ 64)\<rparr>)
     mem_fs ''/b'' False demo)"
  by (rule quick_check_skips_saturated_times [OF demo_lstat(1)]) (simp_all add: demo_info)

end
