(* ===== verification/Options.thy ===== *)
theory Options
  imports GoFloat GoErr Vfs
begin

text \<open>
  The run's configuration, internal/options/options.go: the options record, the consistency check
  and the size parser of \<open>--buffer\<close>.
\<close>

record options =
  op_sources :: "string list"
  op_target_dir :: string
  op_target_file :: string
  op_contents :: bool
  op_no_auto_mkdirs :: bool
  op_max_threads :: int
  op_buffer_size :: int
  op_exclude :: "string list"
  op_include :: "string list"
  op_one_fs :: bool
  op_dry_run :: bool
  op_mirror :: bool
  op_move :: bool
  op_checksum :: bool
  op_no_hardlinks :: bool
  op_no_follow :: bool
  op_no_symlink_warn :: bool
  op_no_preserve :: bool
  op_fatal :: bool
  op_fsync :: bool
  op_verbose :: bool
  op_quiet :: bool
  op_json :: bool
  op_progress :: string

subsection \<open>Validation\<close>

text \<open>The first problem found, as its message; \<open>None\<close> for a consistent configuration.\<close>

definition validate :: "options \<Rightarrow> message option" where
  "validate o' =
     (if length (op_sources o') = 0 then Some (''no SRC given: specify at least one source'', [])
      else if op_target_dir o' = [] \<and> op_target_file o' = []
      then Some (''a destination is required: pass --target-dir DIR or --target-file FILE'', [])
      else if op_target_dir o' \<noteq> [] \<and> op_target_file o' \<noteq> []
      then Some (''--target-dir and --target-file are mutually exclusive'', [])
      else if op_target_file o' \<noteq> [] \<and> length (op_sources o') \<noteq> 1
      then Some (''--target-file takes exactly one source file, got %d'', [Num (int (length (op_sources o')))])
      else if op_mirror o' \<and> op_target_dir o' = []
      then Some (''--mirror only makes sense with --target-dir'', [])
      else if op_contents o' \<and> op_target_dir o' = []
      then Some (''--contents requires --target-dir'', [])
      else if op_contents o' \<and> op_mirror o' \<and> length (op_sources o') \<noteq> 1
      then Some (''--mirror with --contents takes exactly one source (mirroring a multi-source union is ambiguous), got %d'',
                 [Num (int (length (op_sources o')))])
      else if op_verbose o' \<and> op_quiet o'
      then Some (''--verbose and --quiet are mutually exclusive'', [])
      else if op_progress o' \<notin> set [[], ''auto'', ''always'', ''never'']
      then Some (''--progress must be auto|always|never, got %q'', [Str (op_progress o')])
      else if op_max_threads o' < 0 then Some (''--max-threads cannot be negative'', [])
      else if op_buffer_size o' < 0 then Some (''--buffer cannot be negative'', [])
      else None)"

text \<open>What a configuration must satisfy for the engine.\<close>

definition consistent :: "options \<Rightarrow> bool" where
  "consistent o' \<longleftrightarrow>
     op_sources o' \<noteq> [] \<and>
     ((op_target_dir o' = []) \<noteq> (op_target_file o' = [])) \<and>
     (op_target_file o' \<noteq> [] \<longrightarrow>
        (\<exists>s. op_sources o' = [s]) \<and> \<not> op_mirror o' \<and> \<not> op_contents o') \<and>
     (op_contents o' \<and> op_mirror o' \<longrightarrow> (\<exists>s. op_sources o' = [s])) \<and>
     \<not> (op_verbose o' \<and> op_quiet o') \<and>
     op_progress o' \<in> {[], ''auto'', ''always'', ''never''} \<and>
     0 \<le> op_max_threads o' \<and> 0 \<le> op_buffer_size o'"

text \<open>\<open>Validate\<close> accepts exactly the configurations the engine relies on: at least one source,
  exactly one kind of target, a single source and neither mirror nor contents mode for a file
  target, a single source for a mirrored contents copy, no contradictory output modes, a known
  progress mode and no negative number.\<close>

lemma validate_iff: "validate o' = None \<longleftrightarrow> consistent o'"
proof -
  have "length (op_sources o') = 1 \<longleftrightarrow> (\<exists>s. op_sources o' = [s])"
    by (metis One_nat_def length_0_conv length_Suc_conv)
  then show ?thesis
    unfolding validate_def consistent_def by (auto simp del: One_nat_def)
qed

subsection \<open>Sizes\<close>

definition size_char :: "char \<Rightarrow> bool" where
  "size_char c \<longleftrightarrow> c = CHR ''.'' \<or> is_digit c"

definition digit_val :: "char \<Rightarrow> int" where
  "digit_val c = int (of_char c) - 48"

definition digits_val :: "string \<Rightarrow> int" where
  "digits_val s = foldl (\<lambda>v c. v * 10 + digit_val c) 0 s"

text \<open>\<open>strconv.ParseFloat\<close> on a text of digits and dots: at most one dot and at least one digit, the
  value rounded to the nearest float64, an error when that is out of range.\<close>

definition parse_float :: "string \<Rightarrow> f64 option" where
  "parse_float s =
     (case split_on (CHR ''.'') s of
        [a] \<Rightarrow> if a = [] then None else Some (fround (of_int (digits_val a)))
      | [a, b] \<Rightarrow>
          if a = [] \<and> b = [] then None
          else Some (fround (of_int (digits_val (a @ b)) / of_int (10 ^ length b)))
      | _ \<Rightarrow> None)"

definition float_ok :: "f64 option \<Rightarrow> bool" where
  "float_ok v = (case v of Some (Fin q) \<Rightarrow> True | _ \<Rightarrow> False)"

definition unit_mult :: "string \<Rightarrow> int option" where
  "unit_mult u =
     (if u = [] \<or> u = ''b'' then Some 1
      else if u = ''k'' \<or> u = ''kb'' then Some (10 ^ 3)
      else if u = ''ki'' \<or> u = ''kib'' then Some (2 ^ 10)
      else if u = ''m'' \<or> u = ''mb'' then Some (10 ^ 6)
      else if u = ''mi'' \<or> u = ''mib'' then Some (2 ^ 20)
      else if u = ''g'' \<or> u = ''gb'' then Some (10 ^ 9)
      else if u = ''gi'' \<or> u = ''gib'' then Some (2 ^ 30)
      else if u = ''t'' \<or> u = ''tb'' then Some (10 ^ 12)
      else if u = ''ti'' \<or> u = ''tib'' then Some (2 ^ 40)
      else None)"

definition parseSize :: "string \<Rightarrow> message + int" where
  "parseSize s =
     (let s = trim_space s in
      if s = [] then Inr 0
      else
        (let numStr = takeWhile size_char s; unit = to_lower (trim_space (dropWhile size_char s)) in
         if numStr = [] then Inl (''invalid size %q: missing number'', [Str s])
         else (case parse_float numStr of
                 Some num \<Rightarrow>
                   if \<not> float_ok (Some num) then Inl (''invalid size %q: %v'', [Str s])
                   else if f_less num (Fin 0) then Inl (''invalid size %q: negative'', [Str s])
                   else (case unit_mult unit of
                           None \<Rightarrow> Inl (''invalid size unit %q in %q'', [Str unit, Str s])
                         | Some mult \<Rightarrow> Inr (f_to_int64 (f_mul num (f_of_int mult))))
               | None \<Rightarrow> Inl (''invalid size %q: %v'', [Str s]))))"

subsection \<open>Exact sizes\<close>

lemma digits_val_snoc: "digits_val (s @ [c]) = digits_val s * 10 + digit_val c"
  by (simp add: digits_val_def)

lemma digits_val_show_aux: "n < k \<Longrightarrow> digits_val (show_nat_aux k n) = int n"
proof (induction k arbitrary: n)
  case (Suc k)
  show ?case
  proof (cases "n < 10")
    case True
    then show ?thesis by (simp add: digits_val_def digit_val_def of_char_of)
  next
    case False
    then have "n div 10 < k" using Suc.prems by simp
    moreover have "digit_val (char_of (48 + n mod 10)) = int (n mod 10)"
      by (simp add: digit_val_def of_char_of)
    moreover have "int n = int (n div 10) * 10 + int (n mod 10)"
      by (metis div_mult_mod_eq of_nat_add of_nat_mult of_nat_numeral)
    ultimately show ?thesis using False Suc.IH by (simp add: digits_val_snoc)
  qed
qed simp

lemma digits_val_show: "digits_val (show_nat n) = int n"
  unfolding show_nat_def by (rule digits_val_show_aux) simp

lemma show_nat_nonempty: "show_nat n \<noteq> []"
  by (simp add: show_nat_def)

lemma show_nat_is_digit: "c \<in> set (show_nat n) \<Longrightarrow> is_digit c"
proof -
  assume "c \<in> set (show_nat n)"
  then obtain d :: nat where d: "d < 10" "(of_char c :: nat) = 48 + d" using show_nat_digit by blast
  then have "c = char_of (48 + d)" by (metis char_of_char)
  moreover have "list_all (\<lambda>d. is_digit (char_of (48 + d :: nat))) [0, 1, 2, 3, 4, 5, 6, 7, 8, 9]"
    by code_simp
  moreover have "d \<in> {0, 1, 2, 3, 4, 5, 6, 7, 8, 9}" using d(1) by auto
  ultimately show ?thesis by auto
qed

lemma digit_not_space: "is_digit c \<Longrightarrow> \<not> is_space c \<and> c \<noteq> CHR ''.''"
  by (auto simp: is_digit_def is_space_def)

lemma space_lower: "is_space c \<or> size_char c \<Longrightarrow> to_lower_char c = c"
  by (auto simp: is_space_def size_char_def is_digit_def to_lower_char_def Let_def)

lemma unit_names: "unit_mult u = Some m \<Longrightarrow> u \<in> set [[], ''b'', ''k'', ''kb'', ''ki'', ''kib'', ''m'', ''mb'',
    ''mi'', ''mib'', ''g'', ''gb'', ''gi'', ''gib'', ''t'', ''tb'', ''ti'', ''tib'']"
  by (rule ccontr) (simp add: unit_mult_def)

lemma unit_letters:
  assumes "unit_mult u = Some m" and "c \<in> set u"
  shows "\<not> is_space c \<and> \<not> size_char c"
proof -
  have "list_all (list_all (\<lambda>c. \<not> is_space c \<and> \<not> size_char c)) [[], ''b'', ''k'', ''kb'', ''ki'', ''kib'', ''m'', ''mb'',
    ''mi'', ''mib'', ''g'', ''gb'', ''gi'', ''gib'', ''t'', ''tb'', ''ti'', ''tib'']"
    by code_simp
  with unit_names [OF assms(1)] assms(2) show ?thesis unfolding list_all_iff by blast
qed

lemma f_to_int64_of_int: "- (2 ^ 63) \<le> k \<Longrightarrow> k < 2 ^ 63 \<Longrightarrow> f_to_int64 (Fin (of_int k)) = k"
proof -
  assume k: "- (2 ^ 63) \<le> k" "k < 2 ^ 63"
  have "(if 0 \<le> (of_int k :: rat) then \<lfloor>of_int k :: rat\<rfloor> else - \<lfloor>- (of_int k :: rat)\<rfloor>) = k"
    by (simp add: floor_minus)
  with k show ?thesis by (simp only: f_to_int64.simps Let_def) simp
qed

lemma unit_no_space: "unit_mult (to_lower u) = Some m \<Longrightarrow> c \<in> set u \<Longrightarrow> \<not> is_space c \<and> \<not> size_char c"
  using unit_letters [of "to_lower u" m "to_lower_char c"] space_lower [of c] by (auto simp: to_lower_def)

lemma trim_space_none: "(\<forall>c \<in> set s. \<not> is_space c) \<Longrightarrow> trim_space s = s"
proof -
  assume a: "\<forall>c \<in> set s. \<not> is_space c"
  have d: "dropWhile is_space t = t" if "\<forall>c \<in> set t. \<not> is_space c" for t
    using that by (cases t) auto
  show ?thesis using a d [of s] d [of "rev s"] by (simp add: trim_space_def)
qed

text \<open>A size written as a number with a unit is read exactly. For every unit the parser knows, in
  either letter case, a whole number of units below 2^53 bytes parses to that many bytes.\<close>

lemma parse_size_exact:
  assumes "unit_mult (to_lower u) = Some m" and "int n * m < 2 ^ 53"
  shows "parseSize (show_nat n @ u) = Inr (int n * m)"
proof -
  let ?s = "show_nat n @ u"
  have dig: "\<forall>c \<in> set (show_nat n). size_char c \<and> \<not> is_space c \<and> c \<noteq> CHR ''.''"
    using show_nat_is_digit digit_not_space by (auto simp: size_char_def)
  have ulet: "\<forall>c \<in> set u. \<not> is_space c \<and> \<not> size_char c" using unit_no_space [OF assms(1)] by blast
  have trim: "trim_space ?s = ?s" by (rule trim_space_none) (use dig ulet in auto)
  have num: "takeWhile size_char ?s = show_nat n"
    using dig ulet by (cases u) (simp_all add: takeWhile_tail takeWhile_eq_all_conv)
  have rest: "dropWhile size_char ?s = u"
    using dig ulet by (cases u) (simp_all add: dropWhile_append)
  have tu: "trim_space u = u" by (rule trim_space_none) (use ulet in blast)
  have m: "1 \<le> m" "m < 2 ^ 53" using assms(1) by (auto simp: unit_mult_def split: if_splits)
  have "int n * 1 \<le> int n * m" by (rule mult_left_mono) (use m in simp_all)
  then have n: "int n < 2 ^ 53" using assms(2) by simp
  have "CHR ''.'' \<notin> set (show_nat n)" using dig by blast
  then have pf: "parse_float (show_nat n) = Some (Fin (of_int (int n)))"
    using n show_nat_nonempty fround_of_int [of "int n"]
    by (simp add: parse_float_def split_on_single digits_val_show)
  have "f_mul (Fin (of_int (int n))) (f_of_int m) = fround (of_int (int n * m))"
    using m fround_of_int [of m] by (simp add: f_of_int_def)
  also have "\<dots> = Fin (of_int (int n * m))" by (rule fround_of_int) (use m assms(2) in simp_all)
  finally have mul: "f_mul (Fin (of_int (int n))) (f_of_int m) = Fin (of_int (int n * m))" .
  have "0 \<le> int n * m" using m by simp
  then have "f_to_int64 (Fin (of_int (int n * m))) = int n * m"
    using f_to_int64_of_int [of "int n * m"] assms(2) by simp
  then show ?thesis
    using trim num rest tu pf mul assms(1) show_nat_nonempty [of n]
    by (simp add: parseSize_def Let_def float_ok_def)
qed

theorem parse_size_exact_witness: "parseSize ''4MiB'' = Inr 4194304"
proof -
  have "show_nat 4 = ''4''" by code_simp
  moreover have "unit_mult (to_lower ''MiB'') = Some (2 ^ 20)" by code_simp
  ultimately show ?thesis using parse_size_exact [of "''MiB''" "2 ^ 20" 4] by simp
qed

text \<open>A size beyond \<open>int64\<close> is not refused. The parser converts the product to \<open>int64\<close>
  without a range test, so ten million terabytes come back as the smallest \<open>int64\<close>.\<close>

lemma parse_size_overflows: "parseSize ''10000000t'' = Inr (- (2 ^ 63))"
  by code_simp

end
