(* ===== verification/Runner.thy ===== *)
theory Runner
  imports Options Fsx Scan
begin

text \<open>
  The run's state and what a worker does with one file: internal/engine/engine.go, output.go,
  space.go, dirmeta.go and the bookkeeping of move.go. \<open>runner\<close> is the state the goroutines of a run
  share, with the world it acts on; \<open>ctx\<close> is what stays fixed during it. Counters are unbounded here
  (\<open>atomic.Int64\<close> in the code). A printed line keeps its format and arguments unexpanded. The
  directory states, shared by reference in the code, are entries of a list named by their index.
\<close>

subsection \<open>State\<close>

record 'w dir_state =
  dt_fs :: "'w fs"
  dt_src :: string
  dt_dst :: string
  dt_info :: file_info
  dt_pending :: int
  dt_closed :: bool
  dt_queued :: bool

record 'w file_job =
  jb_fs :: "'w fs"
  jb_src :: string
  jb_dst :: string
  jb_info :: file_info
  jb_parent :: "nat option"
  jb_check :: bool
  jb_reason :: string

record hl_primary =
  hp_dst :: string
  hp_adopted :: bool

record 'w link_ent =
  lk_target :: string
  lk_dst :: string
  lk_parent :: "nat option"
  lk_fs :: "'w fs"
  lk_src :: string

record 'w moved_entry =
  mv_fs :: "'w fs"
  mv_src :: string
  mv_dst :: string

record 'w mirror_root =
  mr_fs :: "'w fs"
  mr_dest :: string
  mr_src :: string

datatype out_line = StdoutLine message | StderrLine message

record 'w runner =
  rn_world :: 'w
  rn_files :: int
  rn_dirs :: int
  rn_symlinks :: int
  rn_bytes :: int
  rn_skipped :: int
  rn_failed :: int
  rn_linked :: int
  rn_deleted :: int
  rn_updated :: int
  rn_renamed :: int
  rn_removed :: int
  rn_moved :: int
  rn_total_files :: int
  rn_total_bytes :: int
  rn_meta_total :: int
  rn_meta_done :: int
  rn_dir_states :: "'w dir_state list"
  rn_jobs :: "'w file_job list"
  rn_meta_jobs :: "nat list"
  rn_moved_files :: "'w moved_entry list"
  rn_moved_dirs :: "'w moved_entry list"
  rn_free :: int
  rn_space_check :: bool
  rn_aborted :: "goerr option"
  rn_no_ids_noted :: bool
  rn_on_stack :: "string set"
  rn_hl_map :: "string \<rightharpoonup> hl_primary"
  rn_hardlinks :: "'w link_ent list"
  rn_mirror_roots :: "'w mirror_root list"
  rn_root_dev :: "nat option"
  rn_lines :: "out_line list"
  rn_polls :: nat

text \<open>
  The fixed part: the options, the destination filesystem and target path \<open>resolveTarget\<close> found,
  how a source argument resolves, the copy environment, the hash, \<open>filepath.EvalSymlinks\<close>, and
  what the successive polls of the interrupt context answer.
\<close>

record ('w, 'd) ctx =
  cx_opts :: options
  cx_dfs :: "'w fs"
  cx_target_dir :: string
  cx_target_file :: string
  cx_resolve :: "string \<Rightarrow> goerr + 'w fs \<times> string"
  cx_env :: "'w env"
  cx_hash :: "bytes \<Rightarrow> 'd"
  cx_eval_symlinks :: "'w \<Rightarrow> string \<Rightarrow> goerr + string"
  cx_interrupt :: "nat \<Rightarrow> bool"

definition preserve :: "('w, 'd) ctx \<Rightarrow> bool" where
  "preserve cx = (\<not> op_no_preserve (cx_opts cx))"

abbreviation dry :: "('w, 'd) ctx \<Rightarrow> bool" where
  "dry cx \<equiv> op_dry_run (cx_opts cx)"

definition dst_name :: "('w, 'd) ctx \<Rightarrow> string \<Rightarrow> arg" where
  "dst_name cx p = Str (fs_display (cx_dfs cx) p)"

subsection \<open>Output\<close>

definition stdout_line :: "string \<Rightarrow> arg list \<Rightarrow> 'w runner \<Rightarrow> 'w runner" where
  "stdout_line m a r = r\<lparr>rn_lines := rn_lines r @ [StdoutLine (m, a)]\<rparr>"

definition elog :: "string \<Rightarrow> arg list \<Rightarrow> 'w runner \<Rightarrow> 'w runner" where
  "elog m a r = r\<lparr>rn_lines := rn_lines r @ [StderrLine (m, a)]\<rparr>"

definition warn :: "('w, 'd) ctx \<Rightarrow> string \<Rightarrow> arg list \<Rightarrow> 'w runner \<Rightarrow> 'w runner" where
  "warn cx m a r = (if op_quiet (cx_opts cx) then r else elog (''basicopy: warning: '' @ m) a r)"

definition note_line :: "('w, 'd) ctx \<Rightarrow> string \<Rightarrow> arg list \<Rightarrow> 'w runner \<Rightarrow> 'w runner" where
  "note_line cx m a r = (if op_quiet (cx_opts cx) then r else elog (''basicopy: '' @ m) a r)"

definition verbose :: "('w, 'd) ctx \<Rightarrow> string \<Rightarrow> arg list \<Rightarrow> 'w runner \<Rightarrow> 'w runner" where
  "verbose cx m a r =
     (if \<not> op_verbose (cx_opts cx) \<or> op_json (cx_opts cx) then r else stdout_line m a r)"

definition item :: "('w, 'd) ctx \<Rightarrow> string \<Rightarrow> arg list \<Rightarrow> 'w runner \<Rightarrow> 'w runner" where
  "item cx m a r =
     (if op_quiet (cx_opts cx) \<or> op_json (cx_opts cx) \<or> (\<not> dry cx \<and> \<not> op_verbose (cx_opts cx))
      then r else stdout_line m a r)"

definition would :: "('w, 'd) ctx \<Rightarrow> string" where
  "would cx = (if dry cx then ''would '' else [])"

definition transferVerb :: "('w, 'd) ctx \<Rightarrow> string" where
  "transferVerb cx = (if op_move (cx_opts cx) then ''move'' else ''copy'')"

subsection \<open>Abort and failures\<close>

definition setAbort :: "goerr \<Rightarrow> 'w runner \<Rightarrow> 'w runner" where
  "setAbort err r = (if rn_aborted r = None then r\<lparr>rn_aborted := Some err\<rparr> else r)"

definition fail :: "('w, 'd) ctx \<Rightarrow> goerr \<Rightarrow> 'w runner \<Rightarrow> 'w runner" where
  "fail cx err r =
     (let r = elog ''basicopy: error: %v'' [Err err] (r\<lparr>rn_failed := rn_failed r + 1\<rparr>) in
      if isNoSpace err then setAbort (WrapErr ''destination is out of space'' err) r
      else if op_fatal (cx_opts cx) then setAbort err r
      else r)"

text \<open>\<open>halted\<close>: the context is polled only while the run is not aborted.\<close>

definition halted :: "('w, 'd) ctx \<Rightarrow> 'w runner \<Rightarrow> bool" where
  "halted cx r \<longleftrightarrow> rn_aborted r \<noteq> None \<or> cx_interrupt cx (rn_polls r)"

definition polled_ctx :: "'w runner \<Rightarrow> 'w runner" where
  "polled_ctx r = (if rn_aborted r \<noteq> None then r else r\<lparr>rn_polls := Suc (rn_polls r)\<rparr>)"

subsection \<open>Free space\<close>

definition initSpaceGuard :: "('w, 'd) ctx \<Rightarrow> string \<Rightarrow> 'w runner \<Rightarrow> 'w runner" where
  "initSpaceGuard cx dir r =
     (if dry cx \<or> rn_space_check r then r
      else (case fs_avail (cx_dfs cx) (rn_world r) dir of
              Some avail \<Rightarrow> r\<lparr>rn_free := avail, rn_space_check := True\<rparr>
            | None \<Rightarrow> r))"

definition reserveSpace :: "('w, 'd) ctx \<Rightarrow> string \<Rightarrow> int \<Rightarrow> 'w runner \<Rightarrow> bool \<times> 'w runner" where
  "reserveSpace cx dstPath need r =
     (if \<not> rn_space_check r then (True, r)
      else
        (let r = r\<lparr>rn_free := rn_free r - need\<rparr> in
         if rn_free r \<ge> 0 then (True, r)
         else (case fs_avail (cx_dfs cx) (rn_world r) (fs_dir (cx_dfs cx) dstPath) of
                 None \<Rightarrow> (True, r)
               | Some avail \<Rightarrow>
                   (let r = r\<lparr>rn_free := avail - need\<rparr> in
                    if avail < need
                    then (False,
                          setAbort (NewErr ''destination is out of space'' [])
                            (elog ''basicopy: destination is out of space: %s needs %s but only %s is free''
                               [dst_name cx dstPath, Num need, Num avail] r))
                    else (True, r)))))"

subsection \<open>Directory metadata\<close>

definition newDirState ::
  "('w, 'd) ctx \<Rightarrow> 'w fs \<Rightarrow> string \<Rightarrow> string \<Rightarrow> file_info \<Rightarrow> 'w runner \<Rightarrow> nat option \<times> 'w runner" where
  "newDirState cx srcFS src dst info r =
     (if dry cx \<or> \<not> preserve cx then (None, r)
      else
        (Some (length (rn_dir_states r)),
         r\<lparr>rn_meta_total := rn_meta_total r + 1,
           rn_dir_states := rn_dir_states r @
             [\<lparr>dt_fs = srcFS, dt_src = src, dt_dst = dst, dt_info = info, dt_pending = 0,
               dt_closed = False, dt_queued = False\<rparr>]\<rparr>))"

definition upd_dir :: "nat \<Rightarrow> ('w dir_state \<Rightarrow> 'w dir_state) \<Rightarrow> 'w runner \<Rightarrow> 'w runner" where
  "upd_dir d g r = r\<lparr>rn_dir_states := (rn_dir_states r)[d := g (rn_dir_states r ! d)]\<rparr>"

definition addDirWork :: "nat option \<Rightarrow> 'w runner \<Rightarrow> 'w runner" where
  "addDirWork d r =
     (case d of None \<Rightarrow> r | Some d \<Rightarrow> upd_dir d (\<lambda>s. s\<lparr>dt_pending := dt_pending s + 1\<rparr>) r)"

definition queueDirMeta :: "nat \<Rightarrow> 'w runner \<Rightarrow> 'w runner" where
  "queueDirMeta d r =
     (if dt_queued (rn_dir_states r ! d) then r
      else (let r = upd_dir d (\<lambda>s. s\<lparr>dt_queued := True\<rparr>) r in r\<lparr>rn_meta_jobs := rn_meta_jobs r @ [d]\<rparr>))"

definition completeDirWork :: "nat option \<Rightarrow> 'w runner \<Rightarrow> 'w runner" where
  "completeDirWork d r =
     (case d of
        None \<Rightarrow> r
      | Some d \<Rightarrow>
          (let r = upd_dir d (\<lambda>s. s\<lparr>dt_pending := dt_pending s - 1\<rparr>) r in
           if dt_pending (rn_dir_states r ! d) = 0 \<and> dt_closed (rn_dir_states r ! d)
           then queueDirMeta d r else r))"

definition closeDir :: "nat option \<Rightarrow> 'w runner \<Rightarrow> 'w runner" where
  "closeDir d r =
     (case d of
        None \<Rightarrow> r
      | Some d \<Rightarrow>
          (let r = upd_dir d (\<lambda>s. s\<lparr>dt_closed := True\<rparr>) r in
           if dt_pending (rn_dir_states r ! d) = 0 then queueDirMeta d r else r))"

text \<open>One round of \<open>metadataWorker\<close>.\<close>

definition apply_dir_meta :: "('w, 'd) ctx \<Rightarrow> nat \<Rightarrow> 'w runner \<Rightarrow> 'w runner" where
  "apply_dir_meta cx d r =
     (let s = rn_dir_states r ! d;
          (err, w) = applyMeta (cx_env cx) (dt_fs s) (dt_src s) (cx_dfs cx) (dt_dst s) (Some (dt_info s))
                       (preserve cx) (rn_world r);
          r = r\<lparr>rn_world := w\<rparr>;
          r = (case err of
                 Some e \<Rightarrow> warn cx ''metadata on %s: %v'' [dst_name cx (dt_dst s), Err e] r
               | None \<Rightarrow> r)
      in r\<lparr>rn_meta_done := rn_meta_done r + 1\<rparr>)"

fun drain_meta :: "('w, 'd) ctx \<Rightarrow> nat list \<Rightarrow> 'w runner \<Rightarrow> 'w runner" where
  "drain_meta cx [] r = r"
| "drain_meta cx (d # ds) r = drain_meta cx ds (apply_dir_meta cx d r)"

definition metadataWorker :: "('w, 'd) ctx \<Rightarrow> 'w runner \<Rightarrow> 'w runner" where
  "metadataWorker cx r = drain_meta cx (rn_meta_jobs r) (r\<lparr>rn_meta_jobs := []\<rparr>)"

subsection \<open>Sources to remove\<close>

definition moveSource :: "('w, 'd) ctx \<Rightarrow> 'w fs \<Rightarrow> string \<Rightarrow> string \<Rightarrow> 'w runner \<Rightarrow> 'w runner" where
  "moveSource cx srcFS src dst r =
     (if \<not> op_move (cx_opts cx) \<or> dry cx then r
      else r\<lparr>rn_moved_files := rn_moved_files r @ [\<lparr>mv_fs = srcFS, mv_src = src, mv_dst = dst\<rparr>]\<rparr>)"

definition moveUnchanged :: "('w, 'd) ctx \<Rightarrow> 'w fs \<Rightarrow> string \<Rightarrow> string \<Rightarrow> 'w runner \<Rightarrow> 'w runner" where
  "moveUnchanged cx srcFS src dst r =
     (if \<not> op_move (cx_opts cx) then r
      else moveSource cx srcFS src dst
             (item cx ''%sremove source %s (unchanged at %s)''
                [Str (would cx), Str (fs_display srcFS src), dst_name cx dst] r))"

subsection \<open>One file\<close>

text \<open>\<open>%04o\<close> of a permission: at most nine bits.\<close>

definition oct_digit :: "filemode \<Rightarrow> nat \<Rightarrow> char" where
  "oct_digit m k = char_of (48 + unat (drop_bit (3 * k) m AND 7))"

definition show_perm :: "filemode \<Rightarrow> string" where
  "show_perm m = ''0'' @ [oct_digit m 2, oct_digit m 1, oct_digit m 0]"

definition attrDiff :: "file_info \<Rightarrow> verdict \<Rightarrow> string" where
  "attrDiff srcInfo v =
     (let mode = (case vd_dst_info v of
                    Some di \<Rightarrow>
                      if vd_mode_diff v
                      then [''mode '' @ show_perm (mode_perm (fi_mode di)) @ '' -> '' @
                            show_perm (mode_perm (fi_mode srcInfo))]
                      else []
                  | None \<Rightarrow> []);
          owner = (if vd_owner_diff v
                   then [''owner '' @ show_int (vd_dst_uid v) @ '':'' @ show_int (vd_dst_gid v) @ '' -> '' @
                         show_int (vd_src_uid v) @ '':'' @ show_int (vd_src_gid v)]
                   else []);
          mtime = (if vd_time_diff v then [''mtime''] else [])
      in join_with '', '' (mode @ owner @ mtime))"

definition sync_unchanged ::
  "('w, 'd) ctx \<Rightarrow> 'w fs \<Rightarrow> string \<Rightarrow> file_info \<Rightarrow> verdict \<Rightarrow> 'w runner \<Rightarrow> 'w runner" where
  "sync_unchanged cx srcFS dstPath srcInfo v r =
     (if dry cx then r
      else
        (let (err, w) = syncAttrs srcFS srcInfo (cx_dfs cx) dstPath (vd_mode_diff v) (vd_owner_diff v)
                          (vd_time_diff v) (rn_world r);
             r = r\<lparr>rn_world := w\<rparr>
         in case err of
              Some e \<Rightarrow> warn cx ''metadata on %s: %v'' [dst_name cx dstPath, Err e] r
            | None \<Rightarrow> r))"

definition finishUnchangedFile ::
  "('w, 'd) ctx \<Rightarrow> 'w fs \<Rightarrow> string \<Rightarrow> string \<Rightarrow> file_info \<Rightarrow> verdict \<Rightarrow> 'w runner \<Rightarrow> 'w runner" where
  "finishUnchangedFile cx srcFS srcPath dstPath srcInfo v r =
     moveUnchanged cx srcFS srcPath dstPath
       (let diff = attrDiff srcInfo v in
        if preserve cx \<and> diff \<noteq> []
        then
          (let r = sync_unchanged cx srcFS dstPath srcInfo v r;
               r = r\<lparr>rn_updated := rn_updated r + 1\<rparr>
           in item cx ''%supdate %s (%s)'' [Str (would cx), dst_name cx dstPath, Str diff] r)
        else
          verbose cx ''skip unchanged %s'' [dst_name cx dstPath] (r\<lparr>rn_skipped := rn_skipped r + 1\<rparr>))"

definition maxRetries :: nat where
  "maxRetries = 3"

text \<open>The options of a copy: its cancellation poll asks whether the run has aborted. In the order of Engine no other worker can abort the
  run during a copy, so the answer is the one at its start; CopySpec proves copying for any answers.\<close>

definition copy_options :: "('w, 'd) ctx \<Rightarrow> 'w runner \<Rightarrow> copy_opts" where
  "copy_options cx r =
     \<lparr>co_preserve = preserve cx, co_fsync = op_fsync (cx_opts cx), co_buf_size = op_buffer_size (cx_opts cx),
      co_cancel = (\<lambda>_. rn_aborted r \<noteq> None)\<rparr>"

definition copy_once ::
  "('w, 'd) ctx \<Rightarrow> 'w file_job \<Rightarrow> 'w runner \<Rightarrow> (int \<times> goerr option) \<times> 'w runner" where
  "copy_once cx job r =
     (let (res, s) = copyFile (cx_env cx) (jb_fs job) (jb_src job) (cx_dfs cx) (jb_dst job) (Some (jb_info job))
                       (copy_options cx r) \<lparr>cs_world = rn_world r, cs_moved = 0, cs_polls = 0\<rparr>
      in (res, r\<lparr>rn_world := cs_world s, rn_moved := rn_moved r + cs_moved s\<rparr>))"

text \<open>The retry loop; the argument is the number of retries left.\<close>

fun copy_attempts ::
  "('w, 'd) ctx \<Rightarrow> 'w file_job \<Rightarrow> nat \<Rightarrow> 'w runner \<Rightarrow> (int \<times> goerr option) \<times> 'w runner" where
  "copy_attempts cx job 0 r = copy_once cx job r"
| "copy_attempts cx job (Suc left) r =
     (let ((n, err), r) = copy_once cx job r in
      if err = None \<or> isMetaErr err \<or> \<not> retryable err \<or> rn_aborted r \<noteq> None then ((n, err), r)
      else copy_attempts cx job left r)"

text \<open>The end of \<open>copyOne\<close>: what a finished copy is counted as.\<close>

definition record_copy ::
  "('w, 'd) ctx \<Rightarrow> 'w file_job \<Rightarrow> string \<Rightarrow> int \<Rightarrow> goerr option \<Rightarrow> 'w runner \<Rightarrow> 'w runner" where
  "record_copy cx job reason n err r =
     (let r = (if isMetaErr err then warn cx ''%v'' [Err (the err)] r else r);
          err = (if isMetaErr err then None else err)
      in case err of
           Some e \<Rightarrow> if err_is e (Sentinel ErrCanceled) then r else fail cx e r
         | None \<Rightarrow>
             moveSource cx (jb_fs job) (jb_src job) (jb_dst job)
               (item cx ''%s %s (%s)'' [Str (transferVerb cx), dst_name cx (jb_dst job), Str reason]
                  (r\<lparr>rn_files := rn_files r + 1, rn_bytes := rn_bytes r + n\<rparr>)))"

definition copyOne :: "('w, 'd) ctx \<Rightarrow> 'w file_job \<Rightarrow> 'w runner \<Rightarrow> 'w runner" where
  "copyOne cx job r =
     (let v = compare (cx_hash cx) (jb_fs job) (jb_src job) (jb_info job) (cx_dfs cx) (jb_dst job)
                (op_checksum (cx_opts cx)) (rn_world r);
          size' = fi_size (jb_info job)
      in if jb_check job \<and> \<not> vd_need_copy v
         then finishUnchangedFile cx (jb_fs job) (jb_src job) (jb_dst job) (jb_info job) v
                (r\<lparr>rn_total_files := rn_total_files r - 1, rn_total_bytes := rn_total_bytes r - size'\<rparr>)
         else
           (let reason = (if jb_check job then vd_reason v else jb_reason job);
                (ok, r) = reserveSpace cx (jb_dst job) size' r
            in if \<not> ok then r
               else (let ((n, err), r) = copy_attempts cx job maxRetries r in record_copy cx job reason n err r)))"

text \<open>One round of \<open>worker\<close>, and the queue drained.\<close>

definition work_one :: "('w, 'd) ctx \<Rightarrow> 'w file_job \<Rightarrow> 'w runner \<Rightarrow> 'w runner" where
  "work_one cx job r =
     completeDirWork (jb_parent job) (if rn_aborted r \<noteq> None then r else copyOne cx job r)"

fun drain_jobs :: "('w, 'd) ctx \<Rightarrow> 'w file_job list \<Rightarrow> 'w runner \<Rightarrow> 'w runner" where
  "drain_jobs cx [] r = r"
| "drain_jobs cx (j # js) r = drain_jobs cx js (work_one cx j r)"

definition worker :: "('w, 'd) ctx \<Rightarrow> 'w runner \<Rightarrow> 'w runner" where
  "worker cx r = drain_jobs cx (rn_jobs r) (r\<lparr>rn_jobs := []\<rparr>)"

end
