(* ===== verification/Walk.thy ===== *)
theory Walk
  imports Runner
begin

text \<open>
  The walk, internal/engine/walk.go and hardlink.go, with the root renames of move.go: resolving
  the destination of each source, the visit of directories, symbolic links and files, exclude and
  include matching, and hard links. The recursion into a directory is the argument \<open>vis\<close> of the
  handlers; \<open>visit\<close> closes it with fuel, the depth of directories it may enter, and is \<open>None\<close> when
  that runs out. The listing prefetcher only reads ahead, so a listing here is taken when it is
  needed; symbolic link targets are resolved as \<open>os.Readlink\<close> gives them.
\<close>

record 'w src_root =
  sr_fs :: "'w fs"
  sr_root_abs :: string
  sr_keep :: string

type_synonym 'w visitor =
  "'w src_root \<Rightarrow> string \<Rightarrow> string \<Rightarrow> file_info \<Rightarrow> nat option \<Rightarrow> 'w runner \<Rightarrow> 'w runner option"

subsection \<open>Containment and exclusion\<close>

definition withinRoot :: "'w fs \<Rightarrow> string \<Rightarrow> string \<Rightarrow> bool" where
  "withinRoot fsys rootAbs targetAbs =
     (case fs_rel fsys rootAbs targetAbs of
        Inl e \<Rightarrow> False
      | Inr rel \<Rightarrow> if rel = ''.'' then True else rel \<noteq> ''..'' \<and> \<not> has_prefix rel (''..'' @ fs_sep fsys))"

definition matchGlob :: "'w fs \<Rightarrow> string \<Rightarrow> string \<Rightarrow> bool" where
  "matchGlob fsys pattern name = (case fs_match fsys pattern name of Inl e \<Rightarrow> False | Inr ok \<Rightarrow> ok)"

definition matchEntry :: "'w fs \<Rightarrow> string \<Rightarrow> string \<Rightarrow> string \<Rightarrow> bool \<Rightarrow> bool" where
  "matchEntry fsys pattern rel base isDir =
     (let trimmed = trim_right_char (CHR ''/'') pattern in
      if trimmed \<noteq> pattern \<and> (\<not> isDir \<or> trimmed = []) then False
      else matchGlob fsys trimmed rel \<or> matchGlob fsys trimmed base)"

definition excluded :: "('w, 'd) ctx \<Rightarrow> 'w src_root \<Rightarrow> string \<Rightarrow> bool \<Rightarrow> bool" where
  "excluded cx rt srcPath isDir =
     (if op_exclude (cx_opts cx) = [] \<and> op_include (cx_opts cx) = [] then False
      else
        (let base = fs_base (sr_fs rt) srcPath;
             rel = (case fs_abs (sr_fs rt) srcPath of
                      Inl e \<Rightarrow> base
                    | Inr ap \<Rightarrow>
                        (case fs_rel (sr_fs rt) (sr_root_abs rt) ap of Inl e \<Rightarrow> base | Inr rp \<Rightarrow> rp))
         in if list_ex (\<lambda>inc. matchEntry (sr_fs rt) inc rel base isDir) (op_include (cx_opts cx)) then False
            else list_ex (\<lambda>exc. matchEntry (sr_fs rt) exc rel base isDir) (op_exclude (cx_opts cx))))"

subsection \<open>Files\<close>

definition enqueueFile ::
  "('w, 'd) ctx \<Rightarrow> 'w src_root \<Rightarrow> string \<Rightarrow> string \<Rightarrow> file_info \<Rightarrow> nat option \<Rightarrow> bool \<Rightarrow> string \<Rightarrow>
     'w runner \<Rightarrow> 'w runner" where
  "enqueueFile cx rt srcPath dstPath fi parent checkUnchanged reason r =
     (let r = r\<lparr>rn_total_files := rn_total_files r + 1, rn_total_bytes := rn_total_bytes r + fi_size fi\<rparr> in
      if dry cx
      then item cx ''would %s %s (%s)'' [Str (transferVerb cx), dst_name cx dstPath, Str reason]
             (r\<lparr>rn_files := rn_files r + 1, rn_bytes := rn_bytes r + fi_size fi\<rparr>)
      else
        (let r = addDirWork parent r in
         r\<lparr>rn_jobs := rn_jobs r @
             [\<lparr>jb_fs = sr_fs rt, jb_src = srcPath, jb_dst = dstPath, jb_info = fi, jb_parent = parent,
               jb_check = checkUnchanged, jb_reason = reason\<rparr>]\<rparr>))"

definition noteNoFileIDs :: "('w, 'd) ctx \<Rightarrow> 'w fs \<Rightarrow> 'w runner \<Rightarrow> 'w runner" where
  "noteNoFileIDs cx fsys r =
     (if rn_no_ids_noted r \<or> fs_local fsys then r
      else verbose cx ''%s: SSH exposes no inode identity; hardlinks in the source cannot be detected''
             [Str (fs_host fsys)] (r\<lparr>rn_no_ids_noted := True\<rparr>))"

definition sameDestFile :: "('w, 'd) ctx \<Rightarrow> 'w \<Rightarrow> string \<Rightarrow> string \<Rightarrow> bool" where
  "sameDestFile cx w a b =
     (case fs_lstat (cx_dfs cx) w a of
        Inl e \<Rightarrow> False
      | Inr fa \<Rightarrow>
          (case fs_lstat (cx_dfs cx) w b of
             Inl e \<Rightarrow> False
           | Inr fb \<Rightarrow> fs_same_file (cx_dfs cx) fa fb))"

definition source_verdict ::
  "('w, 'd) ctx \<Rightarrow> 'w src_root \<Rightarrow> string \<Rightarrow> string \<Rightarrow> file_info \<Rightarrow> 'w runner \<Rightarrow> verdict" where
  "source_verdict cx rt srcPath dstPath fi r =
     compare (cx_hash cx) (sr_fs rt) srcPath fi (cx_dfs cx) dstPath (op_checksum (cx_opts cx)) (rn_world r)"

definition handleMultiLink ::
  "('w, 'd) ctx \<Rightarrow> 'w src_root \<Rightarrow> string \<Rightarrow> string \<Rightarrow> file_info \<Rightarrow> nat option \<Rightarrow> string \<Rightarrow>
     'w runner \<Rightarrow> 'w runner" where
  "handleMultiLink cx rt srcPath dstPath fi parent key r =
     (case rn_hl_map r key of
        Some p \<Rightarrow>
          if hp_adopted p \<and> sameDestFile cx (rn_world r) (hp_dst p) dstPath
          then moveUnchanged cx (sr_fs rt) srcPath dstPath
                 (verbose cx ''skip unchanged %s'' [dst_name cx dstPath] (r\<lparr>rn_skipped := rn_skipped r + 1\<rparr>))
          else
            (let r = addDirWork parent r in
             r\<lparr>rn_hardlinks := rn_hardlinks r @
                 [\<lparr>lk_target = hp_dst p, lk_dst = dstPath, lk_parent = parent, lk_fs = sr_fs rt,
                   lk_src = srcPath\<rparr>]\<rparr>)
      | None \<Rightarrow>
          (let v = source_verdict cx rt srcPath dstPath fi r in
           if \<not> vd_need_copy v
           then finishUnchangedFile cx (sr_fs rt) srcPath dstPath fi v
                  (r\<lparr>rn_hl_map := (rn_hl_map r)(key \<mapsto> \<lparr>hp_dst = dstPath, hp_adopted = True\<rparr>)\<rparr>)
           else enqueueFile cx rt srcPath dstPath fi parent False (vd_reason v)
                  (r\<lparr>rn_hl_map := (rn_hl_map r)(key \<mapsto> \<lparr>hp_dst = dstPath, hp_adopted = False\<rparr>)\<rparr>)))"

definition handle_single ::
  "('w, 'd) ctx \<Rightarrow> 'w src_root \<Rightarrow> string \<Rightarrow> string \<Rightarrow> file_info \<Rightarrow> nat option \<Rightarrow> 'w runner \<Rightarrow> 'w runner" where
  "handle_single cx rt srcPath dstPath fi parent r =
     (if dry cx
      then
        (let v = source_verdict cx rt srcPath dstPath fi r in
         if \<not> vd_need_copy v then finishUnchangedFile cx (sr_fs rt) srcPath dstPath fi v r
         else enqueueFile cx rt srcPath dstPath fi parent False (vd_reason v) r)
      else enqueueFile cx rt srcPath dstPath fi parent True [] r)"

definition handleRegular ::
  "('w, 'd) ctx \<Rightarrow> 'w src_root \<Rightarrow> string \<Rightarrow> string \<Rightarrow> file_info \<Rightarrow> nat option \<Rightarrow> 'w runner \<Rightarrow> 'w runner" where
  "handleRegular cx rt srcPath dstPath fi parent r =
     (if op_no_hardlinks (cx_opts cx) then handle_single cx rt srcPath dstPath fi parent r
      else
        (case fs_file_id (sr_fs rt) fi of
           None \<Rightarrow> handle_single cx rt srcPath dstPath fi parent (noteNoFileIDs cx (sr_fs rt) r)
         | Some (key, nlink) \<Rightarrow>
             if nlink > 1 then handleMultiLink cx rt srcPath dstPath fi parent key r
             else handle_single cx rt srcPath dstPath fi parent r))"

text \<open>\<open>applyHardlinks\<close>: the deferred links, after all copies.\<close>

definition apply_link :: "('w, 'd) ctx \<Rightarrow> 'w link_ent \<Rightarrow> 'w runner \<Rightarrow> 'w runner" where
  "apply_link cx l r =
     (if rn_aborted r \<noteq> None then completeDirWork (lk_parent l) r
      else if dry cx
      then item cx ''would hardlink %s => %s'' [dst_name cx (lk_dst l), dst_name cx (lk_target l)]
             (r\<lparr>rn_linked := rn_linked r + 1\<rparr>)
      else
        (let w = snd (fs_remove (cx_dfs cx) (lk_dst l) (rn_world r));
             (err, w) = fs_link (cx_dfs cx) (lk_target l) (lk_dst l) w;
             r = r\<lparr>rn_world := w\<rparr>
         in case err of
              Some e \<Rightarrow>
                completeDirWork (lk_parent l)
                  (fail cx (WrapErr (''hardlink '' @ fs_display (cx_dfs cx) (lk_dst l) @ '' -> '' @
                                     fs_display (cx_dfs cx) (lk_target l)) e) r)
            | None \<Rightarrow>
                completeDirWork (lk_parent l)
                  (moveSource cx (lk_fs l) (lk_src l) (lk_dst l)
                     (item cx ''%s => %s (hardlink)'' [dst_name cx (lk_dst l), dst_name cx (lk_target l)]
                        (r\<lparr>rn_linked := rn_linked r + 1\<rparr>)))))"

fun applyHardlinks :: "('w, 'd) ctx \<Rightarrow> 'w link_ent list \<Rightarrow> 'w runner \<Rightarrow> 'w runner" where
  "applyHardlinks cx [] r = r"
| "applyHardlinks cx (l # ls) r = applyHardlinks cx ls (apply_link cx l r)"

subsection \<open>Symbolic links\<close>

definition recreateSymlink ::
  "('w, 'd) ctx \<Rightarrow> 'w src_root \<Rightarrow> string \<Rightarrow> string \<Rightarrow> string \<Rightarrow> file_info \<Rightarrow> 'w runner \<Rightarrow> 'w runner" where
  "recreateSymlink cx rt srcPath target dstPath fi r =
     (if fs_readlink (cx_dfs cx) (rn_world r) dstPath = Inr target
      then moveSource cx (sr_fs rt) srcPath dstPath
             (verbose cx ''skip unchanged %s'' [dst_name cx dstPath] (r\<lparr>rn_skipped := rn_skipped r + 1\<rparr>))
      else if dry cx
      then item cx ''would link %s -> %s'' [dst_name cx dstPath, Str target] (r\<lparr>rn_symlinks := rn_symlinks r + 1\<rparr>)
      else
        (let w = snd (fs_remove (cx_dfs cx) dstPath (rn_world r));
             (err, w) = fs_symlink (cx_dfs cx) target dstPath w;
             r = r\<lparr>rn_world := w\<rparr>
         in case err of
              Some e \<Rightarrow> fail cx (WrapErr (''symlink '' @ fs_display (cx_dfs cx) dstPath) e) r
            | None \<Rightarrow>
                (let (merr, w) = applyMeta (cx_env cx) (sr_fs rt) srcPath (cx_dfs cx) dstPath (Some fi)
                                   (preserve cx) (rn_world r);
                     r = r\<lparr>rn_world := w\<rparr>;
                     r = (case merr of
                            Some e \<Rightarrow> warn cx ''metadata on %s: %v'' [dst_name cx dstPath, Err e] r
                          | None \<Rightarrow> r)
                 in moveSource cx (sr_fs rt) srcPath dstPath
                      (item cx ''link %s -> %s'' [dst_name cx dstPath, Str target]
                         (r\<lparr>rn_symlinks := rn_symlinks r + 1\<rparr>)))))"

definition canonicalDir :: "('w, 'd) ctx \<Rightarrow> 'w fs \<Rightarrow> 'w \<Rightarrow> string \<Rightarrow> string \<Rightarrow> goerr + string" where
  "canonicalDir cx fsys w srcPath targetAbs =
     (if fs_local fsys then cx_eval_symlinks cx w srcPath else Inr targetAbs)"

text \<open>The absolute path a link's target names.\<close>

definition target_abs :: "'w fs \<Rightarrow> string \<Rightarrow> string \<Rightarrow> string" where
  "target_abs fsys srcPath target =
     (let t = fs_clean fsys (if fs_is_abs fsys target then target
                             else fs_join fsys (fs_dir fsys srcPath) target)
      in case fs_abs fsys t of Inl e \<Rightarrow> t | Inr ap \<Rightarrow> ap)"

subsection \<open>Directories\<close>

definition noteDirChange ::
  "('w, 'd) ctx \<Rightarrow> 'w src_root \<Rightarrow> string \<Rightarrow> file_info \<Rightarrow> 'w runner \<Rightarrow> 'w runner" where
  "noteDirChange cx rt dstDir fi r =
     (if \<not> dry cx \<and> \<not> op_verbose (cx_opts cx) then r
      else
        (let missing = item cx ''%smkdir %s'' [Str (would cx), dst_name cx dstDir] r in
         case fs_lstat (cx_dfs cx) (rn_world r) dstDir of
           Inl e \<Rightarrow> missing
         | Inr di \<Rightarrow>
             if \<not> is_dir (fi_mode di) then missing
             else if \<not> preserve cx then r
             else
               (let diff = attrDiff fi (compareAttrs (sr_fs rt) fi (cx_dfs cx) di) in
                if diff \<noteq> []
                then item cx ''%supdate %s (%s)'' [Str (would cx), dst_name cx dstDir, Str diff]
                       (r\<lparr>rn_updated := rn_updated r + 1\<rparr>)
                else r)))"

definition moveDir :: "('w, 'd) ctx \<Rightarrow> 'w src_root \<Rightarrow> string \<Rightarrow> string \<Rightarrow> 'w runner \<Rightarrow> 'w runner" where
  "moveDir cx rt src dst r =
     (if \<not> op_move (cx_opts cx) \<or> dry cx \<or> src = sr_keep rt then r
      else r\<lparr>rn_moved_dirs := rn_moved_dirs r @ [\<lparr>mv_fs = sr_fs rt, mv_src = src, mv_dst = dst\<rparr>]\<rparr>)"

text \<open>The loop over a directory's entries: whether every child was visited, and the state.\<close>

fun visit_entries ::
  "('w, 'd) ctx \<Rightarrow> 'w visitor \<Rightarrow> 'w src_root \<Rightarrow> string \<Rightarrow> string \<Rightarrow> nat option \<Rightarrow> file_info list \<Rightarrow>
     'w runner \<Rightarrow> (bool \<times> 'w runner) option" where
  "visit_entries cx vis rt srcDir dstDir state [] r = Some (True, r)"
| "visit_entries cx vis rt srcDir dstDir state (cfi # rest) r =
     (if halted cx r then Some (False, polled_ctx r)
      else
        (case vis rt (fs_join (sr_fs rt) srcDir (fi_name cfi)) (fs_join (cx_dfs cx) dstDir (fi_name cfi))
                cfi state (polled_ctx r) of
           None \<Rightarrow> None
         | Some r \<Rightarrow> visit_entries cx vis rt srcDir dstDir state rest r))"

definition make_dir :: "('w, 'd) ctx \<Rightarrow> string \<Rightarrow> 'w runner \<Rightarrow> goerr option \<times> 'w runner" where
  "make_dir cx dstDir r =
     (if dry cx then (None, r)
      else (let (err, w) = fs_mkdir_all (cx_dfs cx) dstDir 0x1FF (rn_world r) in (err, r\<lparr>rn_world := w\<rparr>)))"

text \<open>The directory is listed here, after a poll; a listing that was read ahead (Prefetch) saves the code both.\<close>

definition visitDir ::
  "('w, 'd) ctx \<Rightarrow> 'w visitor \<Rightarrow> 'w src_root \<Rightarrow> string \<Rightarrow> string \<Rightarrow> file_info \<Rightarrow> 'w runner \<Rightarrow> 'w runner option" where
  "visitDir cx vis rt srcDir dstDir fi r =
     (let (err, r) = make_dir cx dstDir (noteDirChange cx rt dstDir fi r) in
      case err of
        Some e \<Rightarrow> Some (fail cx (WrapErr (''mkdir '' @ fs_display (cx_dfs cx) dstDir) e) r)
      | None \<Rightarrow>
          if halted cx r then Some (polled_ctx r)
          else
            (let r = polled_ctx r in
             case fs_read_dir (sr_fs rt) (rn_world r) srcDir of
               Inl e \<Rightarrow> Some (fail cx (WrapErr (''read dir '' @ fs_display (sr_fs rt) srcDir) e) r)
             | Inr entries \<Rightarrow>
                 (let (state, r) = newDirState cx (sr_fs rt) srcDir dstDir fi r;
                      r = r\<lparr>rn_dirs := rn_dirs r + 1\<rparr>
                  in case visit_entries cx vis rt srcDir dstDir state entries r of
                       None \<Rightarrow> None
                     | Some (all, r) \<Rightarrow>
                         Some (closeDir state (if all then moveDir cx rt srcDir dstDir r else r)))))"

definition follow_dir ::
  "('w, 'd) ctx \<Rightarrow> 'w visitor \<Rightarrow> 'w src_root \<Rightarrow> string \<Rightarrow> string \<Rightarrow> file_info \<Rightarrow> string \<Rightarrow>
     'w runner \<Rightarrow> 'w runner option" where
  "follow_dir cx vis rt srcPath dstPath tfi targetAbs r =
     (case canonicalDir cx (sr_fs rt) (rn_world r) srcPath targetAbs of
        Inl e \<Rightarrow> Some (fail cx e r)
      | Inr canon \<Rightarrow>
          (let key = fs_display (sr_fs rt) canon in
           if key \<in> rn_on_stack r
           then
             (let r = warn cx ''symlink loop at %s (skipped)'' [Str (fs_display (sr_fs rt) srcPath)] r in
              Some (r\<lparr>rn_skipped := rn_skipped r + 1\<rparr>))
           else
             (case visitDir cx vis rt srcPath dstPath tfi (r\<lparr>rn_on_stack := insert key (rn_on_stack r)\<rparr>) of
                None \<Rightarrow> None
              | Some r \<Rightarrow> Some (r\<lparr>rn_on_stack := rn_on_stack r - {key}\<rparr>))))"

definition visitSymlink ::
  "('w, 'd) ctx \<Rightarrow> 'w visitor \<Rightarrow> 'w src_root \<Rightarrow> string \<Rightarrow> string \<Rightarrow> file_info \<Rightarrow> nat option \<Rightarrow>
     'w runner \<Rightarrow> 'w runner option" where
  "visitSymlink cx vis rt srcPath dstPath fi parent r =
     (let sfs = sr_fs rt in
      case fs_readlink sfs (rn_world r) srcPath of
        Inl e \<Rightarrow> Some (fail cx e r)
      | Inr target \<Rightarrow>
          if op_no_follow (cx_opts cx) \<or> op_move (cx_opts cx)
          then Some (recreateSymlink cx rt srcPath target dstPath fi r)
          else
            (let targetAbs = target_abs sfs srcPath target in
             case fs_stat sfs (rn_world r) srcPath of
               Inl e \<Rightarrow>
                 Some (recreateSymlink cx rt srcPath target dstPath fi
                   (warn cx ''dangling symlink %s -> %s (kept as link)'' [Str (fs_display sfs srcPath), Str target] r))
             | Inr tfi \<Rightarrow>
                 if \<not> withinRoot sfs (sr_root_abs rt) targetAbs
                 then
                   Some (recreateSymlink cx rt srcPath target dstPath fi
                     (if op_no_symlink_warn (cx_opts cx) then r
                      else warn cx ''symlink %s -> %s points outside the source tree (kept as link)''
                             [Str (fs_display sfs srcPath), Str target] r))
                 else if is_dir (fi_mode tfi) then follow_dir cx vis rt srcPath dstPath tfi targetAbs r
                 else if is_regular (fi_mode tfi) then Some (handleRegular cx rt srcPath dstPath tfi parent r)
                 else
                   (let r = note_line cx ''skipping special symlink target %s'' [Str (fs_display sfs srcPath)] r in
                    Some (r\<lparr>rn_skipped := rn_skipped r + 1\<rparr>))))"

text \<open>\<open>--one-file-system\<close>: is this directory on another device than the source root.\<close>

definition other_device :: "('w, 'd) ctx \<Rightarrow> 'w src_root \<Rightarrow> file_info \<Rightarrow> 'w runner \<Rightarrow> bool" where
  "other_device cx rt fi r \<longleftrightarrow>
     op_one_fs (cx_opts cx) \<and>
     (case rn_root_dev r of
        None \<Rightarrow> False
      | Some rd \<Rightarrow> (case fs_dev (sr_fs rt) fi of None \<Rightarrow> False | Some dev \<Rightarrow> dev \<noteq> rd))"

definition skip_entry :: "('w, 'd) ctx \<Rightarrow> string \<Rightarrow> 'w src_root \<Rightarrow> string \<Rightarrow> 'w runner \<Rightarrow> 'w runner" where
  "skip_entry cx msg rt srcPath r =
     (let r = note_line cx msg [Str (fs_display (sr_fs rt) srcPath)] r in
      r\<lparr>rn_skipped := rn_skipped r + 1\<rparr>)"

definition visit_step :: "('w, 'd) ctx \<Rightarrow> 'w visitor \<Rightarrow> 'w visitor" where
  "visit_step cx vis rt srcPath dstPath fi parent r =
     (if halted cx r then Some (polled_ctx r)
      else
        (let r = polled_ctx r; mode = fi_mode fi in
         if excluded cx rt srcPath (is_dir mode)
         then Some (verbose cx ''exclude %s'' [Str (fs_display (sr_fs rt) srcPath)] r)
         else if is_symlink mode then visitSymlink cx vis rt srcPath dstPath fi parent r
         else if is_dir mode
         then (if other_device cx rt fi r
               then Some (skip_entry cx ''skipping mount point %s'' rt srcPath r)
               else visitDir cx vis rt srcPath dstPath fi r)
         else if is_regular mode then Some (handleRegular cx rt srcPath dstPath fi parent r)
         else Some (skip_entry cx ''skipping special file %s'' rt srcPath r)))"

primrec visit :: "nat \<Rightarrow> ('w, 'd) ctx \<Rightarrow> 'w visitor" where
  "visit 0 cx = (\<lambda>rt srcPath dstPath fi parent r. None)"
| "visit (Suc n) cx = visit_step cx (visit n cx)"

subsection \<open>Roots\<close>

text \<open>The missing ancestors of a directory, deepest first; the fuel is the length of the path, as
  every parent is shorter until one is its own parent.\<close>

fun missing_dirs :: "nat \<Rightarrow> 'w fs \<Rightarrow> 'w \<Rightarrow> string \<Rightarrow> string list" where
  "missing_dirs 0 fsys w p = []"
| "missing_dirs (Suc k) fsys w p =
     (case fs_stat fsys w p of
        Inr fi \<Rightarrow> []
      | Inl e \<Rightarrow> p # (let parent = fs_dir fsys p in if parent = p then [] else missing_dirs k fsys w parent))"

fun create_dirs :: "('w, 'd) ctx \<Rightarrow> string list \<Rightarrow> 'w runner \<Rightarrow> goerr option \<times> 'w runner" where
  "create_dirs cx [] r = (None, r)"
| "create_dirs cx (p # ps) r =
     (if dry cx
      then create_dirs cx ps (elog ''basicopy: would create directory %s'' [dst_name cx p] r)
      else
        (let (err, w) = fs_mkdir (cx_dfs cx) p 0x1FF (rn_world r); r = r\<lparr>rn_world := w\<rparr> in
         case err of
           Some e \<Rightarrow>
             if \<not> os_is_exist e then (Some (WrapErr (''create '' @ fs_display (cx_dfs cx) p) e), r)
             else create_dirs cx ps (elog ''basicopy: created directory %s'' [dst_name cx p] r)
         | None \<Rightarrow> create_dirs cx ps (elog ''basicopy: created directory %s'' [dst_name cx p] r)))"

definition ensureRoot :: "('w, 'd) ctx \<Rightarrow> string \<Rightarrow> 'w runner \<Rightarrow> goerr option \<times> 'w runner" where
  "ensureRoot cx dir r =
     (let dfs = cx_dfs cx; dir = fs_clean dfs dir in
      case fs_stat dfs (rn_world r) dir of
        Inr fi \<Rightarrow>
          if \<not> is_dir (fi_mode fi)
          then (Some (NewErr ''target %s exists but is not a directory'' [fs_display dfs dir]), r)
          else (None, r)
      | Inl e \<Rightarrow>
          if op_no_auto_mkdirs (cx_opts cx)
          then (Some (NewErr ''target directory %s does not exist (remove --no-auto-mkdirs to create it)''
                        [fs_display dfs dir]), r)
          else create_dirs cx (rev (missing_dirs (Suc (length dir)) dfs (rn_world r) dir)) r)"

definition setRootDev :: "'w fs \<Rightarrow> file_info \<Rightarrow> 'w runner \<Rightarrow> 'w runner" where
  "setRootDev fsys fi r = r\<lparr>rn_root_dev := fs_dev fsys fi\<rparr>"

text \<open>The guards of \<open>renameRoot\<close>: may the whole root move by one rename.\<close>

definition may_rename :: "('w, 'd) ctx \<Rightarrow> 'w fs \<Rightarrow> string \<Rightarrow> file_info \<Rightarrow> 'w \<Rightarrow> bool" where
  "may_rename cx sfs dst fi w \<longleftrightarrow>
     (let o' = cx_opts cx in
      op_move o' \<and> \<not> op_dry_run o' \<and> same_host sfs (cx_dfs cx) \<and>
      \<not> (op_exclude o' \<noteq> [] \<or> op_include o' \<noteq> [] \<or> op_one_fs o' \<or> op_no_hardlinks o') \<and>
      (case fs_lstat (cx_dfs cx) w dst of
         Inl e \<Rightarrow> err_is e (Sentinel ErrNotExist)
       | Inr di \<Rightarrow> \<not> (is_dir (fi_mode fi) \<or> is_dir (fi_mode di)) \<and> \<not> fs_same_file (cx_dfs cx) fi di))"

definition renameRoot ::
  "('w, 'd) ctx \<Rightarrow> 'w fs \<Rightarrow> string \<Rightarrow> string \<Rightarrow> file_info \<Rightarrow> 'w runner \<Rightarrow> bool \<times> 'w runner" where
  "renameRoot cx sfs src dst fi r =
     (if \<not> may_rename cx sfs dst fi (rn_world r) then (False, r)
      else
        (let (err, w) = fs_rename (cx_dfs cx) src dst (rn_world r); r = r\<lparr>rn_world := w\<rparr> in
         case err of
           Some e \<Rightarrow> (False, verbose cx ''rename %s: %v; copying instead'' [Str (fs_display sfs src), Err e] r)
         | None \<Rightarrow>
             (True, item cx ''rename %s -> %s'' [Str (fs_display sfs src), dst_name cx dst]
                      (r\<lparr>rn_renamed := rn_renamed r + 1\<rparr>))))"

text \<open>\<open>rootAbs, _ := sfs.Abs(...)\<close>: the empty path when it fails.\<close>

definition abs_or_empty :: "'w fs \<Rightarrow> string \<Rightarrow> string" where
  "abs_or_empty fsys p = (case fs_abs fsys p of Inl e \<Rightarrow> [] | Inr a \<Rightarrow> a)"

definition walkTargetFile :: "nat \<Rightarrow> ('w, 'd) ctx \<Rightarrow> 'w runner \<Rightarrow> (goerr option \<times> 'w runner) option" where
  "walkTargetFile n cx r =
     (case cx_resolve cx (hd (op_sources (cx_opts cx))) of
        Inl e \<Rightarrow> Some (Some e, r)
      | Inr (sfs, src) \<Rightarrow>
          (case fs_lstat sfs (rn_world r) src of
             Inl e \<Rightarrow> Some (Some e, r)
           | Inr fi \<Rightarrow>
               if is_dir (fi_mode fi)
               then Some (Some (NewErr ''--target-file given but source %q is a directory'' [fs_display sfs src]), r)
               else
                 (let target = cx_target_file cx; (err, r) = ensureRoot cx (fs_dir (cx_dfs cx) target) r in
                  if err \<noteq> None then Some (err, r)
                  else
                    (let (renamed, r) = renameRoot cx sfs src target fi r in
                     if renamed then Some (None, r)
                     else
                       (let r = setRootDev sfs fi (initSpaceGuard cx (fs_dir (cx_dfs cx) target) r);
                            rt = \<lparr>sr_fs = sfs, sr_root_abs = abs_or_empty sfs (fs_dir sfs src), sr_keep = []\<rparr>
                        in map_option (\<lambda>r. (None, r)) (visit n cx rt src target fi None r))))))"

text \<open>The overlap guards of \<open>walkTargetDir\<close>: the error for a source directory that must not be copied
  to this destination.\<close>

definition overlap_error ::
  "('w, 'd) ctx \<Rightarrow> 'w fs \<Rightarrow> string \<Rightarrow> file_info \<Rightarrow> bool \<Rightarrow> string \<Rightarrow> goerr option" where
  "overlap_error cx sfs src fi contents dstPath =
     (if is_dir (fi_mode fi) \<and> same_host sfs (cx_dfs cx)
      then
        (case (fs_abs sfs (fs_clean sfs src), fs_abs (cx_dfs cx) dstPath) of
           (Inr srcAbs, Inr dstAbs) \<Rightarrow>
             if withinRoot sfs srcAbs dstAbs
             then
               (if srcAbs = dstAbs
                then Some (NewErr ''destination %q is the source itself'' [fs_display (cx_dfs cx) dstPath])
                else Some (NewErr ''destination %q is inside source %q''
                             [fs_display (cx_dfs cx) dstPath, fs_display sfs src]))
             else if contents \<and> op_mirror (cx_opts cx) \<and> withinRoot sfs dstAbs srcAbs
             then Some (NewErr ''--mirror with --contents would delete source %q inside target %q''
                          [fs_display sfs src, fs_display (cx_dfs cx) dstPath])
             else None
         | _ \<Rightarrow> None)
      else None)"

text \<open>The destination of one source: its path, or the error that it has no name of its own.\<close>

definition dest_path :: "('w, 'd) ctx \<Rightarrow> 'w fs \<Rightarrow> string \<Rightarrow> bool \<Rightarrow> goerr + string" where
  "dest_path cx sfs src contents =
     (let base = fs_base sfs (fs_clean sfs src) in
      if contents then Inr (fs_clean (cx_dfs cx) (cx_target_dir cx))
      else if base = ''.'' \<or> base = ''..'' \<or> base = fs_sep sfs
      then Inl (NewErr ''cannot derive a destination name for source %q'' [fs_display sfs src])
      else Inr (fs_join (cx_dfs cx) (cx_target_dir cx) base))"

definition walk_copy ::
  "nat \<Rightarrow> ('w, 'd) ctx \<Rightarrow> 'w fs \<Rightarrow> string \<Rightarrow> file_info \<Rightarrow> bool \<Rightarrow> string \<Rightarrow> 'w runner \<Rightarrow> 'w runner option" where
  "walk_copy n cx sfs src fi contents dstPath r =
     (let clean = fs_clean sfs src;
          r = (if op_mirror (cx_opts cx)
               then r\<lparr>rn_mirror_roots := rn_mirror_roots r @ [\<lparr>mr_fs = sfs, mr_dest = dstPath, mr_src = clean\<rparr>]\<rparr>
               else r);
          r = setRootDev sfs fi (initSpaceGuard cx (cx_target_dir cx) r);
          rt = \<lparr>sr_fs = sfs, sr_root_abs = abs_or_empty sfs clean, sr_keep = (if contents then src else [])\<rparr>
      in visit n cx rt src dstPath fi None r)"

definition walk_source ::
  "nat \<Rightarrow> ('w, 'd) ctx \<Rightarrow> 'w fs \<Rightarrow> string \<Rightarrow> file_info \<Rightarrow> 'w runner \<Rightarrow> (goerr option \<times> 'w runner) option" where
  "walk_source n cx sfs src fi r =
     (let contents = (op_contents (cx_opts cx) \<and> is_dir (fi_mode fi)) in
      case dest_path cx sfs src contents of
        Inl e \<Rightarrow> Some (None, fail cx e r)
      | Inr dstPath \<Rightarrow>
          (case overlap_error cx sfs src fi contents dstPath of
             Some e \<Rightarrow> Some (None, fail cx e r)
           | None \<Rightarrow>
               (let (err, r) = ensureRoot cx (cx_target_dir cx) r in
                if err \<noteq> None then Some (err, r)
                else
                  (let (renamed, r) = (if contents then (False, r) else renameRoot cx sfs src dstPath fi r) in
                   if renamed then Some (None, r)
                   else map_option (\<lambda>r. (None, r)) (walk_copy n cx sfs src fi contents dstPath r)))))"

fun walkTargetDir ::
  "nat \<Rightarrow> ('w, 'd) ctx \<Rightarrow> string list \<Rightarrow> 'w runner \<Rightarrow> (goerr option \<times> 'w runner) option" where
  "walkTargetDir n cx [] r = Some (None, r)"
| "walkTargetDir n cx (arg # args) r =
     (if halted cx r then Some (None, polled_ctx r)
      else
        (let r = polled_ctx r in
         case cx_resolve cx arg of
           Inl e \<Rightarrow> Some (Some e, r)
         | Inr (sfs, src) \<Rightarrow>
             (case fs_lstat sfs (rn_world r) src of
                Inl e \<Rightarrow> walkTargetDir n cx args (fail cx e r)
              | Inr fi \<Rightarrow>
                  (case walk_source n cx sfs src fi r of
                     None \<Rightarrow> None
                   | Some (err, r) \<Rightarrow> if err \<noteq> None then Some (err, r) else walkTargetDir n cx args r))))"

definition walk :: "nat \<Rightarrow> ('w, 'd) ctx \<Rightarrow> 'w runner \<Rightarrow> (goerr option \<times> 'w runner) option" where
  "walk n cx r =
     (if op_target_file (cx_opts cx) \<noteq> [] then walkTargetFile n cx r
      else walkTargetDir n cx (op_sources (cx_opts cx)) r)"

end
