(* ===== verification/Engine.thy ===== *)
theory Engine
  imports Walk
begin

text \<open>
  The passes after the walk and the whole run: internal/engine/mirror.go, the removal of moved
  sources in move.go, and \<open>Run\<close> with \<open>summary\<close> in engine.go. A run is put in one order: the walk, then
  the queued copies, then the deferred links, then the queued directory metadata, then the mirror
  pass and the removals. The code runs the copies and the metadata while the walk goes on; the
  passes after the workers' end are in this order there too.
\<close>

subsection \<open>Mirror\<close>

definition mirror_entry ::
  "('w, 'd) ctx \<Rightarrow> string \<Rightarrow> 'w runner \<Rightarrow> bool \<times> 'w runner" where
  "mirror_entry cx destPath r =
     (if dry cx
      then (False, item cx ''would delete %s'' [dst_name cx destPath] (r\<lparr>rn_deleted := rn_deleted r + 1\<rparr>))
      else
        (let (err, w) = fs_remove_all (cx_dfs cx) destPath (rn_world r); r = r\<lparr>rn_world := w\<rparr> in
         case err of
           Some e \<Rightarrow> (False, fail cx (WrapErr (''delete '' @ fs_display (cx_dfs cx) destPath) e) r)
         | None \<Rightarrow>
             (True, item cx ''deleted %s'' [dst_name cx destPath] (r\<lparr>rn_deleted := rn_deleted r + 1\<rparr>))))"

text \<open>The loop over the entries of a destination directory; \<open>sub\<close> is the pass over a subdirectory,
  and the first result tells whether an entry was removed.\<close>

fun mirror_entries ::
  "('w, 'd) ctx \<Rightarrow> (string \<Rightarrow> string \<Rightarrow> 'w runner \<Rightarrow> 'w runner option) \<Rightarrow> 'w fs \<Rightarrow> string \<Rightarrow> string \<Rightarrow>
     file_info list \<Rightarrow> bool \<Rightarrow> 'w runner \<Rightarrow> (bool \<times> 'w runner) option" where
  "mirror_entries cx sub srcFS destDir srcDir [] removed r = Some (removed, r)"
| "mirror_entries cx sub srcFS destDir srcDir (e # es) removed r =
     (let destPath = fs_join (cx_dfs cx) destDir (fi_name e); srcPath = fs_join srcFS srcDir (fi_name e) in
      case fs_lstat srcFS (rn_world r) srcPath of
        Inl err \<Rightarrow>
          (let (gone, r) = mirror_entry cx destPath r in
           mirror_entries cx sub srcFS destDir srcDir es (removed \<or> gone) r)
      | Inr fi \<Rightarrow>
          if is_dir (fi_mode e)
          then (case sub destPath srcPath r of
                  None \<Rightarrow> None
                | Some r \<Rightarrow> mirror_entries cx sub srcFS destDir srcDir es removed r)
          else mirror_entries cx sub srcFS destDir srcDir es removed r)"

text \<open>The directory's metadata restored after a removal.\<close>

definition restore_dir_meta ::
  "('w, 'd) ctx \<Rightarrow> 'w fs \<Rightarrow> string \<Rightarrow> string \<Rightarrow> 'w runner \<Rightarrow> 'w runner" where
  "restore_dir_meta cx srcFS destDir srcDir r =
     (case fs_lstat srcFS (rn_world r) srcDir of
        Inl e \<Rightarrow> r
      | Inr fi \<Rightarrow>
          (let (err, w) = applyMeta (cx_env cx) srcFS srcDir (cx_dfs cx) destDir (Some fi) True (rn_world r);
               r = r\<lparr>rn_world := w\<rparr>
           in case err of
                Some e \<Rightarrow> warn cx ''metadata on %s: %v'' [dst_name cx destDir, Err e] r
              | None \<Rightarrow> r))"

primrec mirrorDir ::
  "nat \<Rightarrow> ('w, 'd) ctx \<Rightarrow> 'w fs \<Rightarrow> string \<Rightarrow> string \<Rightarrow> 'w runner \<Rightarrow> 'w runner option" where
  "mirrorDir 0 cx srcFS = (\<lambda>destDir srcDir r. None)"
| "mirrorDir (Suc n) cx srcFS =
     (\<lambda>destDir srcDir r.
        case fs_read_dir (cx_dfs cx) (rn_world r) destDir of
          Inl e \<Rightarrow> Some r
        | Inr entries \<Rightarrow>
            (case mirror_entries cx (mirrorDir n cx srcFS) srcFS destDir srcDir entries False r of
               None \<Rightarrow> None
             | Some (removed, r) \<Rightarrow>
                 Some (if removed \<and> preserve cx then restore_dir_meta cx srcFS destDir srcDir r else r)))"

fun mirrorExtraneous :: "nat \<Rightarrow> ('w, 'd) ctx \<Rightarrow> 'w mirror_root list \<Rightarrow> 'w runner \<Rightarrow> 'w runner option" where
  "mirrorExtraneous n cx [] r = Some r"
| "mirrorExtraneous n cx (m # ms) r =
     (case mirrorDir n cx (mr_fs m) (mr_dest m) (mr_src m) r of
        None \<Rightarrow> None
      | Some r \<Rightarrow> mirrorExtraneous n cx ms r)"

subsection \<open>Removing moved sources\<close>

definition sameEntry :: "('w, 'd) ctx \<Rightarrow> 'w \<Rightarrow> 'w moved_entry \<Rightarrow> bool" where
  "sameEntry cx w e =
     (if \<not> fs_local (mv_fs e) \<or> \<not> fs_local (cx_dfs cx) then False
      else
        (case fs_lstat (mv_fs e) w (mv_src e) of
           Inl _ \<Rightarrow> False
         | Inr si \<Rightarrow>
             (case fs_lstat (cx_dfs cx) w (mv_dst e) of
                Inl _ \<Rightarrow> False
              | Inr di \<Rightarrow> fs_same_file (cx_dfs cx) si di)))"

definition removeSource :: "('w, 'd) ctx \<Rightarrow> 'w moved_entry \<Rightarrow> bool \<Rightarrow> 'w runner \<Rightarrow> 'w runner" where
  "removeSource cx e dir r =
     (let sfs = mv_fs e; src = fs_display sfs (mv_src e) in
      if sameEntry cx (rn_world r) e
      then fail cx (NewErr ''not removing %s: it is the destination %s'' [src, fs_display (cx_dfs cx) (mv_dst e)]) r
      else
        (let (err, w) = fs_remove sfs (mv_src e) (rn_world r); r = r\<lparr>rn_world := w\<rparr> in
         case err of
           None \<Rightarrow> r\<lparr>rn_removed := rn_removed r + 1\<rparr>
         | Some er \<Rightarrow>
             (let left = (if dir
                          then (case fs_read_dir sfs (rn_world r) (mv_src e) of Inl _ \<Rightarrow> [] | Inr es \<Rightarrow> es)
                          else [])
              in if left \<noteq> []
                 then verbose cx ''keep source directory %s (%d entries left)'' [Str src, Num (int (length left))] r
                 else fail cx (WrapErr (''remove source '' @ src) er) r)))"

text \<open>The removal loops; \<open>True\<close> when the interrupt context stopped them.\<close>

fun remove_entries ::
  "('w, 'd) ctx \<Rightarrow> bool \<Rightarrow> 'w moved_entry list \<Rightarrow> 'w runner \<Rightarrow> 'w runner" where
  "remove_entries cx dir [] r = r"
| "remove_entries cx dir (e # es) r =
     (if cx_interrupt cx (rn_polls r) then r\<lparr>rn_polls := Suc (rn_polls r)\<rparr>
      else remove_entries cx dir es (removeSource cx e dir (r\<lparr>rn_polls := Suc (rn_polls r)\<rparr>)))"

definition removeMovedSources :: "('w, 'd) ctx \<Rightarrow> 'w runner \<Rightarrow> 'w runner" where
  "removeMovedSources cx r =
     (let r = remove_entries cx False (rn_moved_files r) r in remove_entries cx True (rn_moved_dirs r) r)"

subsection \<open>A run\<close>

definition new_runner :: "'w \<Rightarrow> 'w runner" where
  "new_runner w =
     \<lparr>rn_world = w, rn_files = 0, rn_dirs = 0, rn_symlinks = 0, rn_bytes = 0, rn_skipped = 0, rn_failed = 0,
      rn_linked = 0, rn_deleted = 0, rn_updated = 0, rn_renamed = 0, rn_removed = 0, rn_moved = 0,
      rn_total_files = 0, rn_total_bytes = 0, rn_meta_total = 0, rn_meta_done = 0, rn_dir_states = [],
      rn_jobs = [], rn_meta_jobs = [], rn_moved_files = [], rn_moved_dirs = [], rn_free = 0,
      rn_space_check = False, rn_aborted = None, rn_no_ids_noted = False, rn_on_stack = {},
      rn_hl_map = Map.empty, rn_hardlinks = [], rn_mirror_roots = [], rn_root_dev = None, rn_lines = [],
      rn_polls = 0\<rparr>"

text \<open>The field \<open>Cloned\<close> of the code's \<open>Summary\<close> is read from the deduplication state, which is a component of its own
  (Extents): Command passes the two together to the texts.\<close>

record summary =
  sm_files :: int
  sm_dirs :: int
  sm_symlinks :: int
  sm_linked :: int
  sm_updated :: int
  sm_deleted :: int
  sm_renamed :: int
  sm_removed :: int
  sm_bytes :: int
  sm_skipped :: int
  sm_failed :: int

definition summary_of :: "'w runner \<Rightarrow> summary" where
  "summary_of r =
     \<lparr>sm_files = rn_files r, sm_dirs = rn_dirs r, sm_symlinks = rn_symlinks r, sm_linked = rn_linked r,
      sm_updated = rn_updated r, sm_deleted = rn_deleted r, sm_renamed = rn_renamed r,
      sm_removed = rn_removed r, sm_bytes = rn_bytes r, sm_skipped = rn_skipped r, sm_failed = rn_failed r\<rparr>"

text \<open>The sources are resolved, so that every host is dialed, before anything starts.\<close>

fun dial_sources :: "('w, 'd) ctx \<Rightarrow> string list \<Rightarrow> goerr option" where
  "dial_sources cx [] = None"
| "dial_sources cx (a # as) = (case cx_resolve cx a of Inl e \<Rightarrow> Some e | Inr _ \<Rightarrow> dial_sources cx as)"

text \<open>From the end of the walk to the end of the metadata workers.\<close>

definition finish_copies :: "('w, 'd) ctx \<Rightarrow> 'w runner \<Rightarrow> 'w runner" where
  "finish_copies cx r =
     (let r = (if dry cx then r else worker cx r);
          r = applyHardlinks cx (rn_hardlinks r) r
      in if dry cx then r else metadataWorker cx r)"

definition finish_run :: "nat \<Rightarrow> ('w, 'd) ctx \<Rightarrow> 'w runner \<Rightarrow> 'w runner option" where
  "finish_run n cx r =
     (let r = finish_copies cx r;
          finished = (\<not> cx_interrupt cx (rn_polls r) \<and> rn_aborted r = None);
          r = r\<lparr>rn_polls := Suc (rn_polls r)\<rparr>
      in case (if op_mirror (cx_opts cx) \<and> finished then mirrorExtraneous n cx (rn_mirror_roots r) r else Some r) of
           None \<Rightarrow> None
         | Some r \<Rightarrow>
             Some (if op_move (cx_opts cx) \<and> \<not> dry cx \<and> finished then removeMovedSources cx r else r))"

text \<open>The error that \<open>Run\<close> returns; the context is polled once more.\<close>

definition run_error :: "('w, 'd) ctx \<Rightarrow> goerr option \<Rightarrow> 'w runner \<Rightarrow> goerr option" where
  "run_error cx err r =
     (if err \<noteq> None then err
      else if rn_aborted r \<noteq> None then rn_aborted r
      else if cx_interrupt cx (rn_polls r) then Some (Sentinel ErrInterrupted)
      else None)"

text \<open>\<open>Run\<close> once the target has been resolved: the summary, the error and the final state.\<close>

definition run :: "nat \<Rightarrow> ('w, 'd) ctx \<Rightarrow> 'w \<Rightarrow> (summary \<times> goerr option \<times> 'w runner) option" where
  "run n cx w =
     (let r = new_runner w in
      case dial_sources cx (op_sources (cx_opts cx)) of
        Some e \<Rightarrow> Some (summary_of r, Some e, r)
      | None \<Rightarrow>
          (case walk n cx r of
             None \<Rightarrow> None
           | Some (err, r) \<Rightarrow>
               (case finish_run n cx r of
                  None \<Rightarrow> None
                | Some r \<Rightarrow> Some (summary_of r, run_error cx err r, r))))"

end
