(* ===== verification/WalkLaw.thy ===== *)
theory WalkLaw
  imports Engine
begin

text \<open>
  What a walk keeps, proved once. The locale \<open>walk_law\<close> takes an invariant \<open>J\<close> of the runner, a
  preorder \<open>R\<close> from the state before to the state after, and a notion of an open parent directory, and
  asks that each elementary change of the walk respects them; its theorems then cover the visit of a
  whole tree and the walk over all sources. A change of the world has to be allowed only in a run that
  is not a dry one.
\<close>

named_theorems chain \<open>composition rules of a state change\<close>

locale walk_law =
  fixes cx :: "('w, 'd) ctx" and J :: "'w runner \<Rightarrow> bool" and R :: "'w runner \<Rightarrow> 'w runner \<Rightarrow> bool"
    and opened :: "nat option \<Rightarrow> 'w runner \<Rightarrow> bool"
  assumes R_refl: "R r r" and R_trans: "R r r' \<Longrightarrow> R r' r'' \<Longrightarrow> R r r''"
    and opened_mono: "R r r' \<Longrightarrow> opened p r \<Longrightarrow> opened p r'" and opened_none: "opened None r"
    and lines: "J r \<Longrightarrow> J (r\<lparr>rn_lines := ls\<rparr>) \<and> R r (r\<lparr>rn_lines := ls\<rparr>)"
    and polls: "J r \<Longrightarrow> J (r\<lparr>rn_polls := k\<rparr>) \<and> R r (r\<lparr>rn_polls := k\<rparr>)"
    and skipped: "J r \<Longrightarrow> J (r\<lparr>rn_skipped := rn_skipped r + 1\<rparr>) \<and> R r (r\<lparr>rn_skipped := rn_skipped r + 1\<rparr>)"
    and updated: "J r \<Longrightarrow> J (r\<lparr>rn_updated := rn_updated r + 1\<rparr>) \<and> R r (r\<lparr>rn_updated := rn_updated r + 1\<rparr>)"
    and symlinks: "J r \<Longrightarrow> J (r\<lparr>rn_symlinks := rn_symlinks r + 1\<rparr>) \<and> R r (r\<lparr>rn_symlinks := rn_symlinks r + 1\<rparr>)"
    and failed: "J r \<Longrightarrow> J (r\<lparr>rn_failed := rn_failed r + 1\<rparr>) \<and> R r (r\<lparr>rn_failed := rn_failed r + 1\<rparr>)"
    and renamed: "\<not> dry cx \<Longrightarrow> J r \<Longrightarrow>
        J (r\<lparr>rn_renamed := rn_renamed r + 1\<rparr>) \<and> R r (r\<lparr>rn_renamed := rn_renamed r + 1\<rparr>)"
    and aborts: "J r \<Longrightarrow> rn_aborted r = None \<Longrightarrow> J (r\<lparr>rn_aborted := Some e\<rparr>) \<and> R r (r\<lparr>rn_aborted := Some e\<rparr>)"
    and world: "\<not> dry cx \<Longrightarrow> J r \<Longrightarrow> J (r\<lparr>rn_world := w\<rparr>) \<and> R r (r\<lparr>rn_world := w\<rparr>)"
    and moved_files: "op_move (cx_opts cx) \<Longrightarrow> \<not> dry cx \<Longrightarrow> J r \<Longrightarrow>
        J (r\<lparr>rn_moved_files := rn_moved_files r @ [m]\<rparr>) \<and> R r (r\<lparr>rn_moved_files := rn_moved_files r @ [m]\<rparr>)"
    and moved_dirs: "op_move (cx_opts cx) \<Longrightarrow> \<not> dry cx \<Longrightarrow> J r \<Longrightarrow>
        J (r\<lparr>rn_moved_dirs := rn_moved_dirs r @ [m]\<rparr>) \<and> R r (r\<lparr>rn_moved_dirs := rn_moved_dirs r @ [m]\<rparr>)"
    and hl_map: "J r \<Longrightarrow> J (r\<lparr>rn_hl_map := h\<rparr>) \<and> R r (r\<lparr>rn_hl_map := h\<rparr>)"
    and noted: "J r \<Longrightarrow> J (r\<lparr>rn_no_ids_noted := b\<rparr>) \<and> R r (r\<lparr>rn_no_ids_noted := b\<rparr>)"
    and stack: "J r \<Longrightarrow> J (r\<lparr>rn_on_stack := s\<rparr>) \<and> R r (r\<lparr>rn_on_stack := s\<rparr>)"
    and guard: "J r \<Longrightarrow> J (r\<lparr>rn_free := x, rn_space_check := b\<rparr>) \<and> R r (r\<lparr>rn_free := x, rn_space_check := b\<rparr>)"
    and root_dev: "J r \<Longrightarrow> J (r\<lparr>rn_root_dev := d\<rparr>) \<and> R r (r\<lparr>rn_root_dev := d\<rparr>)"
    and mirror_roots: "J r \<Longrightarrow> J (r\<lparr>rn_mirror_roots := ms\<rparr>) \<and> R r (r\<lparr>rn_mirror_roots := ms\<rparr>)"
    and enqueue: "J r \<Longrightarrow> opened p r \<Longrightarrow>
        J (enqueueFile cx rt sp dp fi p chk why r) \<and> R r (enqueueFile cx rt sp dp fi p chk why r)"
    and defer_link: "J r \<Longrightarrow> opened p r \<Longrightarrow> lk_parent l = p \<Longrightarrow>
        J ((addDirWork p r)\<lparr>rn_hardlinks := rn_hardlinks (addDirWork p r) @ [l]\<rparr>) \<and>
        R r ((addDirWork p r)\<lparr>rn_hardlinks := rn_hardlinks (addDirWork p r) @ [l]\<rparr>)"
    and new_dir: "J r \<Longrightarrow> newDirState cx sfs sd dd fi r = (st, r1) \<Longrightarrow>
        J (r1\<lparr>rn_dirs := rn_dirs r1 + 1\<rparr>) \<and> opened st (r1\<lparr>rn_dirs := rn_dirs r1 + 1\<rparr>)"
    and close_dir: "newDirState cx sfs sd dd fi r = (st, r1) \<Longrightarrow> J r \<Longrightarrow> R (r1\<lparr>rn_dirs := rn_dirs r1 + 1\<rparr>) r2 \<Longrightarrow> J r2 \<Longrightarrow>
        J (closeDir st r2) \<and> R r (closeDir st r2)"
begin

definition to :: "nat option \<Rightarrow> 'w runner \<Rightarrow> 'w runner \<Rightarrow> bool" where
  "to p r r' \<longleftrightarrow> (J r \<and> opened p r \<longrightarrow> J r' \<and> R r r')"

definition to_opt :: "nat option \<Rightarrow> 'w runner \<Rightarrow> 'w runner option \<Rightarrow> bool" where
  "to_opt p r x \<longleftrightarrow> (\<forall>r'. x = Some r' \<longrightarrow> to p r r')"

lemma to_refl [chain]: "to p r r"
  by (simp add: to_def R_refl)

lemma to_trans: "to p a b \<Longrightarrow> to p b c \<Longrightarrow> to p a c"
  unfolding to_def using R_trans opened_mono by blast

lemma to_step: "(J r \<Longrightarrow> opened p r \<Longrightarrow> J (f r) \<and> R r (f r)) \<Longrightarrow> to p r0 r \<Longrightarrow> to p r0 (f r)"
  unfolding to_def using R_trans opened_mono by blast

lemma to_field [chain]:
  "to p r0 r \<Longrightarrow> to p r0 (r\<lparr>rn_lines := l\<rparr>)"
  "to p r0 r \<Longrightarrow> to p r0 (r\<lparr>rn_polls := k\<rparr>)"
  "to p r0 r \<Longrightarrow> to p r0 (r\<lparr>rn_skipped := rn_skipped r + 1\<rparr>)"
  "to p r0 r \<Longrightarrow> to p r0 (r\<lparr>rn_updated := rn_updated r + 1\<rparr>)"
  "to p r0 r \<Longrightarrow> to p r0 (r\<lparr>rn_symlinks := rn_symlinks r + 1\<rparr>)"
  "to p r0 r \<Longrightarrow> to p r0 (r\<lparr>rn_failed := rn_failed r + 1\<rparr>)"
  "to p r0 r \<Longrightarrow> to p r0 (r\<lparr>rn_hl_map := h\<rparr>)"
  "to p r0 r \<Longrightarrow> to p r0 (r\<lparr>rn_no_ids_noted := b\<rparr>)"
  "to p r0 r \<Longrightarrow> to p r0 (r\<lparr>rn_on_stack := s\<rparr>)"
  "to p r0 r \<Longrightarrow> to p r0 (r\<lparr>rn_free := x, rn_space_check := b\<rparr>)"
  "to p r0 r \<Longrightarrow> to p r0 (r\<lparr>rn_root_dev := d\<rparr>)"
  "to p r0 r \<Longrightarrow> to p r0 (r\<lparr>rn_mirror_roots := ms\<rparr>)"
  by (rule to_step, simp add: lines polls skipped updated symlinks failed hl_map noted stack guard
      root_dev mirror_roots, assumption)+

lemma to_real [chain]:
  "\<not> dry cx \<Longrightarrow> to p r0 r \<Longrightarrow> to p r0 (r\<lparr>rn_world := w\<rparr>)"
  "\<not> dry cx \<Longrightarrow> to p r0 r \<Longrightarrow> to p r0 (r\<lparr>rn_renamed := rn_renamed r + 1\<rparr>)"
  "rn_aborted r = None \<Longrightarrow> to p r0 r \<Longrightarrow> to p r0 (r\<lparr>rn_aborted := Some e\<rparr>)"
  by (rule to_step, simp add: world renamed aborts, assumption)+

lemma to_enqueue [chain]: "to p r0 r \<Longrightarrow> to p r0 (enqueueFile cx rt sp dp fi p chk why r)"
  by (rule to_step) (simp add: enqueue)

lemma to_if [chain]: "(c \<Longrightarrow> to p r0 a) \<Longrightarrow> (\<not> c \<Longrightarrow> to p r0 b) \<Longrightarrow> to p r0 (if c then a else b)"
  by simp

lemma to_option [chain]:
  "(x = None \<Longrightarrow> to p r0 a) \<Longrightarrow> (\<And>y. x = Some y \<Longrightarrow> to p r0 (b y)) \<Longrightarrow>
     to p r0 (case x of None \<Rightarrow> a | Some y \<Rightarrow> b y)"
  by (cases x) simp_all

lemma to_sum [chain]:
  "(\<And>e. x = Inl e \<Longrightarrow> to p r0 (a e)) \<Longrightarrow> (\<And>y. x = Inr y \<Longrightarrow> to p r0 (b y)) \<Longrightarrow>
     to p r0 (case x of Inl e \<Rightarrow> a e | Inr y \<Rightarrow> b y)"
  by (cases x) simp_all

lemma to_prod [chain]: "(\<And>a b. x = (a, b) \<Longrightarrow> to p r0 (f a b)) \<Longrightarrow> to p r0 (case x of (a, b) \<Rightarrow> f a b)"
  by (cases x) simp

lemma opt_if [chain]: "(c \<Longrightarrow> to_opt p r0 a) \<Longrightarrow> (\<not> c \<Longrightarrow> to_opt p r0 b) \<Longrightarrow> to_opt p r0 (if c then a else b)"
  by simp

lemma opt_sum [chain]:
  "(\<And>e. x = Inl e \<Longrightarrow> to_opt p r0 (a e)) \<Longrightarrow> (\<And>y. x = Inr y \<Longrightarrow> to_opt p r0 (b y)) \<Longrightarrow>
     to_opt p r0 (case x of Inl e \<Rightarrow> a e | Inr y \<Rightarrow> b y)"
  by (cases x) simp_all

lemma opt_some [chain]: "to p r0 r \<Longrightarrow> to_opt p r0 (Some r)"
  by (simp add: to_opt_def)

lemma opt_none [chain]: "to_opt p r0 None"
  by (simp add: to_opt_def)

lemma opt_after: "to p r0 r \<Longrightarrow> to_opt p r x \<Longrightarrow> to_opt p r0 x"
  using to_trans unfolding to_opt_def by blast

subsection \<open>The operations\<close>

lemma to_output [chain]:
  "to p r0 r \<Longrightarrow> to p r0 (elog m a r)" "to p r0 r \<Longrightarrow> to p r0 (stdout_line m a r)"
  "to p r0 r \<Longrightarrow> to p r0 (warn cx m a r)" "to p r0 r \<Longrightarrow> to p r0 (note_line cx m a r)"
  "to p r0 r \<Longrightarrow> to p r0 (verbose cx m a r)" "to p r0 r \<Longrightarrow> to p r0 (item cx m a r)"
  unfolding elog_def stdout_line_def warn_def note_line_def verbose_def item_def
  by (intro chain; assumption)+

lemma to_setAbort [chain]: "to p r0 r \<Longrightarrow> to p r0 (setAbort e r)"
  unfolding setAbort_def by (intro chain; assumption)

lemma to_fail [chain]: "to p r0 r \<Longrightarrow> to p r0 (fail cx e r)"
  unfolding fail_def Let_def by (intro chain; assumption)

lemma to_polled [chain]: "to p r0 r \<Longrightarrow> to p r0 (polled_ctx r)"
  unfolding polled_ctx_def by (intro chain; assumption)

lemma to_moveSource [chain]: "to p r0 r \<Longrightarrow> to p r0 (moveSource cx sfs a b r)"
  unfolding moveSource_def
  by (rule to_if, assumption, rule to_step) (simp_all add: moved_files)

lemma to_moveDir [chain]: "to p r0 r \<Longrightarrow> to p r0 (moveDir cx rt a b r)"
  unfolding moveDir_def
  by (rule to_if, assumption, rule to_step) (simp_all add: moved_dirs)

lemma to_moveUnchanged [chain]: "to p r0 r \<Longrightarrow> to p r0 (moveUnchanged cx sfs a b r)"
  unfolding moveUnchanged_def by (intro chain; assumption)

lemma to_sync_unchanged [chain]: "to p r0 r \<Longrightarrow> to p r0 (sync_unchanged cx sfs d i v r)"
  unfolding sync_unchanged_def Let_def by (intro chain; assumption)

lemma to_finishUnchanged [chain]: "to p r0 r \<Longrightarrow> to p r0 (finishUnchangedFile cx sfs s d i v r)"
  unfolding finishUnchangedFile_def Let_def by (intro chain; assumption)

lemma to_noteNoFileIDs [chain]: "to p r0 r \<Longrightarrow> to p r0 (noteNoFileIDs cx sfs r)"
  unfolding noteNoFileIDs_def by (intro chain; assumption)

lemma to_defer: "lk_parent l = p \<Longrightarrow> to p r0 r \<Longrightarrow>
    to p r0 ((addDirWork p r)\<lparr>rn_hardlinks := rn_hardlinks (addDirWork p r) @ [l]\<rparr>)"
  by (rule to_step [where f = "\<lambda>r. (addDirWork p r)\<lparr>rn_hardlinks := rn_hardlinks (addDirWork p r) @ [l]\<rparr>"])
    (simp_all add: defer_link)

lemma to_handleMultiLink [chain]: "to p r0 r \<Longrightarrow> to p r0 (handleMultiLink cx rt sp dp fi p key r)"
  unfolding handleMultiLink_def Let_def by (intro chain to_defer; simp)

lemma to_handle_single [chain]: "to p r0 r \<Longrightarrow> to p r0 (handle_single cx rt sp dp fi p r)"
  unfolding handle_single_def Let_def by (intro chain; assumption)

lemma to_handleRegular [chain]: "to p r0 r \<Longrightarrow> to p r0 (handleRegular cx rt sp dp fi p r)"
  unfolding handleRegular_def by (intro chain; assumption)

lemma to_recreateSymlink [chain]: "to p r0 r \<Longrightarrow> to p r0 (recreateSymlink cx rt sp t dp fi r)"
  unfolding recreateSymlink_def Let_def by (intro chain; assumption)

lemma to_noteDirChange [chain]: "to p r0 r \<Longrightarrow> to p r0 (noteDirChange cx rt dd fi r)"
  unfolding noteDirChange_def Let_def by (intro chain; assumption)

subsection \<open>The visit\<close>

text \<open>A visitor that respects the law.\<close>

definition lawful :: "'w visitor \<Rightarrow> bool" where
  "lawful vis \<longleftrightarrow> (\<forall>rt sp dp fi p r. to_opt p r (vis rt sp dp fi p r))"

lemma lawfulD: "lawful vis \<Longrightarrow> vis rt sp dp fi p r = Some r' \<Longrightarrow> to p r r'"
  unfolding lawful_def to_opt_def by blast

lemma visit_entries_to:
  "lawful vis \<Longrightarrow> visit_entries cx vis rt sd dd st es r = Some (all, r') \<Longrightarrow> to st r r'"
proof (induction es arbitrary: r)
  case Nil
  then show ?case by (simp add: to_refl)
next
  case (Cons e es)
  show ?case
  proof (cases "halted cx r")
    case True
    then have "r' = polled_ctx r" using Cons.prems by auto
    then show ?thesis using to_polled [OF to_refl] by simp
  next
    case False
    then obtain r1 where v: "vis rt (fs_join (sr_fs rt) sd (fi_name e)) (fs_join (cx_dfs cx) dd (fi_name e))
        e st (polled_ctx r) = Some r1" and rest: "visit_entries cx vis rt sd dd st es r1 = Some (all, r')"
      using Cons.prems by (auto split: option.splits)
    have "to st r r1" using to_trans [OF to_polled [OF to_refl] lawfulD [OF Cons.prems(1) v]] .
    with Cons.IH [OF Cons.prems(1) rest] show ?thesis by (rule to_trans [rotated])
  qed
qed

lemma to_make_dir: "make_dir cx dd r = (e, r') \<Longrightarrow> to p r r'"
  unfolding make_dir_def
  by (cases "dry cx") (auto simp: to_refl split: prod.splits intro!: to_real(1) [OF _ to_refl])

lemma to_dir:
  assumes nd: "newDirState cx sfs sd dd fi r = (st, r1)" and body: "to st (r1\<lparr>rn_dirs := rn_dirs r1 + 1\<rparr>) r2"
  shows "to p r (closeDir st r2)"
  unfolding to_def
proof (intro impI)
  assume "J r \<and> opened p r"
  then have j: "J (r1\<lparr>rn_dirs := rn_dirs r1 + 1\<rparr>)" "opened st (r1\<lparr>rn_dirs := rn_dirs r1 + 1\<rparr>)" using new_dir [OF _ nd] by auto
  with body have "J r2" "R (r1\<lparr>rn_dirs := rn_dirs r1 + 1\<rparr>) r2" by (auto simp: to_def)
  with close_dir [OF nd] \<open>J r \<and> opened p r\<close> show "J (closeDir st r2) \<and> R r (closeDir st r2)" by blast
qed

lemma visitDir_to: "lawful vis \<Longrightarrow> to_opt p r (visitDir cx vis rt sd dd fi r)"
  unfolding to_opt_def
proof (intro allI impI)
  fix r'
  assume l: "lawful vis" and v: "visitDir cx vis rt sd dd fi r = Some r'"
  obtain e r1 where m: "make_dir cx dd (noteDirChange cx rt dd fi r) = (e, r1)" by fastforce
  have t1: "to p r r1" using to_trans [OF to_noteDirChange [OF to_refl] to_make_dir [OF m]] .
  let ?r2 = "polled_ctx r1"
  have t2: "to p r ?r2" using to_polled [OF t1] .
  show "to p r r'"
  proof (cases "e \<noteq> None \<or> halted cx r1 \<or> (\<exists>x. fs_read_dir (sr_fs rt) (rn_world ?r2) sd = Inl x)")
    case True
    then show ?thesis using v m t1 t2
      by (cases e) (auto simp: visitDir_def Let_def intro: to_fail split: if_splits)
  next
    case False
    then obtain es where es: "fs_read_dir (sr_fs rt) (rn_world ?r2) sd = Inr es"
      by (cases "fs_read_dir (sr_fs rt) (rn_world ?r2) sd") auto
    obtain st r3 where nd: "newDirState cx (sr_fs rt) sd dd fi ?r2 = (st, r3)" by fastforce
    obtain all r4 where ve: "visit_entries cx vis rt sd dd st es (r3\<lparr>rn_dirs := rn_dirs r3 + 1\<rparr>) = Some (all, r4)"
      and r': "r' = closeDir st (if all then moveDir cx rt sd dd r4 else r4)"
      using v m False es nd by (auto simp: visitDir_def Let_def split: option.splits prod.splits)
    note visit_entries_to [OF l ve]
    then have "to st (r3\<lparr>rn_dirs := rn_dirs r3 + 1\<rparr>) (if all then moveDir cx rt sd dd r4 else r4)" by (simp add: to_moveDir)
    from to_dir [OF nd this, of p] show ?thesis unfolding r' by (rule to_trans [OF t2])
  qed
qed

lemma visitDir_chain: "lawful vis \<Longrightarrow> to p r0 r \<Longrightarrow> to_opt p r0 (visitDir cx vis rt sd dd fi r)"
  using opt_after visitDir_to by blast

lemma follow_dir_to: "lawful vis \<Longrightarrow> to p r0 r \<Longrightarrow> to_opt p r0 (follow_dir cx vis rt sp dp tfi ta r)"
proof -
  assume l: "lawful vis" and t: "to p r0 r"
  have "to_opt p r0 (case visitDir cx vis rt sp dp tfi (r\<lparr>rn_on_stack := s\<rparr>) of
      None \<Rightarrow> None | Some r \<Rightarrow> Some (r\<lparr>rn_on_stack := rn_on_stack r - {k}\<rparr>))" for s k
  proof (cases "visitDir cx vis rt sp dp tfi (r\<lparr>rn_on_stack := s\<rparr>)")
    case None
    then show ?thesis by (simp add: opt_none)
  next
    case (Some r1)
    then have "to p r0 r1" using visitDir_chain [OF l to_field(9) [OF t]] by (simp add: to_opt_def)
    then show ?thesis using Some by (simp add: opt_some to_field)
  qed
  then show ?thesis unfolding follow_dir_def Let_def using t by (intro chain; assumption?)
qed

lemma visitSymlink_to: "lawful vis \<Longrightarrow> to p r0 r \<Longrightarrow> to_opt p r0 (visitSymlink cx vis rt sp dp fi p r)"
  unfolding visitSymlink_def Let_def by (intro chain follow_dir_to; assumption)

lemma to_skip_entry [chain]: "to p r0 r \<Longrightarrow> to p r0 (skip_entry cx m rt sp r)"
  unfolding skip_entry_def Let_def by (intro chain; assumption)

lemma visit_step_lawful: "lawful vis \<Longrightarrow> lawful (visit_step cx vis)"
proof -
  assume l: "lawful vis"
  have "to_opt p r (visit_step cx vis rt sp dp fi p r)" for rt sp dp fi p r
    unfolding visit_step_def Let_def
    by (intro chain visitSymlink_to visitDir_chain l)
  then show ?thesis unfolding lawful_def by blast
qed

lemma visit_lawful: "lawful (visit n cx)"
proof (induction n)
  case 0
  then show ?case by (simp add: lawful_def to_opt_def)
next
  case (Suc n)
  then show ?case using visit_step_lawful by simp
qed

theorem visit_respects:
  "visit n cx rt sp dp fi p r = Some r' \<Longrightarrow> J r \<Longrightarrow> opened p r \<Longrightarrow> J r' \<and> R r r'"
  using lawfulD [OF visit_lawful] by (auto simp: to_def)

subsection \<open>The walk\<close>

lemma create_dirs_to: "create_dirs cx ps r = (e, r') \<Longrightarrow> to p r r'"
proof (induction ps arbitrary: r)
  case Nil
  then show ?case by (simp add: to_refl)
next
  case (Cons q ps)
  show ?case
  proof (cases "dry cx")
    case True
    then have "create_dirs cx ps (elog ''basicopy: would create directory %s'' [dst_name cx q] r) = (e, r')"
      using Cons.prems by simp
    from Cons.IH [OF this] show ?thesis by (rule to_trans [OF to_output(1) [OF to_refl]])
  next
    case False
    obtain e1 w where m: "fs_mkdir (cx_dfs cx) q 0x1FF (rn_world r) = (e1, w)" by fastforce
    let ?r1 = "r\<lparr>rn_world := w\<rparr>"
    have t: "to p r ?r1" using to_real(1) [OF False to_refl] .
    show ?thesis
    proof (cases "\<exists>x. e1 = Some x \<and> \<not> os_is_exist x")
      case True
      then have "r' = ?r1" using Cons.prems False m by auto
      with t show ?thesis by simp
    next
      case go: False
      then have "create_dirs cx ps (elog ''basicopy: created directory %s'' [dst_name cx q] ?r1) = (e, r')"
        using Cons.prems False m by (auto simp: Let_def split: option.splits)
      from Cons.IH [OF this] show ?thesis by (rule to_trans [OF to_output(1) [OF t]])
    qed
  qed
qed

lemma ensureRoot_to: "ensureRoot cx dir r = (e, r') \<Longrightarrow> to p r r'"
  unfolding ensureRoot_def Let_def
  by (auto simp: to_refl split: sum.splits if_splits intro: create_dirs_to)

lemma renameRoot_to: "renameRoot cx sfs a b fi r = (ok, r') \<Longrightarrow> to p r r'"
proof -
  assume h: "renameRoot cx sfs a b fi r = (ok, r')"
  show ?thesis
  proof (cases "may_rename cx sfs b fi (rn_world r)")
    case False
    then show ?thesis using h by (simp add: renameRoot_def to_refl)
  next
    case True
    then have nd: "\<not> dry cx" by (simp add: may_rename_def Let_def)
    obtain e w where rn: "fs_rename (cx_dfs cx) a b (rn_world r) = (e, w)" by fastforce
    have t: "to p r (r\<lparr>rn_world := w\<rparr>)" using to_real(1) [OF nd to_refl] .
    have t2: "to p r ((r\<lparr>rn_world := w\<rparr>)\<lparr>rn_renamed := rn_renamed (r\<lparr>rn_world := w\<rparr>) + 1\<rparr>)"
      using to_real(2) [OF nd t] .
    have "r' = (case e of
        Some x \<Rightarrow> verbose cx ''rename %s: %v; copying instead'' [Str (fs_display sfs a), Err x] (r\<lparr>rn_world := w\<rparr>)
      | None \<Rightarrow> item cx ''rename %s -> %s'' [Str (fs_display sfs a), dst_name cx b]
          ((r\<lparr>rn_world := w\<rparr>)\<lparr>rn_renamed := rn_renamed (r\<lparr>rn_world := w\<rparr>) + 1\<rparr>))"
      using h True rn by (auto simp: renameRoot_def split: option.splits)
    then show ?thesis using to_output(5) [OF t] to_output(6) [OF t2] by (auto split: option.splits)
  qed
qed

lemma to_initSpaceGuard [chain]: "to p r0 r \<Longrightarrow> to p r0 (initSpaceGuard cx d r)"
  unfolding initSpaceGuard_def by (intro chain; assumption)

lemma to_setRootDev [chain]: "to p r0 r \<Longrightarrow> to p r0 (setRootDev sfs fi r)"
  unfolding setRootDev_def by (intro chain; assumption)

lemma visit_from: "to None r0 r \<Longrightarrow> visit n cx rt sp dp fi None r = Some r' \<Longrightarrow> to None r0 r'"
  using lawfulD [OF visit_lawful] to_trans by blast

lemma walk_copy_to: "walk_copy n cx sfs a fi c d r = Some r' \<Longrightarrow> to None r r'"
  unfolding walk_copy_def Let_def by (erule visit_from [rotated], intro chain)

lemma walk_source_to: "walk_source n cx sfs a fi r = Some (e, r') \<Longrightarrow> to None r r'"
proof -
  assume h: "walk_source n cx sfs a fi r = Some (e, r')"
  let ?c = "op_contents (cx_opts cx) \<and> is_dir (fi_mode fi)"
  show ?thesis
  proof (cases "\<exists>d. dest_path cx sfs a ?c = Inr d \<and> overlap_error cx sfs a fi ?c d = None")
    case False
    then show ?thesis using h
      by (auto simp: walk_source_def Let_def intro: to_fail to_refl split: sum.splits option.splits)
  next
    case True
    then obtain d where d: "dest_path cx sfs a ?c = Inr d" "overlap_error cx sfs a fi ?c d = None" by auto
    obtain e1 r1 where er: "ensureRoot cx (cx_target_dir cx) r = (e1, r1)" by fastforce
    have t1: "to None r r1" using ensureRoot_to [OF er] .
    obtain ren r2 where rr: "(if ?c then (False, r1) else renameRoot cx sfs a d fi r1) = (ren, r2)" by fastforce
    have t2: "to None r r2"
      using t1 rr to_trans [OF t1 renameRoot_to] by (auto split: if_splits)
    show ?thesis
    proof (cases "e1 \<noteq> None \<or> ren")
      case True
      then show ?thesis using h t1 t2
        by (cases e1) (auto simp: walk_source_def Let_def d er rr split del: if_split)
    next
      case False
      then have "walk_copy n cx sfs a fi ?c d r2 = Some r'"
        using h by (auto simp: walk_source_def Let_def d er rr split del: if_split)
      from to_trans [OF t2 walk_copy_to [OF this]] show ?thesis .
    qed
  qed
qed

lemma walkTargetDir_to: "walkTargetDir n cx args r = Some (e, r') \<Longrightarrow> to None r r'"
proof (induction args arbitrary: r)
  case Nil
  then show ?case by (simp add: to_refl)
next
  case (Cons arg args)
  have t: "to None r (polled_ctx r)" using to_polled [OF to_refl] .
  show ?case
  proof (cases "halted cx r \<or> (\<exists>x. cx_resolve cx arg = Inl x)")
    case True
    then show ?thesis using Cons.prems t by (auto split: if_splits)
  next
    case False
    then obtain sfs src where rs: "cx_resolve cx arg = Inr (sfs, src)" by (cases "cx_resolve cx arg") auto
    show ?thesis
    proof (cases "fs_lstat sfs (rn_world (polled_ctx r)) src")
      case (Inl x)
      then have "walkTargetDir n cx args (fail cx x (polled_ctx r)) = Some (e, r')"
        using Cons.prems False rs by simp
      from to_trans [OF to_fail [OF t] Cons.IH [OF this]] show ?thesis .
    next
      case (Inr fi)
      then obtain e1 r1 where ws: "walk_source n cx sfs src fi (polled_ctx r) = Some (e1, r1)"
        using Cons.prems False rs by (auto split: option.splits)
      have t1: "to None r r1" using to_trans [OF t walk_source_to [OF ws]] .
      show ?thesis
      proof (cases e1)
        case None
        then have "walkTargetDir n cx args r1 = Some (e, r')" using Cons.prems False rs Inr ws by simp
        from to_trans [OF t1 Cons.IH [OF this]] show ?thesis .
      next
        case (Some x)
        then show ?thesis using Cons.prems False rs Inr ws t1 by simp
      qed
    qed
  qed
qed

lemma walkTargetFile_to: "walkTargetFile n cx r = Some (e, r') \<Longrightarrow> to None r r'"
proof -
  assume h: "walkTargetFile n cx r = Some (e, r')"
  let ?t = "cx_target_file cx"
  show ?thesis
  proof (cases "\<exists>sfs src fi. cx_resolve cx (hd (op_sources (cx_opts cx))) = Inr (sfs, src) \<and>
      fs_lstat sfs (rn_world r) src = Inr fi \<and> \<not> is_dir (fi_mode fi)")
    case False
    then show ?thesis using h
      by (auto simp: walkTargetFile_def to_refl split: sum.splits if_splits)
  next
    case True
    then obtain sfs src fi where s: "cx_resolve cx (hd (op_sources (cx_opts cx))) = Inr (sfs, src)"
      "fs_lstat sfs (rn_world r) src = Inr fi" "\<not> is_dir (fi_mode fi)" by blast
    obtain e1 r1 where er: "ensureRoot cx (fs_dir (cx_dfs cx) ?t) r = (e1, r1)" by fastforce
    have t1: "to None r r1" using ensureRoot_to [OF er] .
    obtain ren r2 where rr: "renameRoot cx sfs src ?t fi r1 = (ren, r2)" by fastforce
    have t2: "to None r r2" using to_trans [OF t1 renameRoot_to [OF rr]] .
    show ?thesis
    proof (cases "e1 \<noteq> None \<or> ren")
      case True
      then show ?thesis using h s er rr t1 t2 by (cases e1) (auto simp: walkTargetFile_def Let_def)
    next
      case False
      then obtain rt where "visit n cx rt src ?t fi None
          (setRootDev sfs fi (initSpaceGuard cx (fs_dir (cx_dfs cx) ?t) r2)) = Some r'"
        using h s er rr by (auto simp: walkTargetFile_def Let_def)
      then show ?thesis by (rule visit_from [rotated]) (intro chain t2)
    qed
  qed
qed

theorem walk_respects: "walk n cx r = Some (e, r') \<Longrightarrow> J r \<Longrightarrow> J r' \<and> R r r'"
  using walkTargetFile_to [of n r e r'] walkTargetDir_to [of n _ r e r'] opened_none
  by (auto simp: walk_def to_def split: if_splits)

end

end
