(* ===== verification/EngineSpec.thy ===== *)
theory EngineSpec
  imports WalkLaw
begin

text \<open>
  The properties of a run: what a dry run changes, what an abort stops, how the discovered files are
  accounted for, and that every directory's metadata is applied once. Each is an instance of the walk's
  law with the passes after the walk added.
\<close>

lemmas out_defs = elog_def stdout_line_def warn_def note_line_def verbose_def item_def

subsection \<open>A dry run\<close>

definition dry_keeps :: "('w, 'd) ctx \<Rightarrow> 'w runner \<Rightarrow> 'w runner \<Rightarrow> bool" where
  "dry_keeps cx r r' \<longleftrightarrow> (dry cx \<longrightarrow> rn_world r' = rn_world r)"

lemma addDirWork_fields [simp]:
  "rn_world (addDirWork p r) = rn_world r" "rn_aborted (addDirWork p r) = rn_aborted r"
  "rn_jobs (addDirWork p r) = rn_jobs r" "rn_files (addDirWork p r) = rn_files r"
  "rn_bytes (addDirWork p r) = rn_bytes r" "rn_total_files (addDirWork p r) = rn_total_files r"
  "rn_total_bytes (addDirWork p r) = rn_total_bytes r" "rn_hardlinks (addDirWork p r) = rn_hardlinks r"
  "rn_meta_jobs (addDirWork p r) = rn_meta_jobs r" "rn_meta_total (addDirWork p r) = rn_meta_total r"
  "rn_meta_done (addDirWork p r) = rn_meta_done r"
  by (simp_all add: addDirWork_def upd_dir_def split: option.split)

lemma queueDirMeta_fields [simp]:
  "rn_world (queueDirMeta d r) = rn_world r" "rn_aborted (queueDirMeta d r) = rn_aborted r"
  "rn_jobs (queueDirMeta d r) = rn_jobs r" "rn_files (queueDirMeta d r) = rn_files r"
  "rn_bytes (queueDirMeta d r) = rn_bytes r" "rn_total_files (queueDirMeta d r) = rn_total_files r"
  "rn_total_bytes (queueDirMeta d r) = rn_total_bytes r" "rn_hardlinks (queueDirMeta d r) = rn_hardlinks r"
  "rn_linked (queueDirMeta d r) = rn_linked r" "rn_meta_total (queueDirMeta d r) = rn_meta_total r"
  "rn_meta_done (queueDirMeta d r) = rn_meta_done r"
  by (simp_all add: queueDirMeta_def upd_dir_def Let_def)

lemma closeDir_fields [simp]:
  "rn_world (closeDir p r) = rn_world r" "rn_aborted (closeDir p r) = rn_aborted r"
  "rn_jobs (closeDir p r) = rn_jobs r" "rn_files (closeDir p r) = rn_files r"
  "rn_bytes (closeDir p r) = rn_bytes r" "rn_total_files (closeDir p r) = rn_total_files r"
  "rn_total_bytes (closeDir p r) = rn_total_bytes r"
  by (simp_all add: closeDir_def upd_dir_def Let_def split: option.split)

lemma completeDirWork_fields [simp]:
  "rn_world (completeDirWork p r) = rn_world r" "rn_aborted (completeDirWork p r) = rn_aborted r"
  "rn_jobs (completeDirWork p r) = rn_jobs r" "rn_files (completeDirWork p r) = rn_files r"
  "rn_bytes (completeDirWork p r) = rn_bytes r" "rn_total_files (completeDirWork p r) = rn_total_files r"
  "rn_total_bytes (completeDirWork p r) = rn_total_bytes r" "rn_linked (completeDirWork p r) = rn_linked r"
  "rn_hardlinks (completeDirWork p r) = rn_hardlinks r" "rn_meta_total (completeDirWork p r) = rn_meta_total r"
  "rn_meta_done (completeDirWork p r) = rn_meta_done r"
  by (simp_all add: completeDirWork_def upd_dir_def Let_def split: option.split)

lemma out_fields [simp]:
  "rn_world (item cx m a r) = rn_world r" "rn_aborted (item cx m a r) = rn_aborted r"
  "rn_jobs (item cx m a r) = rn_jobs r" "rn_files (item cx m a r) = rn_files r"
  "rn_bytes (item cx m a r) = rn_bytes r" "rn_total_files (item cx m a r) = rn_total_files r"
  "rn_total_bytes (item cx m a r) = rn_total_bytes r" "rn_linked (item cx m a r) = rn_linked r"
  "rn_world (warn cx m a r) = rn_world r" "rn_aborted (warn cx m a r) = rn_aborted r"
  "rn_files (warn cx m a r) = rn_files r" "rn_linked (warn cx m a r) = rn_linked r"
  "rn_world (verbose cx m a r) = rn_world r" "rn_aborted (verbose cx m a r) = rn_aborted r"
  "rn_world (elog m a r) = rn_world r" "rn_aborted (elog m a r) = rn_aborted r"
  by (simp_all add: out_defs)

lemma fail_fields [simp]:
  "rn_world (fail cx e r) = rn_world r" "rn_files (fail cx e r) = rn_files r"
  by (simp_all add: fail_def setAbort_def out_defs Let_def)

lemma newDirState_fields:
  "newDirState cx sfs a b fi r = (st, r') \<Longrightarrow>
     rn_world r' = rn_world r \<and> rn_aborted r' = rn_aborted r \<and> rn_jobs r' = rn_jobs r \<and>
     rn_files r' = rn_files r \<and> rn_bytes r' = rn_bytes r \<and> rn_total_files r' = rn_total_files r \<and>
     rn_total_bytes r' = rn_total_bytes r"
  by (auto simp: newDirState_def split: if_splits)

interpretation dry_law: walk_law cx "\<lambda>r. True" "dry_keeps cx" "\<lambda>p r. True" for cx :: "('w, 'd) ctx"
  by unfold_locales
    (auto simp: dry_keeps_def enqueueFile_def Let_def dest: newDirState_fields)

lemma dry_links: "dry cx \<Longrightarrow> rn_world (applyHardlinks cx ls r) = rn_world r"
  by (induction ls arbitrary: r) (simp_all add: apply_link_def)

lemma dry_mirror_entries:
  "dry cx \<Longrightarrow> (\<And>d s r r'. sub d s r = Some r' \<Longrightarrow> rn_world r' = rn_world r) \<Longrightarrow>
     mirror_entries cx sub sfs dd sd es b r = Some (b', r') \<Longrightarrow> rn_world r' = rn_world r \<and> b' = b"
proof (induction es arbitrary: b r)
  case (Cons e es)
  have IH: "mirror_entries cx sub sfs dd sd es b r = Some (b', r') \<Longrightarrow> rn_world r' = rn_world r \<and> b' = b" for b r
    using Cons.IH Cons.prems(1,2) by blast
  let ?d = "fs_join (cx_dfs cx) dd (fi_name e)" and ?s = "fs_join sfs sd (fi_name e)"
  show ?case
  proof (cases "fs_lstat sfs (rn_world r) ?s")
    case (Inl x)
    obtain g r1 where m: "mirror_entry cx ?d r = (g, r1)" by fastforce
    then have "\<not> g" "rn_world r1 = rn_world r" using Cons.prems(1) by (auto simp: mirror_entry_def)
    then show ?thesis using IH [of b r1] Cons.prems(3) Inl m by (simp add: Let_def)
  next
    case (Inr fi)
    show ?thesis
    proof (cases "is_dir (fi_mode e)")
      case True
      then obtain r1 where "sub ?d ?s r = Some r1" "mirror_entries cx sub sfs dd sd es b r1 = Some (b', r')"
        using Cons.prems(3) Inr by (auto simp: Let_def split: option.splits)
      then show ?thesis using IH [of b r1] Cons.prems(2) by metis
    next
      case False
      then show ?thesis using IH [of b r] Cons.prems(3) Inr by (simp add: Let_def)
    qed
  qed
qed simp

lemma restore_dir_meta_cases:
  assumes "mirrorDir (Suc n) cx sfs dd sd r = Some r'"
  shows "r' = r \<or> (\<exists>es gone r1. fs_read_dir (cx_dfs cx) (rn_world r) dd = Inr es \<and>
    mirror_entries cx (mirrorDir n cx sfs) sfs dd sd es False r = Some (gone, r1) \<and>
    r' = (if gone \<and> preserve cx then restore_dir_meta cx sfs dd sd r1 else r1))"
proof (cases "fs_read_dir (cx_dfs cx) (rn_world r) dd")
  case (Inl e)
  then show ?thesis using assms by simp
next
  case (Inr es)
  show ?thesis
  proof (cases "mirror_entries cx (mirrorDir n cx sfs) sfs dd sd es False r")
    case None
    then show ?thesis using assms Inr by simp
  next
    case (Some x)
    then show ?thesis using assms Inr by (cases x) simp
  qed
qed

lemma dry_mirrorDir: "dry cx \<Longrightarrow> mirrorDir n cx sfs dd sd r = Some r' \<Longrightarrow> rn_world r' = rn_world r"
proof (induction n arbitrary: dd sd r r')
  case (Suc n)
  note sub = Suc.IH [OF Suc.prems(1)]
  from restore_dir_meta_cases [OF Suc.prems(2)] show ?case
  proof (elim disjE exE conjE)
    fix es gone r1
    assume "mirror_entries cx (mirrorDir n cx sfs) sfs dd sd es False r = Some (gone, r1)"
      and r': "r' = (if gone \<and> preserve cx then restore_dir_meta cx sfs dd sd r1 else r1)"
    from dry_mirror_entries [OF Suc.prems(1) sub this(1)] r' show ?thesis by simp
  qed simp
qed simp

lemma dry_mirror: "dry cx \<Longrightarrow> mirrorExtraneous n cx ms r = Some r' \<Longrightarrow> rn_world r' = rn_world r"
proof (induction ms arbitrary: r)
  case (Cons m ms)
  then show ?case using dry_mirrorDir [of cx n "mr_fs m" "mr_dest m" "mr_src m" r]
    by (auto split: option.splits)
qed simp

lemma new_runner_fields [simp]:
  "rn_world (new_runner w) = w" "rn_aborted (new_runner w) = None" "rn_jobs (new_runner w) = []"
  "rn_files (new_runner w) = 0" "rn_bytes (new_runner w) = 0" "rn_total_files (new_runner w) = 0"
  "rn_total_bytes (new_runner w) = 0" "rn_dir_states (new_runner w) = []" "rn_hardlinks (new_runner w) = []"
  "rn_meta_jobs (new_runner w) = []" "rn_meta_total (new_runner w) = 0" "rn_meta_done (new_runner w) = 0"
  by (simp_all add: new_runner_def)

text \<open>C10: A dry run changes nothing. Whatever the options (mirror and move included), the sources and
  the filesystems, the world at the end of a run with \<open>--dry-run\<close> is the world at its start.\<close>

theorem dry_run_changes_nothing:
  assumes "run n cx w = Some (sm, err, r)" and "op_dry_run (cx_opts cx)"
  shows "rn_world r = w"
proof (cases "dial_sources cx (op_sources (cx_opts cx))")
  case (Some e)
  then show ?thesis using assms by (auto simp: run_def Let_def)
next
  case None
  then obtain e1 r1 where wk: "walk n cx (new_runner w) = Some (e1, r1)" and fin: "finish_run n cx r1 = Some r"
    using assms(1) by (auto simp: run_def Let_def split: option.splits)
  have "rn_world r1 = w"
    using dry_law.walk_respects [OF wk] assms(2) by (simp add: dry_keeps_def)
  moreover have "rn_world (finish_copies cx r1) = rn_world r1"
    using assms(2) by (simp add: finish_copies_def Let_def dry_links)
  ultimately show ?thesis
    using fin assms(2) dry_mirror [of cx n "rn_mirror_roots (finish_copies cx r1)"
        "(finish_copies cx r1)\<lparr>rn_polls := Suc (rn_polls (finish_copies cx r1))\<rparr>"]
    by (auto simp: finish_run_def Let_def split: option.splits if_splits)
qed

subsection \<open>Aborts\<close>

definition abort_kept :: "'w runner \<Rightarrow> 'w runner \<Rightarrow> bool" where
  "abort_kept r r' \<longleftrightarrow> (rn_aborted r \<noteq> None \<longrightarrow> rn_aborted r' = rn_aborted r)"

interpretation abort_law: walk_law cx "\<lambda>r. True" abort_kept "\<lambda>p r. True" for cx :: "('w, 'd) ctx"
  by unfold_locales
    (auto simp: abort_kept_def enqueueFile_def Let_def dest: newDirState_fields)

text \<open>Within the walk, too, the first cause stays: a visit begun after an abort does not replace it.\<close>

lemma visit_keeps_abort:
  "visit n cx rt sp dp fi p r = Some r' \<Longrightarrow> rn_aborted r = Some e \<Longrightarrow> rn_aborted r' = Some e"
  using abort_law.visit_respects by (force simp: abort_kept_def)

lemma aborted_drain:
  "rn_aborted r \<noteq> None \<Longrightarrow>
     rn_world (drain_jobs cx js r) = rn_world r \<and> rn_aborted (drain_jobs cx js r) = rn_aborted r \<and>
     rn_files (drain_jobs cx js r) = rn_files r \<and> rn_linked (drain_jobs cx js r) = rn_linked r"
  by (induction js arbitrary: r) (simp_all add: work_one_def)

lemma aborted_links:
  "rn_aborted r \<noteq> None \<Longrightarrow>
     rn_world (applyHardlinks cx ls r) = rn_world r \<and> rn_aborted (applyHardlinks cx ls r) = rn_aborted r \<and>
     rn_files (applyHardlinks cx ls r) = rn_files r \<and> rn_linked (applyHardlinks cx ls r) = rn_linked r"
  by (induction ls arbitrary: r) (simp_all add: apply_link_def)

lemma drain_meta_aborted [simp]: "rn_aborted (drain_meta cx ds r) = rn_aborted r"
  by (induction ds arbitrary: r) (auto simp: apply_dir_meta_def Let_def split: prod.split option.split)

text \<open>A run after its walk and \<open>i\<close> more of its queued operations: the files in the order of the queue, then the links.\<close>

definition stage :: "('w, 'd) ctx \<Rightarrow> nat \<Rightarrow> 'w runner \<Rightarrow> 'w runner" where
  "stage cx i r =
     (let q = (if dry cx then r else drain_jobs cx (take i (rn_jobs r)) (r\<lparr>rn_jobs := []\<rparr>)) in
      applyHardlinks cx (take (i - length (rn_jobs r)) (rn_hardlinks q)) q)"

lemma drain_append: "drain_jobs cx (js @ ks) r = drain_jobs cx ks (drain_jobs cx js r)"
  by (induction js arbitrary: r) simp_all

lemma links_append: "applyHardlinks cx (ls @ ks) r = applyHardlinks cx ks (applyHardlinks cx ls r)"
  by (induction ls arbitrary: r) simp_all

lemma worker_split:
  "worker cx r = drain_jobs cx (drop i (rn_jobs r)) (drain_jobs cx (take i (rn_jobs r)) (r\<lparr>rn_jobs := []\<rparr>))"
  unfolding worker_def drain_append [symmetric] by simp

text \<open>What an aborted run leaves alone.\<close>

definition stopped :: "goerr \<Rightarrow> 'w runner \<Rightarrow> 'w runner \<Rightarrow> bool" where
  "stopped e r r' \<longleftrightarrow> rn_aborted r' = Some e \<and> rn_world r' = rn_world r \<and> rn_files r' = rn_files r \<and> rn_linked r' = rn_linked r"

lemma stopped_drain: "rn_aborted r = Some e \<Longrightarrow> stopped e r (drain_jobs cx js r)"
  using aborted_drain [of r cx js] by (simp add: stopped_def)

lemma stopped_links: "rn_aborted r = Some e \<Longrightarrow> stopped e r (applyHardlinks cx ls r)"
  using aborted_links [of r cx ls] by (simp add: stopped_def)

lemma stopped_trans: "stopped e r r' \<Longrightarrow> (rn_aborted r' = Some e \<Longrightarrow> stopped e r' r'') \<Longrightarrow> stopped e r r''"
  by (simp add: stopped_def)

lemma stopped_rest:
  assumes "rn_aborted (stage cx i r) = Some e"
  shows "let q = (if dry cx then r else worker cx r) in stopped e (stage cx i r) (applyHardlinks cx (rn_hardlinks q) q)"
proof -
  let ?s = "drain_jobs cx (take i (rn_jobs r)) (r\<lparr>rn_jobs := []\<rparr>)"
  show ?thesis
  proof (cases "dry cx \<or> length (rn_jobs r) \<le> i")
    case True
    let ?q = "if dry cx then r else worker cx r" and ?k = "i - length (rn_jobs r)"
    have st: "stage cx i r = applyHardlinks cx (take ?k (rn_hardlinks ?q)) ?q"
      using True by (auto simp: stage_def Let_def worker_def)
    have "applyHardlinks cx (rn_hardlinks ?q) ?q = applyHardlinks cx (drop ?k (rn_hardlinks ?q)) (stage cx i r)"
      unfolding st links_append [symmetric] by simp
    then show ?thesis using stopped_links [OF assms, where cx = cx] by (simp only: Let_def)
  next
    case False
    then have st: "stage cx i r = ?s" by (simp add: stage_def Let_def)
    have w: "worker cx r = drain_jobs cx (drop i (rn_jobs r)) (stage cx i r)" unfolding st by (rule worker_split)
    show ?thesis
      using False stopped_trans [OF stopped_drain [OF assms] stopped_links] by (simp add: Let_def w)
  qed
qed

lemma first_abort_stays [simp]:
  "rn_aborted r = Some e \<Longrightarrow> rn_aborted (setAbort e' r) = Some e"
  "rn_aborted r = Some e \<Longrightarrow> rn_aborted (fail cx e' r) = Some e"
  by (simp_all add: setAbort_def fail_def out_defs Let_def)

lemma late_copy_keeps_abort: "rn_aborted r = Some e \<Longrightarrow> rn_aborted (record_copy cx job why n er r) = Some e"
  by (simp add: record_copy_def Let_def moveSource_def split: option.split)

text \<open>A copy that was in flight when the run aborted, with its count and its error.\<close>

type_synonym 'w ending_copy = "'w file_job \<times> string \<times> int \<times> goerr option"

definition copies_end :: "('w, 'd) ctx \<Rightarrow> 'w ending_copy list \<Rightarrow> 'w runner \<Rightarrow> 'w runner" where
  "copies_end cx late r = fold (\<lambda>(job, why, n, er). record_copy cx job why n er) late r"

lemma late_copies_keep_abort: "rn_aborted r = Some e \<Longrightarrow> rn_aborted (copies_end cx late r) = Some e"
  by (induction late arbitrary: r) (auto simp: copies_end_def late_copy_keeps_abort)

text \<open>C14: An abort stops the run and its first cause is what the run reports. Whenever the run is found aborted, at the
  end of the walk or after any number of the queued copies and links, no file is copied and no link is made
  after that, nothing is mirrored or removed: what follows is only the metadata of directories; and
  \<open>Run\<close> returns that error unless the walk itself failed. Copies that are still in flight then, however many and with whatever
  errors they end, do not replace the cause.\<close>

theorem abort_stops_the_run:
  assumes "run n cx w = Some (sm, err, r')"
    and "walk n cx (new_runner w) = Some (werr, r)" and "rn_aborted (stage cx i r) = Some e"
    and "dial_sources cx (op_sources (cx_opts cx)) = None"
  shows "err = (if werr \<noteq> None then werr else Some e) \<and>
    (\<exists>r1. rn_world r1 = rn_world (stage cx i r) \<and> rn_files r1 = rn_files (stage cx i r) \<and>
       rn_linked r1 = rn_linked (stage cx i r) \<and>
       finish_copies cx r = (if op_dry_run (cx_opts cx) then r1 else metadataWorker cx r1)) \<and>
    r' = (finish_copies cx r)\<lparr>rn_polls := Suc (rn_polls (finish_copies cx r))\<rparr> \<and>
    rn_aborted (copies_end cx late (stage cx i r)) = Some e"
proof -
  let ?q = "if dry cx then r else worker cx r"
  let ?r1 = "applyHardlinks cx (rn_hardlinks ?q) ?q"
  have r1: "stopped e (stage cx i r) ?r1" using stopped_rest [OF assms(3)] by (simp add: Let_def)
  let ?r2 = "if dry cx then ?r1 else metadataWorker cx ?r1"
  have fc: "finish_copies cx r = ?r2" by (simp add: finish_copies_def Let_def)
  have ab: "rn_aborted ?r2 = Some e" using r1 by (cases "dry cx") (simp_all add: metadataWorker_def stopped_def)
  then have "finish_run n cx r = Some (?r2\<lparr>rn_polls := Suc (rn_polls ?r2)\<rparr>)" by (simp add: finish_run_def Let_def fc)
  then have f: "r' = ?r2\<lparr>rn_polls := Suc (rn_polls ?r2)\<rparr>" "err = run_error cx werr r'" using assms(1,2,4) by (auto simp: run_def Let_def)
  have "rn_world ?r1 = rn_world (stage cx i r) \<and> rn_files ?r1 = rn_files (stage cx i r) \<and> rn_linked ?r1 = rn_linked (stage cx i r)"
    using r1 by (simp add: stopped_def)
  moreover have "rn_aborted r' = Some e" using f(1) ab by simp
  then have "err = (if werr \<noteq> None then werr else Some e)" using f(2) by (simp add: run_error_def)
  moreover note late_copies_keep_abort [OF assms(3), where cx = cx and late = late]
  moreover have "r' = (finish_copies cx r)\<lparr>rn_polls := Suc (rn_polls (finish_copies cx r))\<rparr>" using f(1) by (simp only: fc)
  ultimately show ?thesis using fc by (intro conjI exI [of _ ?r1]) simp_all
qed

subsection \<open>Accounting\<close>

definition job_bytes :: "'w file_job list \<Rightarrow> int" where
  "job_bytes js = sum_list (map (\<lambda>j. fi_size (jb_info j)) js)"

definition accounted :: "('w, 'd) ctx \<Rightarrow> 'w runner \<Rightarrow> 'w runner \<Rightarrow> bool" where
  "accounted cx r r' \<longleftrightarrow>
     (if dry cx
      then rn_files r' - rn_files r = rn_total_files r' - rn_total_files r \<and>
        rn_bytes r' - rn_bytes r = rn_total_bytes r' - rn_total_bytes r \<and> rn_jobs r' = rn_jobs r
      else rn_files r' = rn_files r \<and> rn_bytes r' = rn_bytes r \<and>
        (\<exists>js. rn_jobs r' = rn_jobs r @ js \<and> int (length js) = rn_total_files r' - rn_total_files r \<and>
           job_bytes js = rn_total_bytes r' - rn_total_bytes r))"

lemma accounted_same:
  "rn_files r' = rn_files r \<Longrightarrow> rn_bytes r' = rn_bytes r \<Longrightarrow> rn_jobs r' = rn_jobs r \<Longrightarrow>
     rn_total_files r' = rn_total_files r \<Longrightarrow> rn_total_bytes r' = rn_total_bytes r \<Longrightarrow> accounted cx r r'"
  by (auto simp: accounted_def job_bytes_def)

lemma accounted_trans:
  assumes "accounted cx r r'" and "accounted cx r' r''"
  shows "accounted cx r r''"
proof (cases "dry cx")
  case True
  then show ?thesis using assms by (simp add: accounted_def)
next
  case False
  then obtain js ks where
    "rn_jobs r' = rn_jobs r @ js" "int (length js) = rn_total_files r' - rn_total_files r"
    "job_bytes js = rn_total_bytes r' - rn_total_bytes r"
    "rn_jobs r'' = rn_jobs r' @ ks" "int (length ks) = rn_total_files r'' - rn_total_files r'"
    "job_bytes ks = rn_total_bytes r'' - rn_total_bytes r'"
    using assms by (auto simp: accounted_def)
  then have "rn_jobs r'' = rn_jobs r @ (js @ ks) \<and> int (length (js @ ks)) = rn_total_files r'' - rn_total_files r \<and>
      job_bytes (js @ ks) = rn_total_bytes r'' - rn_total_bytes r"
    by (simp add: job_bytes_def)
  then show ?thesis using False assms unfolding accounted_def by metis
qed

lemma accounted_enqueue: "accounted cx r (enqueueFile cx rt sp dp fi p chk why r)"
  by (auto simp: accounted_def enqueueFile_def Let_def job_bytes_def)

lemma accounted_close:
  "newDirState cx sfs a b fi r = (st, r1) \<Longrightarrow> accounted cx (r1\<lparr>rn_dirs := k\<rparr>) r2 \<Longrightarrow> accounted cx r (closeDir st r2)"
proof -
  assume nd: "newDirState cx sfs a b fi r = (st, r1)" and a: "accounted cx (r1\<lparr>rn_dirs := k\<rparr>) r2"
  have "accounted cx r (r1\<lparr>rn_dirs := k\<rparr>)" using newDirState_fields [OF nd] by (intro accounted_same) auto
  moreover have "accounted cx r2 (closeDir st r2)" by (intro accounted_same) simp_all
  ultimately show ?thesis using a by (blast intro: accounted_trans)
qed

interpretation account_law: walk_law cx "\<lambda>r. True" "accounted cx" "\<lambda>p r. True" for cx :: "('w, 'd) ctx"
  by unfold_locales
    (use accounted_trans in \<open>auto intro: accounted_same accounted_enqueue accounted_close\<close>)

text \<open>Every file the walk discovers is accounted for exactly once. After the walk of a real run
  the queue holds as many files as the total shown to the user, of the total size shown, and none is
  counted as copied yet; after the walk of a dry run the files counted as copied are those totals and
  the queue is empty.\<close>

lemma walk_accounts_for_every_file:
  assumes "walk n cx (new_runner w) = Some (e, r)"
  shows "if op_dry_run (cx_opts cx)
    then rn_files r = rn_total_files r \<and> rn_bytes r = rn_total_bytes r \<and> rn_jobs r = []
    else int (length (rn_jobs r)) = rn_total_files r \<and> job_bytes (rn_jobs r) = rn_total_bytes r \<and>
      rn_files r = 0"
  using account_law.walk_respects [OF assms] by (auto simp: accounted_def)

subsection \<open>What becomes of one queued file\<close>

definition outcomes :: "'w runner \<Rightarrow> int" where
  "outcomes r = rn_files r + rn_failed r + rn_skipped r + rn_updated r"

lemma outcomes_out [simp]:
  "outcomes (item cx m a r) = outcomes r" "outcomes (warn cx m a r) = outcomes r"
  "outcomes (verbose cx m a r) = outcomes r" "outcomes (elog m a r) = outcomes r"
  "outcomes (setAbort e r) = outcomes r" "outcomes (moveSource cx sfs p q r) = outcomes r"
  by (simp_all add: outcomes_def out_defs setAbort_def moveSource_def)

lemma outcomes_moveUnchanged [simp]: "outcomes (moveUnchanged cx sfs p q r) = outcomes r"
  by (simp add: moveUnchanged_def)

lemma outcomes_fields [simp]:
  "outcomes (r\<lparr>rn_world := w\<rparr>) = outcomes r" "outcomes (r\<lparr>rn_free := x\<rparr>) = outcomes r"
  "outcomes (r\<lparr>rn_moved := x\<rparr>) = outcomes r" "outcomes (r\<lparr>rn_total_files := x\<rparr>) = outcomes r"
  "outcomes (r\<lparr>rn_total_bytes := x\<rparr>) = outcomes r"
  by (simp_all add: outcomes_def)

lemma outcomes_fail [simp]: "outcomes (fail cx e r) = outcomes r + 1"
  by (simp add: fail_def Let_def) (simp add: outcomes_def)

lemma outcomes_sync [simp]: "outcomes (sync_unchanged cx sfs d i v r) = outcomes r"
  by (simp add: sync_unchanged_def Let_def split: prod.split option.split)

lemma outcomes_finish: "outcomes (finishUnchangedFile cx sfs s d i v r) = outcomes r + 1"
proof -
  have "outcomes (x\<lparr>rn_updated := rn_updated x + 1\<rparr>) = outcomes x + 1"
    "outcomes (x\<lparr>rn_skipped := rn_skipped x + 1\<rparr>) = outcomes x + 1" for x :: "'a runner"
    by (simp_all add: outcomes_def)
  then show ?thesis by (simp add: finishUnchangedFile_def Let_def)
qed

lemma copy_once_frame:
  "copy_once cx job r = (res, r') \<Longrightarrow> outcomes r' = outcomes r \<and> rn_aborted r' = rn_aborted r"
  by (auto simp: copy_once_def split: prod.splits)

lemma copy_attempts_frame:
  "copy_attempts cx job k r = (res, r') \<Longrightarrow> outcomes r' = outcomes r \<and> rn_aborted r' = rn_aborted r"
proof (induction k arbitrary: r)
  case 0
  then show ?case using copy_once_frame by simp
next
  case (Suc k)
  obtain n err r1 where c: "copy_once cx job r = ((n, err), r1)" by (metis prod.exhaust)
  then show ?case using Suc.IH [of r1] Suc.prems copy_once_frame [OF c] by (auto split: if_splits)
qed

lemma record_copy_outcomes:
  "outcomes (record_copy cx job why n err r) =
     (if \<exists>e. err = Some e \<and> \<not> isMetaErr err \<and> err_is e (Sentinel ErrCanceled) then outcomes r else outcomes r + 1)"
proof -
  have "rn_files x = k \<Longrightarrow> outcomes (x\<lparr>rn_files := k + 1, rn_bytes := y\<rparr>) = outcomes x + 1"
    for x :: "'a runner" and y k
    by (simp add: outcomes_def)
  then show ?thesis by (auto simp: record_copy_def Let_def split: option.split)
qed

lemma reserveSpace_frame:
  "reserveSpace cx d k r = (ok, r') \<Longrightarrow> outcomes r' = outcomes r \<and> (\<not> ok \<longrightarrow> rn_aborted r' \<noteq> None)"
  by (auto simp: reserveSpace_def Let_def setAbort_def out_defs outcomes_def split: if_splits option.splits)

text \<open>C13: A queued file has exactly one outcome. A worker counts it once, as copied, failed, skipped or
  updated; the only files it counts as nothing are the one that finds the destination full, which
  aborts the run, and one whose copy was cancelled.\<close>

theorem copy_one_has_one_outcome:
  "outcomes (copyOne cx job r) = outcomes r + 1 \<or>
   outcomes (copyOne cx job r) = outcomes r \<and>
     (rn_aborted (copyOne cx job r) \<noteq> None \<or>
      (\<exists>e. snd (fst (copy_attempts cx job maxRetries (snd (reserveSpace cx (jb_dst job) (fi_size (jb_info job)) r)))) =
         Some e \<and> err_is e (Sentinel ErrCanceled)))"
proof -
  let ?v = "compare (cx_hash cx) (jb_fs job) (jb_src job) (jb_info job) (cx_dfs cx) (jb_dst job)
      (op_checksum (cx_opts cx)) (rn_world r)"
  show ?thesis
  proof (cases "jb_check job \<and> \<not> vd_need_copy ?v")
    case True
    then show ?thesis by (simp add: copyOne_def Let_def outcomes_finish)
  next
    case False
    obtain ok r1 where rs: "reserveSpace cx (jb_dst job) (fi_size (jb_info job)) r = (ok, r1)" by fastforce
    obtain n err r2 where ca: "copy_attempts cx job maxRetries r1 = ((n, err), r2)" by (metis prod.exhaust)
    let ?why = "if jb_check job then vd_reason ?v else jb_reason job"
    have "copyOne cx job r = (if \<not> ok then r1 else record_copy cx job ?why n err r2)"
      unfolding copyOne_def Let_def if_not_P [OF False] rs prod.case ca by simp
    then show ?thesis
      using reserveSpace_frame [OF rs] copy_attempts_frame [OF ca] rs ca
        record_copy_outcomes [of cx job ?why n err r2] by auto
  qed
qed

subsection \<open>Free space\<close>

text \<open>The space guard never aborts on its estimate alone. A file is refused only when the space
  guard is on and a fresh measurement of the destination directory, taken at that moment, is smaller
  than the file; the refusal aborts the run.\<close>

lemma space_guard_needs_measurement:
  assumes "reserveSpace cx dst need r = (False, r')"
  shows "rn_space_check r \<and> rn_aborted r' \<noteq> None \<and>
    (\<exists>avail. fs_avail (cx_dfs cx) (rn_world r) (fs_dir (cx_dfs cx) dst) = Some avail \<and> avail < need)"
  using assms
  by (auto simp: reserveSpace_def Let_def setAbort_def out_defs split: if_splits option.splits)

subsection \<open>The progress measure\<close>

definition progressCount :: "'w runner \<Rightarrow> int" where
  "progressCount r =
     rn_moved r + rn_total_bytes r + rn_total_files r + rn_files r + rn_dirs r + rn_symlinks r +
     rn_linked r + rn_deleted r + rn_skipped r + rn_meta_done r"

lemma progress_out [simp]:
  "progressCount (item cx m a r) = progressCount r" "progressCount (warn cx m a r) = progressCount r"
  "progressCount (verbose cx m a r) = progressCount r" "progressCount (moveSource cx sfs p q r) = progressCount r"
  "progressCount (r\<lparr>rn_world := w\<rparr>) = progressCount r" "progressCount (r\<lparr>rn_updated := x\<rparr>) = progressCount r"
  by (simp_all add: progressCount_def out_defs moveSource_def)

lemma progress_moveUnchanged [simp]: "progressCount (moveUnchanged cx sfs p q r) = progressCount r"
  by (simp add: moveUnchanged_def)

lemma progress_sync [simp]: "progressCount (sync_unchanged cx sfs d i v r) = progressCount r"
  by (simp add: sync_unchanged_def Let_def split: prod.split option.split)

text \<open>The watchdog's measure of progress can fall. Settling a queued file that turns out to be
  unchanged takes its discovery back, so the measure drops by the file's size, less one when the
  file counts as skipped, although the run went forward; for an empty file that is skipped it stays
  where it was.\<close>

lemma unchanged_file_is_negative_progress:
  assumes "jb_check job"
    and "\<not> vd_need_copy (compare (cx_hash cx) (jb_fs job) (jb_src job) (jb_info job) (cx_dfs cx) (jb_dst job)
      (op_checksum (cx_opts cx)) (rn_world r))"
    and "op_no_preserve (cx_opts cx)"
  shows "progressCount (copyOne cx job r) = progressCount r - fi_size (jb_info job)"
proof -
  have "progressCount (r\<lparr>rn_total_files := rn_total_files r - 1, rn_total_bytes := rn_total_bytes r - k,
      rn_skipped := rn_skipped r + 1\<rparr>) = progressCount r - k" for k
    by (simp add: progressCount_def)
  then show ?thesis
    using assms by (simp add: copyOne_def Let_def finishUnchangedFile_def preserve_def)
qed

end
