(* ===== verification/DirSpec.thy ===== *)
theory DirSpec
  imports EngineSpec
begin

text \<open>
  The metadata of directories: the counts of dirmeta.go agree with the queued work at every moment,
  so every directory entered is queued for its metadata exactly once, after the last of its children.
  This holds in the order in which Engine puts a run, where an operation of dirmeta.go is one step;
  DirRace says what remains of it when the atomic accesses of several threads interleave.
\<close>

definition parents :: "nat \<Rightarrow> nat option list \<Rightarrow> int" where
  "parents d ps = int (length (filter (\<lambda>p. p = Some d) ps))"

definition work_parents :: "'w runner \<Rightarrow> nat option list" where
  "work_parents r = map jb_parent (rn_jobs r) @ map lk_parent (rn_hardlinks r)"

text \<open>The invariant, over the parents \<open>ps\<close> of the work still to do.\<close>

definition dirs_inv :: "nat option list \<Rightarrow> 'w runner \<Rightarrow> bool" where
  "dirs_inv ps r \<longleftrightarrow>
     (\<forall>d < length (rn_dir_states r).
        dt_pending (rn_dir_states r ! d) = parents d ps \<and>
        (dt_queued (rn_dir_states r ! d) \<longleftrightarrow> dt_closed (rn_dir_states r ! d) \<and> parents d ps = 0) \<and>
        (d \<in> set (rn_meta_jobs r) \<longleftrightarrow> dt_closed (rn_dir_states r ! d) \<and> parents d ps = 0)) \<and>
     (\<forall>d. Some d \<in> set ps \<longrightarrow> d < length (rn_dir_states r)) \<and>
     distinct (rn_meta_jobs r) \<and> (\<forall>d \<in> set (rn_meta_jobs r). d < length (rn_dir_states r)) \<and>
     rn_meta_total r = int (length (rn_dir_states r)) \<and> rn_meta_done r = 0"

definition open_dir :: "nat option \<Rightarrow> 'w runner \<Rightarrow> bool" where
  "open_dir p r \<longleftrightarrow> (case p of None \<Rightarrow> True
     | Some d \<Rightarrow> d < length (rn_dir_states r) \<and> \<not> dt_closed (rn_dir_states r ! d))"

definition dirs_grow :: "'w runner \<Rightarrow> 'w runner \<Rightarrow> bool" where
  "dirs_grow r r' \<longleftrightarrow>
     length (rn_dir_states r) \<le> length (rn_dir_states r') \<and>
     (\<forall>d < length (rn_dir_states r). dt_closed (rn_dir_states r' ! d) = dt_closed (rn_dir_states r ! d)) \<and>
     (\<forall>d < length (rn_dir_states r'). length (rn_dir_states r) \<le> d \<longrightarrow> dt_closed (rn_dir_states r' ! d))"

definition walk_dirs :: "'w runner \<Rightarrow> bool" where
  "walk_dirs r \<longleftrightarrow> dirs_inv (work_parents r) r"

lemma parents_simps [simp]:
  "parents d [] = 0" "parents d (p # ps) = (if p = Some d then 1 else 0) + parents d ps"
  "parents d (ps @ qs) = parents d ps + parents d qs"
  by (simp_all add: parents_def)

lemma parents_nonneg: "0 \<le> parents d ps"
  by (simp add: parents_def)

lemma parents_zero: "parents d ps = 0 \<longleftrightarrow> Some d \<notin> set ps"
  by (induction ps) (auto simp: parents_nonneg add_nonneg_eq_0_iff)

lemma nth_upd: "xs[i := f (xs ! i)] ! j = (if i = j \<and> j < length xs then f (xs ! j) else xs ! j)"
  by (cases "i < length xs") (auto simp: nth_list_update list_update_beyond)

lemma dirs_inv_cong:
  "rn_dir_states r' = rn_dir_states r \<Longrightarrow> rn_meta_jobs r' = rn_meta_jobs r \<Longrightarrow>
     rn_meta_total r' = rn_meta_total r \<Longrightarrow> rn_meta_done r' = rn_meta_done r \<Longrightarrow>
     dirs_inv ps r' = dirs_inv ps r"
  by (simp add: dirs_inv_def)

lemma dirs_inv_none: "dirs_inv (None # ps) r = dirs_inv ps r"
  unfolding dirs_inv_def by simp

lemma dirs_inv_perm:
  "(\<And>d. parents d qs = parents d ps) \<Longrightarrow> set qs = set ps \<Longrightarrow> dirs_inv qs r = dirs_inv ps r"
  by (simp add: dirs_inv_def)

lemma dirs_grow_refl: "dirs_grow r r"
  by (simp add: dirs_grow_def)

lemma dirs_grow_trans:
  assumes a: "dirs_grow r r'" and b: "dirs_grow r' r''"
  shows "dirs_grow r r''"
  unfolding dirs_grow_def
proof (intro conjI allI impI)
  show "length (rn_dir_states r) \<le> length (rn_dir_states r'')" using a b by (simp add: dirs_grow_def)
next
  fix d assume "d < length (rn_dir_states r)"
  then show "dt_closed (rn_dir_states r'' ! d) = dt_closed (rn_dir_states r ! d)"
    using a b by (simp add: dirs_grow_def)
next
  fix d assume "d < length (rn_dir_states r'')" "length (rn_dir_states r) \<le> d"
  then show "dt_closed (rn_dir_states r'' ! d)"
    using a b by (cases "d < length (rn_dir_states r')") (simp_all add: dirs_grow_def)
qed

lemma dirs_grow_same: "rn_dir_states r' = rn_dir_states r \<Longrightarrow> dirs_grow r r'"
  by (simp add: dirs_grow_def)

lemma open_dir_mono: "dirs_grow r r' \<Longrightarrow> open_dir p r \<Longrightarrow> open_dir p r'"
  by (auto simp: dirs_grow_def open_dir_def split: option.splits)

subsection \<open>Adding and completing work\<close>

lemma upd_dir_states [simp]:
  "rn_dir_states (upd_dir d g r) = (rn_dir_states r)[d := g (rn_dir_states r ! d)]"
  "rn_meta_jobs (upd_dir d g r) = rn_meta_jobs r" "rn_meta_total (upd_dir d g r) = rn_meta_total r"
  "rn_meta_done (upd_dir d g r) = rn_meta_done r"
  "rn_jobs (upd_dir d g r) = rn_jobs r" "rn_hardlinks (upd_dir d g r) = rn_hardlinks r"
  by (simp_all add: upd_dir_def)

lemma add_work_inv:
  assumes "dirs_inv ps r" and "open_dir p r"
  shows "dirs_inv (p # ps) (addDirWork p r)"
proof (cases p)
  case None
  then show ?thesis using assms(1) by (simp add: addDirWork_def dirs_inv_none)
next
  case (Some d)
  have d: "d < length (rn_dir_states r)" "\<not> dt_closed (rn_dir_states r ! d)"
    using assms(2) Some by (auto simp: open_dir_def)
  then have "d \<notin> set (rn_meta_jobs r)" "\<not> dt_queued (rn_dir_states r ! d)"
    using assms(1) by (auto simp: dirs_inv_def)
  with assms(1) d Some show ?thesis
    by (auto simp: dirs_inv_def addDirWork_def nth_upd)
qed

lemma add_work_grow: "dirs_grow r (addDirWork p r)"
  by (auto simp: dirs_grow_def addDirWork_def nth_upd split: option.split)

lemma add_work_open: "open_dir q r \<Longrightarrow> open_dir q (addDirWork p r)"
  using open_dir_mono add_work_grow by blast

text \<open>Queueing a closed directory with nothing pending, the one place where the invariant is restored.\<close>

definition dirs_inv_but :: "nat \<Rightarrow> nat option list \<Rightarrow> 'w runner \<Rightarrow> bool" where
  "dirs_inv_but e ps r \<longleftrightarrow>
     (\<forall>d < length (rn_dir_states r).
        dt_pending (rn_dir_states r ! d) = parents d ps \<and>
        (dt_queued (rn_dir_states r ! d) \<longleftrightarrow> d \<noteq> e \<and> dt_closed (rn_dir_states r ! d) \<and> parents d ps = 0) \<and>
        (d \<in> set (rn_meta_jobs r) \<longleftrightarrow> d \<noteq> e \<and> dt_closed (rn_dir_states r ! d) \<and> parents d ps = 0)) \<and>
     (\<forall>d. Some d \<in> set ps \<longrightarrow> d < length (rn_dir_states r)) \<and>
     distinct (rn_meta_jobs r) \<and> (\<forall>d \<in> set (rn_meta_jobs r). d < length (rn_dir_states r)) \<and>
     rn_meta_total r = int (length (rn_dir_states r)) \<and> rn_meta_done r = 0"

lemma queue_inv:
  assumes "dirs_inv_but e ps r" and e: "e < length (rn_dir_states r)"
  shows "dirs_inv ps (if dt_pending (rn_dir_states r ! e) = 0 \<and> dt_closed (rn_dir_states r ! e)
    then queueDirMeta e r else r)"
proof (cases "dt_pending (rn_dir_states r ! e) = 0 \<and> dt_closed (rn_dir_states r ! e)")
  case True
  have "e \<notin> set (rn_meta_jobs r)" using assms by (auto simp: dirs_inv_but_def)
  then show ?thesis using assms True
    by (auto simp: dirs_inv_def dirs_inv_but_def queueDirMeta_def Let_def nth_upd)
next
  case False
  then have "dirs_inv ps r" using assms by (auto simp: dirs_inv_def dirs_inv_but_def)
  with False show ?thesis by auto
qed

lemma complete_inv:
  assumes "dirs_inv (p # ps) r"
  shows "dirs_inv ps (completeDirWork p r)"
proof (cases p)
  case None
  then show ?thesis using assms by (simp add: completeDirWork_def dirs_inv_none)
next
  case (Some d)
  let ?r = "upd_dir d (\<lambda>s. s\<lparr>dt_pending := dt_pending s - 1\<rparr>) r"
  have d: "d < length (rn_dir_states r)" using assms Some by (simp add: dirs_inv_def)
  have "dt_pending (rn_dir_states r ! d) = 1 + parents d ps" using assms Some d by (simp add: dirs_inv_def)
  then have nq: "\<not> dt_queued (rn_dir_states r ! d)"
    using assms d parents_nonneg [of d ps] by (auto simp: dirs_inv_def)
  have "dirs_inv_but d ps ?r"
    using assms Some d parents_nonneg [of d ps] by (auto simp: dirs_inv_def dirs_inv_but_def nth_upd)
  from queue_inv [OF this] d Some show ?thesis
    by (auto simp: completeDirWork_def Let_def nth_upd)
qed

lemma close_inv:
  assumes "dirs_inv ps r" and "open_dir (Some d) r"
  shows "dirs_inv ps (closeDir (Some d) r)"
proof -
  let ?r = "upd_dir d (\<lambda>s. s\<lparr>dt_closed := True\<rparr>) r"
  have d: "d < length (rn_dir_states r)" "\<not> dt_closed (rn_dir_states r ! d)"
    using assms(2) by (auto simp: open_dir_def)
  then have nq: "\<not> dt_queued (rn_dir_states r ! d)" using assms(1) by (auto simp: dirs_inv_def)
  have "dirs_inv_but d ps ?r"
    using assms d by (auto simp: dirs_inv_def dirs_inv_but_def nth_upd)
  from queue_inv [OF this] d show ?thesis
    by (auto simp: closeDir_def Let_def nth_upd)
qed

lemma closeDir_work [simp]: "work_parents (closeDir p r) = work_parents r"
  by (simp add: work_parents_def closeDir_def queueDirMeta_def Let_def split: option.split)

lemma closeDir_closed:
  "length (rn_dir_states (closeDir (Some d) r)) = length (rn_dir_states r)"
  "e < length (rn_dir_states r) \<Longrightarrow> dt_closed (rn_dir_states (closeDir (Some d) r) ! e) \<longleftrightarrow>
     e = d \<or> dt_closed (rn_dir_states r ! e)"
  by (auto simp: closeDir_def queueDirMeta_def Let_def nth_upd)

lemma closed_state:
  assumes nd: "newDirState cx sfs a b fi r = (st, r1)" and j: "walk_dirs r" and g: "dirs_grow r1 r2"
    and j2: "walk_dirs r2"
  shows "walk_dirs (closeDir st r2) \<and> dirs_grow r (closeDir st r2)"
proof (cases st)
  case None
  then have "r1 = r" using nd by (auto simp: newDirState_def split: if_splits)
  then show ?thesis using None g j2 by (simp add: closeDir_def)
next
  case (Some d)
  then have d: "d = length (rn_dir_states r)" "length (rn_dir_states r1) = Suc d"
    "\<not> dt_closed (rn_dir_states r1 ! d)" "\<And>e. e < d \<Longrightarrow> rn_dir_states r1 ! e = rn_dir_states r ! e"
    using nd by (auto simp: newDirState_def nth_append split: if_splits)
  have g': "Suc d \<le> length (rn_dir_states r2)"
    "\<And>e. e < Suc d \<Longrightarrow> dt_closed (rn_dir_states r2 ! e) = dt_closed (rn_dir_states r1 ! e)"
    "\<And>e. e < length (rn_dir_states r2) \<Longrightarrow> Suc d \<le> e \<Longrightarrow> dt_closed (rn_dir_states r2 ! e)"
    using g d(2) by (auto simp: dirs_grow_def)
  have op: "open_dir (Some d) r2" using g' d(3) by (auto simp: open_dir_def)
  have "walk_dirs (closeDir st r2)" using close_inv [OF _ op] j2 Some by (simp add: walk_dirs_def)
  moreover have "dirs_grow r (closeDir st r2)"
    unfolding dirs_grow_def Some closeDir_closed(1)
  proof (intro conjI allI impI)
    show "length (rn_dir_states r) \<le> length (rn_dir_states r2)" using d(1) g'(1) by simp
  next
    fix e assume "e < length (rn_dir_states r)"
    then show "dt_closed (rn_dir_states (closeDir (Some d) r2) ! e) = dt_closed (rn_dir_states r ! e)"
      using d g'(1) g'(2) [of e] by (simp add: closeDir_closed)
  next
    fix e assume "e < length (rn_dir_states r2)" "length (rn_dir_states r) \<le> e"
    then show "dt_closed (rn_dir_states (closeDir (Some d) r2) ! e)"
      using d(1) g'(3) [of e] by (cases "e = d") (simp_all add: closeDir_closed)
  qed
  ultimately show ?thesis by blast
qed

lemma enqueue_dirs:
  assumes "walk_dirs r" and "open_dir p r"
  shows "walk_dirs (enqueueFile cx rt sp dp fi p chk why r) \<and> dirs_grow r (enqueueFile cx rt sp dp fi p chk why r)"
proof -
  let ?r = "r\<lparr>rn_total_files := rn_total_files r + 1, rn_total_bytes := rn_total_bytes r + fi_size fi\<rparr>"
  have i: "dirs_inv (work_parents r) ?r" using assms(1) by (simp add: walk_dirs_def dirs_inv_def)
  have o: "open_dir p ?r" using assms(2) by (simp add: open_dir_def split: option.splits)
  show ?thesis
  proof (cases "dry cx")
    case True
    then show ?thesis using i
      by (simp add: enqueueFile_def Let_def walk_dirs_def out_defs work_parents_def dirs_inv_def dirs_grow_def)
  next
    case False
    let ?q = "enqueueFile cx rt sp dp fi p chk why r"
    have q: "rn_dir_states ?q = rn_dir_states (addDirWork p ?r)" "rn_meta_jobs ?q = rn_meta_jobs (addDirWork p ?r)"
      "rn_meta_total ?q = rn_meta_total (addDirWork p ?r)" "rn_meta_done ?q = rn_meta_done (addDirWork p ?r)"
      "work_parents ?q = map jb_parent (rn_jobs r) @ p # map lk_parent (rn_hardlinks r)"
      using False by (simp_all add: enqueueFile_def Let_def work_parents_def)
    have "dirs_inv (work_parents ?q) (addDirWork p ?r) = dirs_inv (p # work_parents r) (addDirWork p ?r)"
      unfolding q(5) by (rule dirs_inv_perm) (auto simp: work_parents_def)
    then have "dirs_inv (work_parents ?q) (addDirWork p ?r)" using add_work_inv [OF i o] by simp
    then have "walk_dirs ?q" unfolding walk_dirs_def using dirs_inv_cong [OF q(1-4)] by simp
    moreover have "dirs_grow ?r (addDirWork p ?r)" by (rule add_work_grow)
    then have "dirs_grow r ?q" by (simp add: dirs_grow_def q(1))
    ultimately show ?thesis by blast
  qed
qed

lemma defer_dirs:
  assumes "walk_dirs r" and "open_dir p r" and "lk_parent l = p"
  shows "walk_dirs ((addDirWork p r)\<lparr>rn_hardlinks := rn_hardlinks (addDirWork p r) @ [l]\<rparr>) \<and>
    dirs_grow r ((addDirWork p r)\<lparr>rn_hardlinks := rn_hardlinks (addDirWork p r) @ [l]\<rparr>)"
proof -
  let ?q = "(addDirWork p r)\<lparr>rn_hardlinks := rn_hardlinks (addDirWork p r) @ [l]\<rparr>"
  have "work_parents ?q = work_parents r @ [p]" using assms(3) by (simp add: work_parents_def)
  moreover have "dirs_inv (work_parents r @ [p]) (addDirWork p r)"
    using add_work_inv [OF _ assms(2)] assms(1)
      dirs_inv_perm [of "work_parents r @ [p]" "p # work_parents r" "addDirWork p r"]
    by (auto simp: walk_dirs_def)
  ultimately have "walk_dirs ?q" by (simp add: walk_dirs_def dirs_inv_def)
  moreover have "dirs_grow r ?q" using add_work_grow [of r p] by (simp add: dirs_grow_def)
  ultimately show ?thesis by blast
qed

lemma new_dirs:
  assumes "walk_dirs r" and nd: "newDirState cx sfs a b fi r = (st, r1)"
  shows "walk_dirs r1 \<and> open_dir st r1"
proof (cases st)
  case None
  then show ?thesis using assms by (auto simp: newDirState_def open_dir_def split: if_splits)
next
  case (Some d)
  then have d: "d = length (rn_dir_states r)" "rn_dir_states r1 = rn_dir_states r @
      [\<lparr>dt_fs = sfs, dt_src = a, dt_dst = b, dt_info = fi, dt_pending = 0, dt_closed = False, dt_queued = False\<rparr>]"
    "rn_meta_jobs r1 = rn_meta_jobs r" "rn_meta_total r1 = rn_meta_total r + 1" "rn_meta_done r1 = rn_meta_done r"
    "work_parents r1 = work_parents r"
    using nd by (auto simp: newDirState_def work_parents_def split: if_splits)
  have inv: "dirs_inv (work_parents r) r" using assms(1) by (simp add: walk_dirs_def)
  then have "Some d \<notin> set (work_parents r)" "d \<notin> set (rn_meta_jobs r)" by (auto simp: dirs_inv_def d(1))
  then have "dirs_inv (work_parents r) r1"
    using inv parents_zero [of d "work_parents r"]
    by (auto simp: dirs_inv_def d less_Suc_eq nth_append)
  then show ?thesis using Some d by (simp add: walk_dirs_def open_dir_def)
qed

text \<open>The count of directories is read by none of these.\<close>

lemma dirs_count [simp]:
  "walk_dirs (r\<lparr>rn_dirs := k\<rparr>) = walk_dirs r" "open_dir p (r\<lparr>rn_dirs := k\<rparr>) = open_dir p r"
  "dirs_grow (r\<lparr>rn_dirs := k\<rparr>) r' = dirs_grow r r'"
  by (simp_all add: walk_dirs_def dirs_inv_def work_parents_def open_dir_def dirs_grow_def split: option.split)

interpretation dirs_law: walk_law cx walk_dirs dirs_grow open_dir for cx :: "('w, 'd) ctx"
proof (unfold_locales, goal_cases)
  case 1 show ?case by (rule dirs_grow_refl)
next
  case 2 then show ?case by (rule dirs_grow_trans)
next
  case 3 then show ?case by (rule open_dir_mono)
next
  case 4 show ?case by (simp add: open_dir_def)
next
  case (22 r p rt sp dp fi chk why)
  then show ?case by (rule enqueue_dirs)
next
  case (23 r p l)
  then show ?case by (rule defer_dirs)
next
  case (24 r sfs sd dd fi st r1)
  then show ?case using new_dirs by simp
next
  case (25 sfs sd dd fi r st r1 r2)
  then show ?case using closed_state by simp
qed (simp_all add: walk_dirs_def dirs_inv_def work_parents_def dirs_grow_def)

subsection \<open>Until the metadata workers are done\<close>

text \<open>What the copies and links leave alone.\<close>

definition same_dirs :: "'w runner \<Rightarrow> 'w runner \<Rightarrow> bool" where
  "same_dirs r r' \<longleftrightarrow>
     rn_dir_states r' = rn_dir_states r \<and> rn_meta_jobs r' = rn_meta_jobs r \<and>
     rn_meta_total r' = rn_meta_total r \<and> rn_meta_done r' = rn_meta_done r \<and>
     rn_jobs r' = rn_jobs r \<and> rn_hardlinks r' = rn_hardlinks r"

lemma same_dirs_refl [simp]: "same_dirs r r"
  by (simp add: same_dirs_def)

lemma same_dirs_trans: "same_dirs r r' \<Longrightarrow> same_dirs r' r'' \<Longrightarrow> same_dirs r r''"
  by (simp add: same_dirs_def)

lemma same_dirs_ops [simp]:
  "same_dirs r (item cx m a r') = same_dirs r r'" "same_dirs r (warn cx m a r') = same_dirs r r'"
  "same_dirs r (verbose cx m a r') = same_dirs r r'" "same_dirs r (elog m a r') = same_dirs r r'"
  "same_dirs r (setAbort e r') = same_dirs r r'" "same_dirs r (moveSource cx sfs p q r') = same_dirs r r'"
  "same_dirs r (r'\<lparr>rn_world := w\<rparr>) = same_dirs r r'" "same_dirs r (r'\<lparr>rn_free := x\<rparr>) = same_dirs r r'"
  "same_dirs r (r'\<lparr>rn_moved := x\<rparr>) = same_dirs r r'" "same_dirs r (r'\<lparr>rn_failed := x\<rparr>) = same_dirs r r'"
  "same_dirs r (r'\<lparr>rn_files := x, rn_bytes := y\<rparr>) = same_dirs r r'"
  "same_dirs r (r'\<lparr>rn_updated := x\<rparr>) = same_dirs r r'" "same_dirs r (r'\<lparr>rn_skipped := x\<rparr>) = same_dirs r r'"
  "same_dirs r (r'\<lparr>rn_linked := x\<rparr>) = same_dirs r r'"
  "same_dirs r (r'\<lparr>rn_total_files := x, rn_total_bytes := y\<rparr>) = same_dirs r r'"
  by (simp_all add: same_dirs_def out_defs setAbort_def moveSource_def)

lemma same_dirs_more [simp]:
  "same_dirs r (fail cx e r') = same_dirs r r'" "same_dirs r (moveUnchanged cx sfs p q r') = same_dirs r r'"
  by (simp_all add: fail_def Let_def moveUnchanged_def)

lemma same_dirs_sync [simp]: "same_dirs r (sync_unchanged cx sfs d i v r') = same_dirs r r'"
  by (simp add: sync_unchanged_def Let_def split: prod.split option.split)

lemma same_dirs_finish: "same_dirs r (finishUnchangedFile cx sfs s d i v r') = same_dirs r r'"
  by (simp add: finishUnchangedFile_def Let_def)

lemma same_dirs_copy_once: "copy_once cx job r = (res, r') \<Longrightarrow> same_dirs r r'"
  by (auto simp: copy_once_def same_dirs_def split: prod.splits)

lemma same_dirs_attempts: "copy_attempts cx job k r = (res, r') \<Longrightarrow> same_dirs r r'"
proof (induction k arbitrary: r)
  case 0
  then show ?case using same_dirs_copy_once by simp
next
  case (Suc k)
  obtain n err r1 where c: "copy_once cx job r = ((n, err), r1)" by (metis prod.exhaust)
  then show ?case using Suc.IH [of r1] Suc.prems same_dirs_copy_once [OF c] same_dirs_trans
    by (auto split: if_splits)
qed

lemma same_dirs_reserve: "reserveSpace cx d k r = (ok, r') \<Longrightarrow> same_dirs r r'"
  by (auto simp: reserveSpace_def Let_def split: if_splits option.splits)

lemma same_dirs_record: "same_dirs r (record_copy cx job why n err r') = same_dirs r r'"
  by (simp add: record_copy_def Let_def split: option.split)

lemma same_dirs_copyOne: "same_dirs r (copyOne cx job r)"
proof -
  let ?v = "compare (cx_hash cx) (jb_fs job) (jb_src job) (jb_info job) (cx_dfs cx) (jb_dst job)
      (op_checksum (cx_opts cx)) (rn_world r)"
  show ?thesis
  proof (cases "jb_check job \<and> \<not> vd_need_copy ?v")
    case True
    then show ?thesis by (simp add: copyOne_def Let_def same_dirs_finish)
  next
    case False
    obtain ok r1 where rs: "reserveSpace cx (jb_dst job) (fi_size (jb_info job)) r = (ok, r1)" by fastforce
    obtain n err r2 where ca: "copy_attempts cx job maxRetries r1 = ((n, err), r2)" by (metis prod.exhaust)
    have "copyOne cx job r = (if \<not> ok then r1
        else record_copy cx job (if jb_check job then vd_reason ?v else jb_reason job) n err r2)"
      unfolding copyOne_def Let_def if_not_P [OF False] rs prod.case ca by simp
    then show ?thesis
      using same_dirs_reserve [OF rs] same_dirs_trans [OF same_dirs_reserve [OF rs] same_dirs_attempts [OF ca]]
      by (simp add: same_dirs_record)
  qed
qed

lemma same_dirs_inv: "same_dirs r r' \<Longrightarrow> dirs_inv ps r' = dirs_inv ps r"
  by (simp add: same_dirs_def dirs_inv_def)

text \<open>Every directory closed.\<close>

definition all_closed :: "'w runner \<Rightarrow> bool" where
  "all_closed r \<longleftrightarrow> (\<forall>d < length (rn_dir_states r). dt_closed (rn_dir_states r ! d))"

lemma upd_closed: "all_closed r \<Longrightarrow> (\<And>x. dt_closed (g x) = dt_closed x) \<Longrightarrow> all_closed (upd_dir d g r)"
  unfolding all_closed_def upd_dir_states(1)
  by (metis length_list_update nth_list_update_eq nth_list_update_neq)

lemma queue_closed: "all_closed r \<Longrightarrow> all_closed (queueDirMeta d r)"
  using upd_closed [of r "\<lambda>s. s\<lparr>dt_queued := True\<rparr>" d]
  by (simp add: queueDirMeta_def Let_def) (simp add: all_closed_def)

lemma complete_closed: "all_closed r \<Longrightarrow> all_closed (completeDirWork p r)"
  using upd_closed [of r "\<lambda>s. s\<lparr>dt_pending := dt_pending s - 1\<rparr>"] queue_closed
  by (auto simp: completeDirWork_def Let_def split: option.split)

lemma complete_length [simp]: "length (rn_dir_states (completeDirWork p r)) = length (rn_dir_states r)"
  by (simp add: completeDirWork_def queueDirMeta_def Let_def split: option.split)

lemma complete_work [simp]: "rn_jobs (completeDirWork p r) = rn_jobs r" "rn_hardlinks (completeDirWork p r) = rn_hardlinks r"
  by simp_all

lemma drain_inv:
  "dirs_inv (map jb_parent js @ ps) r \<Longrightarrow> all_closed r \<Longrightarrow>
     dirs_inv ps (drain_jobs cx js r) \<and> all_closed (drain_jobs cx js r) \<and>
     rn_hardlinks (drain_jobs cx js r) = rn_hardlinks r \<and>
     length (rn_dir_states (drain_jobs cx js r)) = length (rn_dir_states r)"
proof (induction js arbitrary: r)
  case (Cons j js)
  let ?r = "if rn_aborted r \<noteq> None then r else copyOne cx j r"
  have s: "same_dirs r ?r" using same_dirs_copyOne by auto
  have "dirs_inv (jb_parent j # map jb_parent js @ ps) ?r" using Cons.prems(1) same_dirs_inv [OF s] by simp
  then have "dirs_inv (map jb_parent js @ ps) (work_one cx j r)"
    unfolding work_one_def by (rule complete_inv)
  moreover have "all_closed ?r" using Cons.prems(2) s by (simp add: all_closed_def same_dirs_def)
  then have "all_closed (work_one cx j r)" unfolding work_one_def by (rule complete_closed)
  moreover have "rn_hardlinks (work_one cx j r) = rn_hardlinks r"
    "length (rn_dir_states (work_one cx j r)) = length (rn_dir_states r)"
    using s by (simp_all add: work_one_def same_dirs_def)
  ultimately show ?case using Cons.IH [of "work_one cx j r"] by simp
qed simp

lemma apply_link_same:
  "\<not> dry cx \<Longrightarrow> \<exists>r1. same_dirs r r1 \<and> apply_link cx l r = completeDirWork (lk_parent l) r1"
  by (cases "rn_aborted r")
    (auto simp: apply_link_def Let_def split: prod.split option.split
      intro!: exI [where P = "\<lambda>r1. same_dirs _ r1 \<and> completeDirWork _ _ = completeDirWork _ r1"])

lemma links_inv:
  "\<not> dry cx \<Longrightarrow> dirs_inv (map lk_parent ls) r \<Longrightarrow> all_closed r \<Longrightarrow>
     dirs_inv [] (applyHardlinks cx ls r) \<and> all_closed (applyHardlinks cx ls r) \<and>
     length (rn_dir_states (applyHardlinks cx ls r)) = length (rn_dir_states r)"
proof (induction ls arbitrary: r)
  case (Cons l ls)
  obtain r1 where r1: "same_dirs r r1" "apply_link cx l r = completeDirWork (lk_parent l) r1"
    using apply_link_same [OF Cons.prems(1)] by blast
  have "dirs_inv (lk_parent l # map lk_parent ls) r1" using Cons.prems(2) same_dirs_inv [OF r1(1)] by simp
  then have "dirs_inv (map lk_parent ls) (apply_link cx l r)" unfolding r1(2) by (rule complete_inv)
  moreover have "all_closed r1" using Cons.prems(3) r1(1) by (simp add: all_closed_def same_dirs_def)
  then have "all_closed (apply_link cx l r)" unfolding r1(2) by (rule complete_closed)
  moreover have "length (rn_dir_states (apply_link cx l r)) = length (rn_dir_states r)"
    using r1 by (simp add: same_dirs_def)
  ultimately show ?case using Cons.IH [OF Cons.prems(1)] by simp
qed simp

lemma drain_meta_count:
  "rn_meta_done (drain_meta cx ds r) = rn_meta_done r + int (length ds) \<and>
   rn_meta_total (drain_meta cx ds r) = rn_meta_total r"
  by (induction ds arbitrary: r) (auto simp: apply_dir_meta_def Let_def out_defs split: prod.split option.split)

subsection \<open>What is applied\<close>

text \<open>The directory a state stands for: the same from the walk to the end.\<close>

definition dir_data :: "'w dir_state \<Rightarrow> 'w fs \<times> string \<times> string \<times> file_info" where
  "dir_data s = (dt_fs s, dt_src s, dt_dst s, dt_info s)"

lemma upd_dir_data [simp]:
  "(\<And>s. dir_data (g s) = dir_data s) \<Longrightarrow> map dir_data (rn_dir_states (upd_dir d g r)) = map dir_data (rn_dir_states r)"
  by (cases "d < length (rn_dir_states r)") (simp_all add: map_update list_update_beyond list_update_same_conv)

lemma complete_data [simp]: "map dir_data (rn_dir_states (completeDirWork p r)) = map dir_data (rn_dir_states r)"
proof -
  have q: "map dir_data (rn_dir_states (queueDirMeta d r)) = map dir_data (rn_dir_states r)" for d and r :: "'a runner"
    using upd_dir_data [of "\<lambda>s. s\<lparr>dt_queued := True\<rparr>" d r] by (simp add: queueDirMeta_def Let_def dir_data_def del: upd_dir_states)
  show ?thesis
    using q upd_dir_data [of "\<lambda>s. s\<lparr>dt_pending := dt_pending s - 1\<rparr>" _ r]
    by (simp add: completeDirWork_def Let_def dir_data_def del: upd_dir_states split: option.split)
qed

lemma drain_data: "map dir_data (rn_dir_states (drain_jobs cx js r)) = map dir_data (rn_dir_states r)"
proof (induction js arbitrary: r)
  case (Cons j js)
  have "same_dirs r (if rn_aborted r \<noteq> None then r else copyOne cx j r)" using same_dirs_copyOne by auto
  then show ?case using Cons by (simp add: work_one_def same_dirs_def)
qed simp

lemma links_data: "\<not> dry cx \<Longrightarrow> map dir_data (rn_dir_states (applyHardlinks cx ls r)) = map dir_data (rn_dir_states r)"
proof (induction ls arbitrary: r)
  case (Cons l ls)
  obtain r1 where "same_dirs r r1" "apply_link cx l r = completeDirWork (lk_parent l) r1"
    using apply_link_same [OF Cons.prems] by blast
  then show ?case using Cons.IH [OF Cons.prems] by (simp add: same_dirs_def)
qed simp

text \<open>The change of the world that a directory's metadata is.\<close>

definition dir_meta :: "('w, 'd) ctx \<Rightarrow> 'w dir_state \<Rightarrow> 'w \<Rightarrow> 'w" where
  "dir_meta cx s w =
     snd (applyMeta (cx_env cx) (dt_fs s) (dt_src s) (cx_dfs cx) (dt_dst s) (Some (dt_info s)) (preserve cx) w)"

lemma dir_meta_data: "dir_data s = dir_data t \<Longrightarrow> dir_meta cx s = dir_meta cx t"
  by (simp add: dir_data_def dir_meta_def fun_eq_iff)

lemma drain_meta_world:
  "rn_world (drain_meta cx ds r) = fold (\<lambda>d. dir_meta cx (rn_dir_states r ! d)) ds (rn_world r)"
proof (induction ds arbitrary: r)
  case (Cons d ds)
  have "rn_world (apply_dir_meta cx d r) = dir_meta cx (rn_dir_states r ! d) (rn_world r)"
    "rn_dir_states (apply_dir_meta cx d r) = rn_dir_states r"
    by (simp_all add: apply_dir_meta_def dir_meta_def Let_def out_defs split: prod.split option.split)
  then show ?case using Cons by simp
qed simp

text \<open>One state for each directory that was read and counted.\<close>

definition dirs_counted :: "('w, 'd) ctx \<Rightarrow> 'w runner \<Rightarrow> bool" where
  "dirs_counted cx r \<longleftrightarrow> rn_meta_total r = (if dry cx \<or> \<not> preserve cx then 0 else rn_dirs r)"

lemma addDirWork_dirs [simp]: "rn_dirs (addDirWork p r) = rn_dirs r"
  by (simp add: addDirWork_def upd_dir_def split: option.split)

lemma closeDir_dirs [simp]: "rn_dirs (closeDir p r) = rn_dirs r" "rn_meta_total (closeDir p r) = rn_meta_total r"
  by (simp_all add: closeDir_def queueDirMeta_def upd_dir_def Let_def split: option.split)

interpretation count_law: walk_law cx "dirs_counted cx" "\<lambda>r r'. True" "\<lambda>p r. True" for cx :: "('w, 'd) ctx"
  by unfold_locales
    (auto simp: dirs_counted_def enqueueFile_def Let_def out_defs newDirState_def split: if_splits)

text \<open>The state when all copies and links of a real run are done.\<close>

definition after_links :: "('w, 'd) ctx \<Rightarrow> 'w runner \<Rightarrow> 'w runner" where
  "after_links cx r = (let r = worker cx r in applyHardlinks cx (rn_hardlinks r) r)"

lemma finish_after_links: "\<not> dry cx \<Longrightarrow> finish_copies cx r = metadataWorker cx (after_links cx r)"
  by (simp add: finish_copies_def after_links_def Let_def)

lemma metadata_queued_once:
  assumes "walk n cx (new_runner w) = Some (e, r)" and "\<not> dry cx"
  shows "distinct (rn_meta_jobs (after_links cx r)) \<and> set (rn_meta_jobs (after_links cx r)) = {..<length (rn_dir_states r)} \<and>
    rn_meta_total (after_links cx r) = int (length (rn_dir_states r)) \<and> rn_meta_done (after_links cx r) = 0 \<and>
    map dir_data (rn_dir_states (after_links cx r)) = map dir_data (rn_dir_states r)"
proof -
  have start: "walk_dirs (new_runner w)" by (simp add: walk_dirs_def dirs_inv_def work_parents_def)
  from dirs_law.walk_respects [OF assms(1) start]
  have r: "walk_dirs r" "all_closed r" by (auto simp: dirs_grow_def all_closed_def)
  let ?q = "worker cx r"
  have q: "dirs_inv (map lk_parent (rn_hardlinks r)) ?q \<and> all_closed ?q \<and> rn_hardlinks ?q = rn_hardlinks r \<and>
      length (rn_dir_states ?q) = length (rn_dir_states r)"
    unfolding worker_def
  proof (rule drain_inv [where r = "r\<lparr>rn_jobs := []\<rparr>", simplified])
    show "dirs_inv (map jb_parent (rn_jobs r) @ map lk_parent (rn_hardlinks r)) (r\<lparr>rn_jobs := []\<rparr>)"
      using r(1) by (simp add: walk_dirs_def work_parents_def dirs_inv_def)
    show "all_closed (r\<lparr>rn_jobs := []\<rparr>)" using r(2) by (simp add: all_closed_def)
  qed
  let ?l = "applyHardlinks cx (rn_hardlinks ?q) ?q"
  have l: "dirs_inv [] ?l" "all_closed ?l" and lens: "length (rn_dir_states ?l) = length (rn_dir_states r)"
    using links_inv [OF assms(2), of "rn_hardlinks ?q" ?q] q by simp_all
  then have "set (rn_meta_jobs ?l) = {..< length (rn_dir_states r)}" by (auto simp: dirs_inv_def all_closed_def)
  moreover have "map dir_data (rn_dir_states ?l) = map dir_data (rn_dir_states r)"
    using links_data [OF assms(2)] drain_data [of cx "rn_jobs r" "r\<lparr>rn_jobs := []\<rparr>"] by (simp add: worker_def)
  ultimately show ?thesis using l(1) lens by (simp add: after_links_def Let_def dirs_inv_def)
qed

text \<open>C12: Every directory gets its metadata exactly once, after its last child, in a run whose
  operations follow one another. The walk keeps one state for each directory it read and counts (none under
  \<open>--no-preserve\<close>). When the workers of a real run are done, the world is the one after the last copy and link with
  the metadata of each of these states, as the walk recorded it, applied exactly once, in some order; the
  progress counts say the same; this also holds for an aborted run.\<close>

theorem every_directory_gets_its_metadata:
  assumes "walk n cx (new_runner w) = Some (e, r)" and "\<not> op_dry_run (cx_opts cx)"
  shows "(\<exists>ds. distinct ds \<and> set ds = {..<length (rn_dir_states r)} \<and>
      rn_world (finish_copies cx r) = fold (\<lambda>d. dir_meta cx (rn_dir_states r ! d)) ds (rn_world (after_links cx r))) \<and>
    int (length (rn_dir_states r)) = (if op_no_preserve (cx_opts cx) then 0 else rn_dirs r) \<and>
    rn_meta_done (finish_copies cx r) = int (length (rn_dir_states r)) \<and>
    rn_meta_total (finish_copies cx r) = int (length (rn_dir_states r))"
proof -
  let ?l = "after_links cx r"
  note q = metadata_queued_once [OF assms]
  let ?ds = "rn_meta_jobs ?l"
  have data: "dir_meta cx (rn_dir_states ?l ! d) = dir_meta cx (rn_dir_states r ! d)" if "d \<in> set ?ds" for d
  proof (rule dir_meta_data)
    have "length (rn_dir_states ?l) = length (rn_dir_states r)" using q by (metis length_map)
    then show "dir_data (rn_dir_states ?l ! d) = dir_data (rn_dir_states r ! d)"
      using q that nth_map [of d "rn_dir_states ?l" dir_data] nth_map [of d "rn_dir_states r" dir_data] by simp
  qed
  have "rn_world (finish_copies cx r) = fold (\<lambda>d. dir_meta cx (rn_dir_states ?l ! d)) ?ds (rn_world ?l)"
    using finish_after_links [OF assms(2)] drain_meta_world [of cx ?ds "?l\<lparr>rn_meta_jobs := []\<rparr>"] by (simp add: metadataWorker_def)
  also have "\<dots> = fold (\<lambda>d. dir_meta cx (rn_dir_states r ! d)) ?ds (rn_world ?l)"
    by (rule fold_cong) (use data in simp_all)
  finally have w: "rn_world (finish_copies cx r) = fold (\<lambda>d. dir_meta cx (rn_dir_states r ! d)) ?ds (rn_world ?l)" .
  have "dirs_counted cx (new_runner w)" by (simp add: dirs_counted_def new_runner_def)
  then have "dirs_counted cx r" using count_law.walk_respects [OF assms(1)] by blast
  moreover have "rn_meta_total r = int (length (rn_dir_states r))"
    using dirs_law.walk_respects [OF assms(1)] by (simp add: walk_dirs_def dirs_inv_def work_parents_def)
  ultimately have c: "int (length (rn_dir_states r)) = (if op_no_preserve (cx_opts cx) then 0 else rn_dirs r)"
    using assms(2) by (simp add: dirs_counted_def preserve_def)
  have "int (length ?ds) = int (length (rn_dir_states r))" using q distinct_card [of ?ds] by simp
  then have "rn_meta_done (finish_copies cx r) = int (length (rn_dir_states r)) \<and>
      rn_meta_total (finish_copies cx r) = int (length (rn_dir_states r))"
    using finish_after_links [OF assms(2)] drain_meta_count [of cx ?ds "?l\<lparr>rn_meta_jobs := []\<rparr>"] q by (simp add: metadataWorker_def)
  then show ?thesis using w c q by blast
qed

end
