(* ===== verification/MoveSpec.thy ===== *)
theory MoveSpec
  imports EngineSpec Publish
begin

text \<open>
  What a run may take away: the removal of moved sources, the mirror pass and the containment guards,
  each against a step relation that says which changes of the world are allowed.
\<close>

subsection \<open>Removing moved sources\<close>

text \<open>The worlds reachable by removing recorded entries that are not their own destination.\<close>

inductive removals :: "('w, 'd) ctx \<Rightarrow> 'w moved_entry list \<Rightarrow> 'w \<Rightarrow> 'w \<Rightarrow> bool"
  for cx :: "('w, 'd) ctx" and es :: "'w moved_entry list" and w :: 'w
where
  removals_none: "removals cx es w w"
| removals_one: "removals cx es w w1 \<Longrightarrow> e \<in> set es \<Longrightarrow> \<not> sameEntry cx w1 e \<Longrightarrow>
    removals cx es w (snd (fs_remove (mv_fs e) (mv_src e) w1))"

lemma verbose_world [simp]: "rn_world (polled_ctx r) = rn_world r"
  by (simp add: polled_ctx_def)



lemma removeSource_recorded [simp]:
  "rn_moved_dirs (removeSource cx e dir r) = rn_moved_dirs r"
  "rn_moved_files (removeSource cx e dir r) = rn_moved_files r"
  by (simp_all add: removeSource_def Let_def fail_def setAbort_def out_defs split: prod.split option.split)



subsection \<open>What is recorded\<close>

lemma moved_out [simp]:
  "rn_moved_files (item cx m a r) = rn_moved_files r" "rn_moved_files (warn cx m a r) = rn_moved_files r"
  "rn_moved_files (fail cx e r) = rn_moved_files r" "rn_moved_files (verbose cx m a r) = rn_moved_files r"
  by (simp_all add: out_defs fail_def setAbort_def Let_def)

lemma copy_attempts_last:
  "copy_attempts cx job k r = (res, r') \<Longrightarrow>
     \<exists>r0. copy_once cx job r0 = (res, r') \<and> rn_moved_files r' = rn_moved_files r"
proof (induction k arbitrary: r)
  case 0
  then have "copy_once cx job r = (res, r')" by simp
  moreover from this have "rn_moved_files r' = rn_moved_files r"
    by (auto simp: copy_once_def split: prod.splits)
  ultimately show ?case by blast
next
  case (Suc k)
  obtain n err r1 where c: "copy_once cx job r = ((n, err), r1)" by (metis prod.exhaust)
  have m: "rn_moved_files r1 = rn_moved_files r" using c by (auto simp: copy_once_def split: prod.splits)
  show ?case
  proof (cases "err = None \<or> isMetaErr err \<or> \<not> retryable err \<or> rn_aborted r1 \<noteq> None")
    case True
    then have "res = (n, err) \<and> r' = r1" using Suc.prems c by (auto simp: Let_def split: if_splits)
    then show ?thesis using c m by blast
  next
    case False
    then have "copy_attempts cx job k r1 = (res, r')" using Suc.prems c by (cases err) auto
    from Suc.IH [OF this] m show ?thesis by simp
  qed
qed

lemma reserveSpace_moved: "reserveSpace cx d k r = (ok, r') \<Longrightarrow> rn_moved_files r' = rn_moved_files r"
  by (auto simp: reserveSpace_def Let_def setAbort_def out_defs split: if_splits option.splits)

text \<open>C16: A source is recorded for removal only when its bytes are at the destination. When the copy
  of a streamed file extends the list of moved sources, the entry is that file with its destination,
  and the destination holds exactly the bytes the source reads to.\<close>

theorem recorded_source_is_at_destination:
  assumes fs: "stream_fs (cx_dfs cx) (cx_env cx) obs owned at_end"
    and need: "jb_check job \<Longrightarrow> vd_need_copy (compare (cx_hash cx) (jb_fs job) (jb_src job) (jb_info job)
        (cx_dfs cx) (jb_dst job) (op_checksum (cx_opts cx)) (rn_world r))"
    and rec: "rn_moved_files (copyOne cx job r) \<noteq> rn_moved_files r"
    and inp: "\<And>w. fs_open (jb_fs job) w (jb_src job) = Inr inp" and st: "\<not> rd_is_os inp"
    and dst: "\<And>x. CHR ''/'' \<notin> set x \<Longrightarrow> jb_dst job \<noteq>
        fs_join (cx_dfs cx) (fs_dir (cx_dfs cx) (jb_dst job)) (''.basicopy-tmp-'' @ x)"
    and own: "isMetaErr err \<Longrightarrow> \<exists>p es. err = Some (MetaErr p es)"
    and att: "copy_attempts cx job maxRetries (snd (reserveSpace cx (jb_dst job) (fi_size (jb_info job)) r)) = ((n, err), r2)"
  shows "\<exists>d. read_chunks (rd_script inp (buf_size (copy_options cx r))) [] = Inr d \<and>
    hd (obs (rn_world (copyOne cx job r))) (jb_dst job) = Some d \<and>
    rn_moved_files (copyOne cx job r) =
      rn_moved_files r @ [\<lparr>mv_fs = jb_fs job, mv_src = jb_src job, mv_dst = jb_dst job\<rparr>]"
proof -
  let ?v = "compare (cx_hash cx) (jb_fs job) (jb_src job) (jb_info job) (cx_dfs cx) (jb_dst job)
      (op_checksum (cx_opts cx)) (rn_world r)"
  obtain ok r1 where rs: "reserveSpace cx (jb_dst job) (fi_size (jb_info job)) r = (ok, r1)" by fastforce
  have ca: "copy_attempts cx job maxRetries r1 = ((n, err), r2)" using att rs by simp
  have nc: "\<not> (jb_check job \<and> \<not> vd_need_copy ?v)" using need by blast
  let ?why = "if jb_check job then vd_reason ?v else jb_reason job"
  have co: "copyOne cx job r = (if \<not> ok then r1 else record_copy cx job ?why n err r2)"
    unfolding copyOne_def Let_def if_not_P [OF nc] rs prod.case ca by simp
  have m1: "rn_moved_files r1 = rn_moved_files r" using reserveSpace_moved [OF rs] .
  obtain r0 where r0: "copy_once cx job r0 = ((n, err), r2)" and m2: "rn_moved_files r2 = rn_moved_files r1"
    using copy_attempts_last [OF ca] by blast
  have ok: "ok" using rec m1 unfolding co by (cases ok) simp_all
  have good: "err = None \<or> isMetaErr err"
    using rec ok m1 m2 unfolding co by (auto simp: record_copy_def Let_def split: option.splits if_splits)
  then have nd: "\<not> data_failed err" using own by auto
  obtain s where cf: "copyFile (cx_env cx) (jb_fs job) (jb_src job) (cx_dfs cx) (jb_dst job) (Some (jb_info job))
      (copy_options cx r0) \<lparr>cs_world = rn_world r0, cs_moved = 0, cs_polls = 0\<rparr> = ((n, err), s)"
    and w2: "rn_world r2 = cs_world s"
    using r0 by (auto simp: copy_once_def split: prod.splits)
  obtain d where d: "read_chunks (rd_script inp (buf_size (copy_options cx r0))) [] = Inr d"
    "hd (obs (cs_world s)) (jb_dst job) = Some d"
    using stream_fs.copyFile_streams [OF fs cf dst inp st nd] by blast
  have "buf_size (copy_options cx r0) = buf_size (copy_options cx r)"
    by (simp add: copy_options_def buf_size_def)
  moreover have "rn_world (copyOne cx job r) = rn_world r2"
    using ok good unfolding co by (auto simp: record_copy_def Let_def moveSource_def)
  moreover have "rn_moved_files (copyOne cx job r) =
      rn_moved_files r @ [\<lparr>mv_fs = jb_fs job, mv_src = jb_src job, mv_dst = jb_dst job\<rparr>]"
    using rec ok good m1 m2 unfolding co by (auto simp: record_copy_def Let_def moveSource_def split: if_splits)
  ultimately show ?thesis using d w2 by simp
qed

subsection \<open>Mirror\<close>

text \<open>A destination below the mirrored root and the source it corresponds to.\<close>

inductive mirror_pair :: "'w fs \<Rightarrow> 'w fs \<Rightarrow> string \<Rightarrow> string \<Rightarrow> string \<Rightarrow> string \<Rightarrow> bool"
  for dfs :: "'w fs" and sfs :: "'w fs" and dest :: string and src :: string
where
  pair_root: "mirror_pair dfs sfs dest src dest src"
| pair_child: "mirror_pair dfs sfs dest src d s \<Longrightarrow> mirror_pair dfs sfs dest src (fs_join dfs d nm) (fs_join sfs s nm)"

text \<open>The changes a mirror pass may make: remove an entry whose source cannot be found at that moment,
  and reapply a directory's metadata.\<close>

inductive mirror_steps :: "('w, 'd) ctx \<Rightarrow> 'w fs \<Rightarrow> string \<Rightarrow> string \<Rightarrow> 'w \<Rightarrow> 'w \<Rightarrow> bool"
  for cx :: "('w, 'd) ctx" and sfs :: "'w fs" and dest :: string and src :: string and w :: 'w
where
  mirror_none: "mirror_steps cx sfs dest src w w"
| mirror_remove: "mirror_steps cx sfs dest src w w1 \<Longrightarrow> mirror_pair (cx_dfs cx) sfs dest src d s \<Longrightarrow>
    fs_lstat sfs w1 (fs_join sfs s nm) = Inl e \<Longrightarrow>
    mirror_steps cx sfs dest src w (snd (fs_remove_all (cx_dfs cx) (fs_join (cx_dfs cx) d nm) w1))"
| mirror_meta: "mirror_steps cx sfs dest src w w1 \<Longrightarrow> mirror_pair (cx_dfs cx) sfs dest src d s \<Longrightarrow>
    fs_lstat sfs w1 s = Inr fi \<Longrightarrow>
    mirror_steps cx sfs dest src w (snd (applyMeta (cx_env cx) sfs s (cx_dfs cx) d (Some fi) True w1))"

lemma mirror_entry_steps:
  assumes "mirror_steps cx sfs dest src w (rn_world r)" and "mirror_pair (cx_dfs cx) sfs dest src d s"
    and "fs_lstat sfs (rn_world r) (fs_join sfs s nm) = Inl e"
  shows "mirror_steps cx sfs dest src w (rn_world (snd (mirror_entry cx (fs_join (cx_dfs cx) d nm) r)))"
proof -
  have "rn_world (snd (mirror_entry cx (fs_join (cx_dfs cx) d nm) r)) =
      (if dry cx then rn_world r else snd (fs_remove_all (cx_dfs cx) (fs_join (cx_dfs cx) d nm) (rn_world r)))"
    by (auto simp: mirror_entry_def Let_def split: prod.split option.split)
  with assms(1) mirror_remove [OF assms] show ?thesis by simp
qed

lemma mirror_entries_steps:
  assumes sub: "\<And>d s r r'. sub d s r = Some r' \<Longrightarrow> mirror_pair (cx_dfs cx) sfs dest src d s \<Longrightarrow>
      mirror_steps cx sfs dest src w (rn_world r) \<Longrightarrow> mirror_steps cx sfs dest src w (rn_world r')"
    and pair: "mirror_pair (cx_dfs cx) sfs dest src d s"
  shows "mirror_entries cx sub sfs d s es b r = Some (b', r') \<Longrightarrow>
    mirror_steps cx sfs dest src w (rn_world r) \<Longrightarrow> mirror_steps cx sfs dest src w (rn_world r')"
proof (induction es arbitrary: b r)
  case (Cons e es)
  let ?d = "fs_join (cx_dfs cx) d (fi_name e)" and ?s = "fs_join sfs s (fi_name e)"
  show ?case
  proof (cases "fs_lstat sfs (rn_world r) ?s")
    case (Inl x)
    obtain g r1 where m: "mirror_entry cx ?d r = (g, r1)" by fastforce
    have "mirror_steps cx sfs dest src w (rn_world r1)"
      using mirror_entry_steps [OF Cons.prems(2) pair Inl] m by simp
    then show ?thesis using Cons.IH [of "b \<or> g" r1] Cons.prems(1) Inl m by (simp add: Let_def)
  next
    case (Inr fi)
    show ?thesis
    proof (cases "is_dir (fi_mode e)")
      case True
      then obtain r1 where r1: "sub ?d ?s r = Some r1" "mirror_entries cx sub sfs d s es b r1 = Some (b', r')"
        using Cons.prems(1) Inr by (auto simp: Let_def split: option.splits)
      from sub [OF r1(1) pair_child [OF pair] Cons.prems(2)] Cons.IH [OF r1(2)] show ?thesis by blast
    next
      case False
      then show ?thesis using Cons.IH [of b r] Cons.prems Inr by (simp add: Let_def)
    qed
  qed
qed simp

lemma mirrorDir_steps:
  "mirrorDir n cx sfs d s r = Some r' \<Longrightarrow> mirror_pair (cx_dfs cx) sfs dest src d s \<Longrightarrow>
     mirror_steps cx sfs dest src w (rn_world r) \<Longrightarrow> mirror_steps cx sfs dest src w (rn_world r')"
proof (induction n arbitrary: d s r r')
  case (Suc n)
  from restore_dir_meta_cases [OF Suc.prems(1)] show ?case
  proof (elim disjE exE conjE)
    fix es gone r1
    assume m: "mirror_entries cx (mirrorDir n cx sfs) sfs d s es False r = Some (gone, r1)"
      and r': "r' = (if gone \<and> preserve cx then restore_dir_meta cx sfs d s r1 else r1)"
    have s1: "mirror_steps cx sfs dest src w (rn_world r1)"
      using mirror_entries_steps [OF Suc.IH Suc.prems(2) m Suc.prems(3)] .
    have "mirror_steps cx sfs dest src w (rn_world (restore_dir_meta cx sfs d s r1))"
    proof (cases "fs_lstat sfs (rn_world r1) s")
      case (Inl e)
      then show ?thesis using s1 by (simp add: restore_dir_meta_def)
    next
      case (Inr fi)
      have "rn_world (restore_dir_meta cx sfs d s r1) =
          snd (applyMeta (cx_env cx) sfs s (cx_dfs cx) d (Some fi) True (rn_world r1))"
        using Inr by (auto simp: restore_dir_meta_def Let_def split: prod.split option.split)
      with mirror_meta [OF s1 Suc.prems(2) Inr] show ?thesis by simp
    qed
    with s1 r' show ?thesis by simp
  qed (use Suc.prems in simp)
qed simp

text \<open>C17: The mirror pass removes only entries without a source. Every change it makes to the world is
  either the removal of an entry below the mirrored destination whose counterpart could not be found
  in the source at that moment, or the reapplication of a directory's metadata.\<close>

theorem mirror_removes_only_extraneous:
  assumes "mirrorDir n cx sfs dest src r = Some r'"
  shows "mirror_steps cx sfs dest src (rn_world r) (rn_world r')"
  using mirrorDir_steps [OF assms pair_root mirror_none] .

text \<open>A source that cannot be examined counts as absent. Whatever the error of the source's
  \<open>Lstat\<close> (a refused permission or a lost connection included), the mirror pass deletes the
  destination entry and counts it as deleted.\<close>

lemma mirror_deletes_on_any_lstat_error:
  assumes "fs_lstat sfs (rn_world r) (fs_join sfs sd (fi_name e)) = Inl err"
    and "\<not> op_dry_run (cx_opts cx)"
    and "fs_remove_all (cx_dfs cx) (fs_join (cx_dfs cx) dd (fi_name e)) (rn_world r) = (None, w')"
  shows "\<exists>r'. mirror_entries cx sub sfs dd sd [e] False r = Some (True, r') \<and> rn_world r' = w' \<and>
    rn_deleted r' = rn_deleted r + 1"
  using assms by (simp add: mirror_entry_def Let_def) (simp add: out_defs)

subsection \<open>Containment\<close>

definition below :: "string list \<Rightarrow> string list \<Rightarrow> bool" where
  "below bs ts \<longleftrightarrow> take (length bs) ts = bs"

lemma rel_starts_up:
  assumes "list_all path_elem cs" and "cs \<noteq> []"
  shows "path_string False cs = ''..'' \<or> has_prefix (path_string False cs) ''../'' \<longleftrightarrow> hd cs = ''..''"
proof
  have j: "path_string False cs = join_with ''/'' cs" using join_rel_string [OF assms] .
  note sp = split_on_join_elems [OF assms(2,1)]
  assume "path_string False cs = ''..'' \<or> has_prefix (path_string False cs) ''../''"
  then consider "join_with ''/'' cs = ''..''" | x where "join_with ''/'' cs = ''..'' @ CHR ''/'' # x"
    unfolding j by (auto simp: has_prefix_iff)
  then show "hd cs = ''..''"
  proof cases
    case 1
    then have "split_on (CHR ''/'') (join_with ''/'' cs) = [''..'']" by simp
    with sp have "cs = [''..'']" by metis
    then show ?thesis by simp
  next
    case (2 x)
    then have "split_on (CHR ''/'') (join_with ''/'' cs) = ''..'' # split_on (CHR ''/'') x" by simp
    with sp have "cs = ''..'' # split_on (CHR ''/'') x" by metis
    then show ?thesis by simp
  qed
next
  assume h: "hd cs = ''..''"
  have j: "path_string False cs = join_with ''/'' cs" using join_rel_string [OF assms] .
  obtain c ds where cs: "cs = c # ds" using assms(2) by (cases cs) auto
  show "path_string False cs = ''..'' \<or> has_prefix (path_string False cs) ''../''"
    unfolding j using h cs by (cases ds) (simp_all add: has_prefix_def)
qed

lemma rel_comps_hd:
  assumes "list_all plain_name ts" and "bs \<noteq> ts"
  shows "hd (rel_comps bs ts) = ''..'' \<longleftrightarrow> \<not> below bs ts"
proof (cases "common_prefix_len bs ts = length bs")
  case True
  then have b: "below bs ts" by (simp add: below_def common_prefix_len_full)
  have rc: "rel_comps bs ts = drop (length bs) ts" by (simp add: rel_comps_def True)
  then have "drop (length bs) ts \<noteq> []" using assms(2) rel_comps_empty [of bs ts] by simp
  then have "hd (drop (length bs) ts) \<in> set ts" by (meson hd_in_set in_set_dropD)
  then show ?thesis using assms(1) b rc by (auto simp: list_all_iff plain_name_def)
next
  case False
  then have "\<not> below bs ts" by (simp add: below_def common_prefix_len_full)
  moreover have "length bs - common_prefix_len bs ts \<noteq> 0"
    using False common_prefix_len_le(1) [of bs ts] by simp
  then have "hd (rel_comps bs ts) = ''..''"
    by (cases "length bs - common_prefix_len bs ts") (simp_all add: rel_comps_def Let_def)
  ultimately show ?thesis by blast
qed

text \<open>The containment test is exact. For clean absolute local paths \<open>withinRoot\<close> holds exactly when
  the elements of the root are a prefix of the elements of the target; a sibling whose name merely
  begins with the root's name is outside.\<close>

lemma within_root_iff_below:
  assumes "list_all plain_name bs" and "list_all plain_name ts"
  shows "withinRoot (local_fs os) (path_string True bs) (path_string True ts) \<longleftrightarrow> below bs ts"
proof (cases "bs = ts")
  case True
  then have "fs_rel (local_fs os) (path_string True bs) (path_string True ts) = Inr ''.''"
    by (simp add: local_fs_def filepath_rel_def)
  then show ?thesis using True by (simp add: withinRoot_def below_def)
next
  case False
  let ?cs = "rel_comps bs ts"
  have e: "list_all path_elem ?cs" "?cs \<noteq> []" using rel_comps_elems [OF assms(2)] False by (simp_all add: rel_comps_empty)
  have "path_comps (path_string False ?cs) = ?cs" using path_comps_string [OF e(1)] .
  then have nd: "path_string False ?cs \<noteq> ''.''" using e(2) by (auto simp: path_comps_def)
  have "fs_rel (local_fs os) (path_string True bs) (path_string True ts) = Inr (path_string False ?cs)"
    using filepath_rel_abs [OF assms] by (simp add: local_fs_def)
  moreover have "fs_sep (local_fs os) = ''/''" by (simp add: local_fs_def)
  ultimately show ?thesis
    using nd rel_starts_up [OF e] rel_comps_hd [OF assms(2) False] by (auto simp: withinRoot_def)
qed

text \<open>C18: A directory is never copied into itself. When source and destination are local and the
  destination path is the source or lies below it, \<open>walkTargetDir\<close> reports the source as failed, creates
  nothing and visits nothing.\<close>

theorem no_copy_into_itself:
  assumes "is_dir (fi_mode fi)" and "cx_dfs cx = local_fs os"
    and "dest_path cx (local_fs os) src (op_contents (cx_opts cx)) = Inr (path_string True ts)"
    and "path_clean src = path_string True bs"
    and "list_all plain_name bs" and "list_all plain_name ts" and "below bs ts"
  shows "\<exists>e. walk_source n cx (local_fs os) src fi r = Some (None, fail cx e r)"
proof -
  have "fs_abs (local_fs os) (fs_clean (local_fs os) src) = Inr (path_string True bs)"
    using assms(4,5) path_clean_clean_abs [of "path_string True bs"]
    by (auto simp: local_fs_def local_abs_def clean_abs_def)
  moreover have "fs_abs (local_fs os) (path_string True ts) = Inr (path_string True ts)"
    using assms(6) path_clean_clean_abs [of "path_string True ts"]
    by (auto simp: local_fs_def local_abs_def clean_abs_def)
  moreover have "same_host (local_fs os) (local_fs os)" by (simp add: same_host_def)
  ultimately have "\<exists>e. overlap_error cx (local_fs os) src fi c (path_string True ts) = Some e" for c
    using assms(1,2,7) within_root_iff_below [OF assms(5,6), of os]
    by (auto simp: overlap_error_def)
  then obtain e where "overlap_error cx (local_fs os) src fi (op_contents (cx_opts cx)) (path_string True ts) = Some e"
    by blast
  then show ?thesis using assms(1,3) by (auto simp: walk_source_def Let_def)
qed

end
