(* ===== verification/VisitSpec.thy ===== *)
theory VisitSpec
  imports EngineSpec
begin

text \<open>
  That a run returns, what becomes of files with several links, and which entries a pattern excludes.
\<close>

subsection \<open>A run returns\<close>

text \<open>A bound on the depth of the directories a filesystem can list.\<close>

definition ranked :: "'w fs \<Rightarrow> (string \<Rightarrow> nat) \<Rightarrow> bool" where
  "ranked fsys m \<longleftrightarrow>
     (\<forall>w p es e. fs_read_dir fsys w p = Inr es \<longrightarrow> e \<in> set es \<longrightarrow> m (fs_join fsys p (fi_name e)) < m p)"

lemma visit_entries_returns:
  "(\<And>e r. e \<in> set es \<Longrightarrow> \<exists>r'. vis rt (fs_join (sr_fs rt) sd (fi_name e)) (fs_join (cx_dfs cx) dd (fi_name e)) e st r =
      Some r') \<Longrightarrow> \<exists>x. visit_entries cx vis rt sd dd st es r = Some x"
proof (induction es arbitrary: r)
  case (Cons e es)
  obtain r1 where "vis rt (fs_join (sr_fs rt) sd (fi_name e)) (fs_join (cx_dfs cx) dd (fi_name e)) e st
      (polled_ctx r) = Some r1"
    using Cons.prems [of e] by auto
  moreover have "\<exists>x. visit_entries cx vis rt sd dd st es r1 = Some x"
    by (rule Cons.IH) (use Cons.prems in simp)
  ultimately show ?case by (cases "halted cx r") auto
qed auto

definition descends :: "'w visitor \<Rightarrow> 'w src_root \<Rightarrow> (string \<Rightarrow> nat) \<Rightarrow> nat \<Rightarrow> bool" where
  "descends vis rt m n \<longleftrightarrow> (\<forall>sp dp fi p r. m sp < n \<longrightarrow> (\<exists>r'. vis rt sp dp fi p r = Some r'))"

lemma visitDir_returns:
  assumes d: "descends vis rt m n" and rk: "ranked (sr_fs rt) m" and sd: "m sd < Suc n"
  shows "\<exists>r'. visitDir cx vis rt sd dd fi r = Some r'"
proof -
  obtain e r1 where m: "make_dir cx dd (noteDirChange cx rt dd fi r) = (e, r1)" by fastforce
  show ?thesis
  proof (cases "e \<noteq> None \<or> halted cx r1 \<or> (\<exists>x. fs_read_dir (sr_fs rt) (rn_world (polled_ctx r1)) sd = Inl x)")
    case True
    then show ?thesis using m by (cases e) (auto simp: visitDir_def Let_def)
  next
    case False
    then obtain es where es: "fs_read_dir (sr_fs rt) (rn_world (polled_ctx r1)) sd = Inr es"
      by (cases "fs_read_dir (sr_fs rt) (rn_world (polled_ctx r1)) sd") auto
    obtain st r3 where nd: "newDirState cx (sr_fs rt) sd dd fi (polled_ctx r1) = (st, r3)" by fastforce
    have "\<exists>x. visit_entries cx vis rt sd dd st es (r3\<lparr>rn_dirs := rn_dirs r3 + 1\<rparr>) = Some x"
    proof (rule visit_entries_returns)
      fix e r
      assume "e \<in> set es"
      then have "m (fs_join (sr_fs rt) sd (fi_name e)) < n" using rk es sd unfolding ranked_def by fastforce
      then show "\<exists>r'. vis rt (fs_join (sr_fs rt) sd (fi_name e)) (fs_join (cx_dfs cx) dd (fi_name e)) e st r = Some r'"
        using d by (simp add: descends_def)
    qed
    then obtain all r4 where "visit_entries cx vis rt sd dd st es (r3\<lparr>rn_dirs := rn_dirs r3 + 1\<rparr>) = Some (all, r4)"
      by auto
    then show ?thesis using False m es nd by (auto simp: visitDir_def Let_def)
  qed
qed

lemma visitSymlink_returns:
  assumes d: "descends vis rt m n" and rk: "ranked (sr_fs rt) m" and sp: "m sp < Suc n"
  shows "\<exists>r'. visitSymlink cx vis rt sp dp fi p r = Some r'"
proof -
  have dir: "\<exists>r'. visitDir cx vis rt sp dp tfi r = Some r'" for tfi r
    using visitDir_returns [OF d rk sp] .
  have fd: "\<exists>r'. follow_dir cx vis rt sp dp tfi ta r = Some r'" for tfi ta
    using dir [of tfi] by (auto simp: follow_dir_def Let_def split: sum.split option.split) (metis option.distinct(1))
  show ?thesis
    using fd by (auto simp: visitSymlink_def Let_def split: sum.split)
qed

lemma visit_descends: "ranked (sr_fs rt) m \<Longrightarrow> descends (visit n cx) rt m n"
proof (induction n)
  case 0
  then show ?case by (simp add: descends_def)
next
  case (Suc n)
  note d = Suc.IH [OF Suc.prems]
  show ?case unfolding descends_def
  proof (intro allI impI)
    fix sp dp fi p and r :: "'a runner"
    assume "m sp < Suc n"
    then show "\<exists>r'. visit (Suc n) cx rt sp dp fi p r = Some r'"
      using visitDir_returns [OF d Suc.prems] visitSymlink_returns [OF d Suc.prems]
      by (auto simp: visit_step_def Let_def)
  qed
qed

lemma visit_returns: "ranked (sr_fs rt) m \<Longrightarrow> m sp < n \<Longrightarrow> \<exists>r'. visit n cx rt sp dp fi p r = Some r'"
  using visit_descends [of rt m n cx] by (simp add: descends_def)

lemma walk_source_returns:
  assumes "ranked sfs m" and "\<And>p. m p < n"
  shows "\<exists>x. walk_source n cx sfs src fi r = Some x"
proof -
  have "\<exists>r'. walk_copy n cx sfs src fi c d r = Some r'" for c d r
    unfolding walk_copy_def Let_def by (rule visit_returns [where m = m]) (use assms in simp_all)
  then show ?thesis
    by (auto simp: walk_source_def Let_def split: sum.split option.split prod.split)
qed

lemma walkTargetDir_returns:
  assumes rk: "\<And>arg sfs src. cx_resolve cx arg = Inr (sfs, src) \<Longrightarrow> ranked sfs m" and n: "\<And>p. m p < n"
  shows "\<exists>x. walkTargetDir n cx args r = Some x"
proof (induction args arbitrary: r)
  case (Cons arg args)
  show ?case
  proof (cases "halted cx r \<or> (\<exists>x. cx_resolve cx arg = Inl x)")
    case True
    then show ?thesis by auto
  next
    case False
    then obtain sfs src where rs: "cx_resolve cx arg = Inr (sfs, src)" by (cases "cx_resolve cx arg") auto
    show ?thesis
    proof (cases "fs_lstat sfs (rn_world (polled_ctx r)) src")
      case (Inl x)
      then show ?thesis using False rs Cons.IH by simp
    next
      case (Inr fi)
      obtain e1 r1 where "walk_source n cx sfs src fi (polled_ctx r) = Some (e1, r1)"
        using walk_source_returns [OF rk [OF rs] n] by (metis prod.exhaust)
      then show ?thesis using False rs Inr Cons.IH by (cases e1) simp_all
    qed
  qed
qed simp

lemma walkTargetFile_returns:
  assumes rk: "\<And>arg sfs src. cx_resolve cx arg = Inr (sfs, src) \<Longrightarrow> ranked sfs m" and n: "\<And>p. m p < n"
  shows "\<exists>x. walkTargetFile n cx r = Some x"
proof (cases "cx_resolve cx (hd (op_sources (cx_opts cx)))")
  case (Inr y)
  obtain sfs src where y: "y = (sfs, src)" by fastforce
  have "\<exists>r'. visit n cx \<lparr>sr_fs = sfs, sr_root_abs = ra, sr_keep = k\<rparr> sp dp fi p r = Some r'" for ra k sp dp fi p r
    by (rule visit_returns [where m = m]) (use rk [of _ sfs src] Inr y n in simp_all)
  then show ?thesis using Inr y
    by (auto simp: walkTargetFile_def Let_def split: sum.split prod.split)
qed (simp add: walkTargetFile_def)

lemma mirror_entries_returns:
  "(\<And>e s r. e \<in> set es \<Longrightarrow> \<exists>r'. sub (fs_join (cx_dfs cx) dd (fi_name e)) s r = Some r') \<Longrightarrow>
     \<exists>x. mirror_entries cx sub sfs dd sd es b r = Some x"
proof (induction es arbitrary: b r)
  case (Cons e es)
  have ih: "\<exists>x. mirror_entries cx sub sfs dd sd es b r = Some x" for b r
    by (rule Cons.IH) (use Cons.prems in simp)
  obtain r1 where "sub (fs_join (cx_dfs cx) dd (fi_name e)) (fs_join sfs sd (fi_name e)) r = Some r1"
    using Cons.prems [of e] by auto
  with ih show ?case by (simp add: Let_def split: sum.split prod.split)
qed simp

lemma mirrorDir_returns:
  "ranked (cx_dfs cx) m \<Longrightarrow> m dd < n \<Longrightarrow> \<exists>r'. mirrorDir n cx sfs dd sd r = Some r'"
proof (induction n arbitrary: dd sd r)
  case (Suc n)
  show ?case
  proof (cases "fs_read_dir (cx_dfs cx) (rn_world r) dd")
    case (Inr es)
    have "\<exists>x. mirror_entries cx (mirrorDir n cx sfs) sfs dd sd es False r = Some x"
    proof (rule mirror_entries_returns)
      fix e s and r :: "'a runner"
      assume "e \<in> set es"
      then have "m (fs_join (cx_dfs cx) dd (fi_name e)) < n" using Suc.prems Inr unfolding ranked_def by fastforce
      then show "\<exists>r'. mirrorDir n cx sfs (fs_join (cx_dfs cx) dd (fi_name e)) s r = Some r'"
        by (rule Suc.IH [OF Suc.prems(1)])
    qed
    then show ?thesis using Inr by auto
  qed simp
qed simp

lemma mirrorExtraneous_returns:
  "ranked (cx_dfs cx) m \<Longrightarrow> (\<And>p. m p < n) \<Longrightarrow> \<exists>r'. mirrorExtraneous n cx ms r = Some r'"
proof (induction ms arbitrary: r)
  case (Cons x ms)
  obtain r1 where "mirrorDir n cx (mr_fs x) (mr_dest x) (mr_src x) r = Some r1"
    using mirrorDir_returns [OF Cons.prems(1,2)] by blast
  with Cons show ?case by simp
qed simp

lemma walk_has_result:
  assumes "\<And>arg sfs src. cx_resolve cx arg = Inr (sfs, src) \<Longrightarrow> ranked sfs m" and "\<And>p. m p < n"
  shows "\<exists>e r'. walk n cx r = Some (e, r')"
proof -
  have "\<exists>x. walkTargetFile n cx r = Some x" "\<exists>x. walkTargetDir n cx args r = Some x" for args r
    by (rule walkTargetFile_returns [where m = m] walkTargetDir_returns [where m = m]; use assms in blast)+
  then show ?thesis unfolding walk_def by (metis prod.exhaust)
qed

lemma run_has_result:
  assumes "\<And>arg sfs src. cx_resolve cx arg = Inr (sfs, src) \<Longrightarrow> ranked sfs m"
    and "ranked (cx_dfs cx) m" and "\<And>p. m p < n"
  shows "\<exists>sm e r. run n cx w = Some (sm, e, r)"
proof (cases "dial_sources cx (op_sources (cx_opts cx))")
  case None
  have "\<exists>e r. walk n cx (new_runner w) = Some (e, r)"
    by (rule walk_has_result [where m = m]; use assms in blast)
  then obtain e r where wk: "walk n cx (new_runner w) = Some (e, r)" by blast
  let ?q = "(finish_copies cx r)\<lparr>rn_polls := Suc (rn_polls (finish_copies cx r))\<rparr>"
  obtain r1 where "mirrorExtraneous n cx (rn_mirror_roots (finish_copies cx r)) ?q = Some r1"
    using mirrorExtraneous_returns [OF assms(2,3)] by blast
  then have "\<exists>r'. finish_run n cx r = Some r'" by (simp add: finish_run_def Let_def)
  with None wk show ?thesis by (auto simp: run_def Let_def)
qed (simp add: run_def Let_def)

text \<open>C11: A run returns. When the depth of what the filesystems can list is bounded, by any measure
  that falls from a directory to its entries, the walk and the mirror pass need no more fuel than that
  bound: \<open>run\<close> has a result, whatever fails in between.\<close>

theorem run_returns:
  assumes "\<And>arg sfs src. cx_resolve cx arg = Inr (sfs, src) \<Longrightarrow> ranked sfs m"
    and "ranked (cx_dfs cx) m" and "\<And>p. m p < n"
  shows "\<exists>sm e r. run n cx w = Some (sm, e, r)"
  by (rule run_has_result [where m = m]; use assms in blast)

text \<open>A file with several links is copied once. After one of its paths has been handled, every
  later path of the same inode is settled without queueing or counting another copy: it is recorded as
  a link to the first destination, or found to be that file already.\<close>

lemma second_link_is_never_copied:
  assumes "rn_hl_map r key = Some prim"
  shows "rn_jobs (handleMultiLink cx rt sp dp fi par key r) = rn_jobs r \<and>
    rn_files (handleMultiLink cx rt sp dp fi par key r) = rn_files r \<and>
    (rn_hardlinks (handleMultiLink cx rt sp dp fi par key r) =
       rn_hardlinks r @ [\<lparr>lk_target = hp_dst prim, lk_dst = dp, lk_parent = par, lk_fs = sr_fs rt, lk_src = sp\<rparr>] \<or>
     hp_adopted prim \<and> sameDestFile cx (rn_world r) (hp_dst prim) dp)"
  using assms
  by (simp add: handleMultiLink_def Let_def moveUnchanged_def moveSource_def out_defs)

lemma handle_records_key: "rn_hl_map (handleMultiLink cx rt sp dp fi par key r) key \<noteq> None"
  by (simp add: handleMultiLink_def Let_def moveUnchanged_def moveSource_def out_defs finishUnchangedFile_def
      sync_unchanged_def enqueueFile_def addDirWork_def upd_dir_def
      split: option.split prod.split)

subsection \<open>Patterns\<close>

lemma matchEntry_iff:
  "matchEntry fsys pat rel base isDir \<longleftrightarrow>
     (isDir \<and> trim_right_char (CHR ''/'') pat \<noteq> [] \<or> trim_right_char (CHR ''/'') pat = pat) \<and>
     (matchGlob fsys (trim_right_char (CHR ''/'') pat) rel \<or> matchGlob fsys (trim_right_char (CHR ''/'') pat) base)"
  by (auto simp: matchEntry_def Let_def)

text \<open>\<open>--include\<close> wins over \<open>--exclude\<close>, and a pattern with a trailing slash matches directories
  only. An entry is excluded exactly when some exclude pattern matches its path below the root or its
  name, and no include pattern does; a file never matches a pattern that ends in a slash.\<close>

lemma excluded_iff:
  "excluded cx rt sp isDir \<longleftrightarrow>
     (let base = fs_base (sr_fs rt) sp;
          rel = (case fs_abs (sr_fs rt) sp of
                   Inl e \<Rightarrow> base
                 | Inr a \<Rightarrow> (case fs_rel (sr_fs rt) (sr_root_abs rt) a of Inl e \<Rightarrow> base | Inr x \<Rightarrow> x));
          hits = (\<lambda>pats. \<exists>pat \<in> set pats.
                    (isDir \<and> trim_right_char (CHR ''/'') pat \<noteq> [] \<or> trim_right_char (CHR ''/'') pat = pat) \<and>
                    (matchGlob (sr_fs rt) (trim_right_char (CHR ''/'') pat) rel \<or>
                     matchGlob (sr_fs rt) (trim_right_char (CHR ''/'') pat) base))
      in hits (op_exclude (cx_opts cx)) \<and> \<not> hits (op_include (cx_opts cx)))"
  unfolding excluded_def Let_def matchEntry_iff list_ex_iff
  by (cases "op_exclude (cx_opts cx) = []"; cases "op_include (cx_opts cx) = []"; simp only: if_True if_False
      simp_thms list.set ball_empty bex_empty; argo?)

end
