(* ===== verification/CondVar.thy ===== *)
theory CondVar
  imports Prelude
begin

text \<open>
  A mutex with a condition variable (\<open>sync.Cond\<close>), the way the gate, the queues, the listing
  prefetcher and the connection pool use one. Threads are numbers. A thread runs one pass of its
  waiting loop under the mutex: it goes on with a new state, or sleeps (the waiting pass may change
  the state too). Another operation wakes one sleeper (\<open>Signal\<close>) or all of them (\<open>Broadcast\<close>),
  either under the mutex or after releasing it; in the second case any step may come in between, so
  the wake-up is kept as owed. A woken thread runs another pass at any later time.
\<close>

record 's monitor =
  mo_state :: 's
  mo_asleep :: "nat set"
  mo_woken :: "nat set"
  mo_signals :: nat
  mo_casts :: nat

datatype 's pass = Goes 's | Waits 's

text \<open>What a client of the monitor does: the waiting loop's pass, which changes of the state come with a
  wake-up of which kind, and which come with none.\<close>

record 's client =
  cl_pass :: "'s \<Rightarrow> 's pass"
  cl_signal_in :: "'s \<Rightarrow> 's \<Rightarrow> bool"
  cl_signal_after :: "'s \<Rightarrow> 's \<Rightarrow> bool"
  cl_cast_in :: "'s \<Rightarrow> 's \<Rightarrow> bool"
  cl_cast_after :: "'s \<Rightarrow> 's \<Rightarrow> bool"
  cl_quiet :: "'s \<Rightarrow> 's \<Rightarrow> bool"

inductive mon_step :: "'s client \<Rightarrow> 's monitor \<Rightarrow> 's monitor \<Rightarrow> bool" for cl :: "'s client" where
  goes: "cl_pass cl s = Goes s' \<Longrightarrow> t \<notin> A \<Longrightarrow> mon_step cl \<lparr>mo_state = s, mo_asleep = A, mo_woken = W,
      mo_signals = g, mo_casts = c\<rparr> \<lparr>mo_state = s', mo_asleep = A, mo_woken = W - {t}, mo_signals = g, mo_casts = c\<rparr>"
| waits: "cl_pass cl s = Waits s' \<Longrightarrow> t \<notin> A \<Longrightarrow> mon_step cl \<lparr>mo_state = s, mo_asleep = A, mo_woken = W,
      mo_signals = g, mo_casts = c\<rparr> \<lparr>mo_state = s', mo_asleep = insert t A, mo_woken = W - {t}, mo_signals = g,
      mo_casts = c\<rparr>"
| signal_none: "cl_signal_in cl s s' \<Longrightarrow> mon_step cl \<lparr>mo_state = s, mo_asleep = {}, mo_woken = W, mo_signals = g,
      mo_casts = c\<rparr> \<lparr>mo_state = s', mo_asleep = {}, mo_woken = W, mo_signals = g, mo_casts = c\<rparr>"
| signal_one: "cl_signal_in cl s s' \<Longrightarrow> t \<in> A \<Longrightarrow> mon_step cl \<lparr>mo_state = s, mo_asleep = A, mo_woken = W,
      mo_signals = g, mo_casts = c\<rparr> \<lparr>mo_state = s', mo_asleep = A - {t}, mo_woken = insert t W, mo_signals = g,
      mo_casts = c\<rparr>"
| cast: "cl_cast_in cl s s' \<Longrightarrow> mon_step cl \<lparr>mo_state = s, mo_asleep = A, mo_woken = W, mo_signals = g,
      mo_casts = c\<rparr> \<lparr>mo_state = s', mo_asleep = {}, mo_woken = W \<union> A, mo_signals = g, mo_casts = c\<rparr>"
| owe_signal: "cl_signal_after cl s s' \<Longrightarrow> mon_step cl \<lparr>mo_state = s, mo_asleep = A, mo_woken = W, mo_signals = g,
      mo_casts = c\<rparr> \<lparr>mo_state = s', mo_asleep = A, mo_woken = W, mo_signals = Suc g, mo_casts = c\<rparr>"
| pay_signal_none: "mon_step cl \<lparr>mo_state = s, mo_asleep = {}, mo_woken = W, mo_signals = Suc g,
      mo_casts = c\<rparr> \<lparr>mo_state = s, mo_asleep = {}, mo_woken = W, mo_signals = g, mo_casts = c\<rparr>"
| pay_signal: "t \<in> A \<Longrightarrow> mon_step cl \<lparr>mo_state = s, mo_asleep = A, mo_woken = W, mo_signals = Suc g,
      mo_casts = c\<rparr> \<lparr>mo_state = s, mo_asleep = A - {t}, mo_woken = insert t W, mo_signals = g, mo_casts = c\<rparr>"
| owe_cast: "cl_cast_after cl s s' \<Longrightarrow> mon_step cl \<lparr>mo_state = s, mo_asleep = A, mo_woken = W, mo_signals = g,
      mo_casts = c\<rparr> \<lparr>mo_state = s', mo_asleep = A, mo_woken = W, mo_signals = g, mo_casts = Suc c\<rparr>"
| quiet: "cl_quiet cl s s' \<Longrightarrow> mon_step cl \<lparr>mo_state = s, mo_asleep = A, mo_woken = W, mo_signals = g,
      mo_casts = c\<rparr> \<lparr>mo_state = s', mo_asleep = A, mo_woken = W, mo_signals = g, mo_casts = c\<rparr>"
| pay_cast: "mon_step cl \<lparr>mo_state = s, mo_asleep = A, mo_woken = W, mo_signals = g,
      mo_casts = Suc c\<rparr> \<lparr>mo_state = s, mo_asleep = {}, mo_woken = W \<union> A, mo_signals = g, mo_casts = c\<rparr>"

inductive_cases mon_stepE: "mon_step cl m m'"

text \<open>A fresh monitor, and what it can become.\<close>

definition idle :: "'s \<Rightarrow> 's monitor" where
  "idle s = \<lparr>mo_state = s, mo_asleep = {}, mo_woken = {}, mo_signals = 0, mo_casts = 0\<rparr>"

inductive mon_reach :: "'s client \<Rightarrow> 's \<Rightarrow> 's monitor \<Rightarrow> bool" for cl :: "'s client" and s0 :: 's where
  start: "mon_reach cl s0 (idle s0)"
| step: "mon_reach cl s0 m \<Longrightarrow> mon_step cl m m' \<Longrightarrow> mon_reach cl s0 m'"

lemma mon_step_state:
  "mon_step cl m m' \<Longrightarrow> mo_state m' = mo_state m \<or>
     cl_pass cl (mo_state m) = Goes (mo_state m') \<or> cl_pass cl (mo_state m) = Waits (mo_state m') \<or>
     cl_signal_in cl (mo_state m) (mo_state m') \<or> cl_signal_after cl (mo_state m) (mo_state m') \<or>
     cl_cast_in cl (mo_state m) (mo_state m') \<or> cl_cast_after cl (mo_state m) (mo_state m') \<or>
     cl_quiet cl (mo_state m) (mo_state m')"
  by (erule mon_step.cases) simp_all

text \<open>What holds of the state alone and is kept by every change of it holds in every reachable monitor.\<close>

lemma mon_reach_state:
  assumes "mon_reach cl s0 m" and "I s0"
    and "\<And>s s'. I s \<Longrightarrow> cl_pass cl s = Goes s' \<or> cl_pass cl s = Waits s' \<Longrightarrow> I s'"
    and "\<And>s s'. I s \<Longrightarrow> cl_signal_in cl s s' \<or> cl_signal_after cl s s' \<or> cl_cast_in cl s s' \<or> cl_cast_after cl s s' \<or>
      cl_quiet cl s s' \<Longrightarrow> I s'"
  shows "I (mo_state m)"
  using assms(1)
proof (induction rule: mon_reach.induct)
  case start
  then show ?case using assms(2) by (simp add: idle_def)
next
  case (step m m')
  from mon_step_state [OF step.hyps(2)] step.IH show ?case
    using assms(3,4) [of "mo_state m" "mo_state m'"] by auto
qed

text \<open>
  The contract of a client: \<open>room s\<close> bounds from above how many sleepers could go on now, and
  \<open>wide s\<close> says that nobody would wait at all. Waiting happens only without room, going on takes some,
  a signal comes with at most one more, and only a broadcast may change anything else.
\<close>

locale cond_var =
  fixes cl :: "'s client" and good :: "'s \<Rightarrow> bool" and room :: "'s \<Rightarrow> int" and wide :: "'s \<Rightarrow> bool"
  assumes pass_waits: "good s \<Longrightarrow> cl_pass cl s = Waits s' \<Longrightarrow> good s' \<and> room s' \<le> 0 \<and> \<not> wide s'"
    and pass_goes: "good s \<Longrightarrow> cl_pass cl s = Goes s' \<Longrightarrow> good s' \<and> (\<not> wide s \<longrightarrow> \<not> wide s' \<and> room s' \<le> room s - 1)"
    and signals: "good s \<Longrightarrow> cl_signal_in cl s s' \<or> cl_signal_after cl s s' \<Longrightarrow>
      good s' \<and> (\<not> wide s \<longrightarrow> \<not> wide s' \<and> room s' \<le> room s + 1)"
    and quiets: "good s \<Longrightarrow> cl_quiet cl s s' \<Longrightarrow> good s' \<and> (\<not> wide s \<longrightarrow> \<not> wide s' \<and> room s' \<le> room s)"
    and casts: "good s \<Longrightarrow> cl_cast_in cl s s' \<or> cl_cast_after cl s s' \<Longrightarrow> good s'"
begin

text \<open>No sleeper is forgotten: unless a broadcast is owed, whatever room there is has been promised to
  woken threads and owed signals.\<close>

definition no_lost :: "'s monitor \<Rightarrow> bool" where
  "no_lost m \<longleftrightarrow> good (mo_state m) \<and> finite (mo_asleep m) \<and> finite (mo_woken m) \<and>
     mo_asleep m \<inter> mo_woken m = {} \<and>
     (mo_asleep m = {} \<or> 0 < mo_casts m \<or>
      \<not> wide (mo_state m) \<and> room (mo_state m) \<le> int (card (mo_woken m)) + int (mo_signals m))"

lemma card_minus_one: "finite W \<Longrightarrow> int (card W) - 1 \<le> int (card (W - {t}))"
  by (cases "t \<in> W") (auto simp: card_Diff_singleton_if)

lemma card_one_more: "finite W \<Longrightarrow> t \<notin> W \<Longrightarrow> int (card (insert t W)) = int (card W) + 1"
  by simp

lemma step_no_lost:
  assumes "mon_step cl m m'" and "no_lost m"
  shows "no_lost m'"
  using assms
proof (cases rule: mon_step.cases)
  case (goes s s' t A W g c)
  then show ?thesis using assms(2) pass_goes [of s s'] card_minus_one [of W t] by (auto simp: no_lost_def)
next
  case (waits s s' t A W g c)
  then show ?thesis using assms(2) pass_waits [of s s'] unfolding no_lost_def by auto
next
  case (signal_one s s' t A W g c)
  then have "t \<notin> W" "finite W" using assms(2) by (auto simp: no_lost_def)
  with signal_one show ?thesis using assms(2) signals [of s s'] card_one_more [of W t] by (auto simp: no_lost_def)
next
  case (owe_signal s s' A W g c)
  then show ?thesis using assms(2) signals [of s s'] by (auto simp: no_lost_def)
next
  case (pay_signal t A s W g c)
  then have "t \<notin> W" "finite W" using assms(2) by (auto simp: no_lost_def)
  with pay_signal show ?thesis using assms(2) card_one_more [of W t] by (auto simp: no_lost_def)
next
  case (signal_none s s' W g c)
  then show ?thesis using assms(2) signals [of s s'] unfolding no_lost_def by auto
next
  case (cast s s' A W g c)
  then show ?thesis using assms(2) casts [of s s'] unfolding no_lost_def by auto
next
  case (quiet s s' A W g c)
  then show ?thesis using assms(2) quiets [of s s'] by (auto simp: no_lost_def)
next
  case (owe_cast s s' A W g c)
  then show ?thesis using assms(2) casts [of s s'] unfolding no_lost_def by auto
qed (use assms(2) in \<open>auto simp: no_lost_def\<close>)

theorem reach_no_lost:
  assumes "mon_reach cl s0 m" and "good s0"
  shows "no_lost m"
  using assms(1)
proof (induction rule: mon_reach.induct)
  case start
  then show ?case using assms(2) by (simp add: no_lost_def idle_def)
next
  case (step m m')
  then show ?case by (blast intro: step_no_lost)
qed

theorem never_stranded:
  assumes "mon_reach cl s0 m" and "good s0" and "mo_asleep m \<noteq> {}" and "wide (mo_state m) \<or> 0 < room (mo_state m)"
  shows "mo_woken m \<noteq> {} \<or> 0 < mo_signals m \<or> 0 < mo_casts m"
proof (rule ccontr)
  assume "\<not> ?thesis"
  then show False using reach_no_lost [OF assms(1,2)] assms(3,4) by (auto simp: no_lost_def)
qed

end

end
