(* ===== verification/Gate.thy ===== *)
theory Gate
  imports CondVar
begin

text \<open>
  The two monitors of the worker pool, internal/engine/gate.go and queue.go: the resizable gate that
  limits how many copies run at once, and the unbounded queue that feeds the workers. The operations
  are functions of the guarded fields; \<open>gate_client\<close> and \<open>queue_client\<close> say under which kind of
  wake-up each is called, and are interpretations of the contract \<open>cond_var\<close>.
\<close>

subsection \<open>The gate\<close>

record gate =
  gt_limit :: int
  gt_max :: int
  gt_in_use :: int

definition gate_new :: "int \<Rightarrow> int \<Rightarrow> gate" where
  "gate_new mx initial =
     (let mx = (if mx < 1 then 1 else mx);
          initial = (if initial < 1 then 1 else initial);
          initial = (if initial > mx then mx else initial)
      in \<lparr>gt_limit = initial, gt_max = mx, gt_in_use = 0\<rparr>)"

definition gate_acquire :: "gate \<Rightarrow> gate pass" where
  "gate_acquire g = (if gt_in_use g \<ge> gt_limit g then Waits g else Goes (g\<lparr>gt_in_use := gt_in_use g + 1\<rparr>))"

definition gate_release :: "gate \<Rightarrow> gate" where
  "gate_release g = g\<lparr>gt_in_use := gt_in_use g - 1\<rparr>"

definition saturated :: "gate \<Rightarrow> bool" where
  "saturated g \<longleftrightarrow> gt_in_use g \<ge> gt_limit g"

definition gate_current :: "gate \<Rightarrow> int" where
  "gate_current g = gt_limit g"

definition set_limit :: "int \<Rightarrow> gate \<Rightarrow> gate" where
  "set_limit n g =
     (let n = (if n < 1 then 1 else n); n = (if n > gt_max g then gt_max g else n) in g\<lparr>gt_limit := n\<rparr>)"

text \<open>A worker releases only what it holds; both wake-ups happen under the mutex.\<close>

definition gate_client :: "gate client" where
  "gate_client =
     \<lparr>cl_pass = gate_acquire,
      cl_signal_in = (\<lambda>g g'. 0 < gt_in_use g \<and> g' = gate_release g), cl_signal_after = (\<lambda>g g'. False),
      cl_cast_in = (\<lambda>g g'. \<exists>n. g' = set_limit n g), cl_cast_after = (\<lambda>g g'. False),
      cl_quiet = (\<lambda>g g'. False)\<rparr>"

definition gate_inv :: "int \<Rightarrow> gate \<Rightarrow> bool" where
  "gate_inv mx g \<longleftrightarrow> gt_max g = mx \<and> 1 \<le> gt_limit g \<and> gt_limit g \<le> mx \<and> 0 \<le> gt_in_use g \<and> gt_in_use g \<le> mx"

lemma gate_client_simps [simp]:
  "cl_pass gate_client = gate_acquire" "cl_signal_in gate_client g g' = (0 < gt_in_use g \<and> g' = gate_release g)"
  "\<not> cl_signal_after gate_client g g'" "cl_cast_in gate_client g g' = (\<exists>n. g' = set_limit n g)"
  "\<not> cl_cast_after gate_client g g'" "\<not> cl_quiet gate_client g g'"
  by (simp_all add: gate_client_def)

lemma set_limit_inv [inv_intros]: "gate_inv mx g \<Longrightarrow> gate_inv mx (set_limit n g)"
  by (auto simp: gate_inv_def set_limit_def Let_def)

lemma gate_new_inv: "gate_inv (max 1 mx) (gate_new mx initial)"
  by (auto simp: gate_inv_def gate_new_def Let_def max_def)

interpretation gate: cond_var gate_client "gate_inv mx" "\<lambda>g. gt_limit g - gt_in_use g" "\<lambda>g. False" for mx :: int
  by unfold_locales
    (auto simp: gate_acquire_def gate_release_def gate_inv_def set_limit_def Let_def split: if_splits)

lemma gate_owes_nothing: "mon_reach gate_client g0 m \<Longrightarrow> mo_signals m = 0 \<and> mo_casts m = 0"
proof (induction rule: mon_reach.induct)
  case start
  then show ?case by (simp add: idle_def)
next
  case (step m m')
  then show ?case by (auto elim: mon_step.cases)
qed

text \<open>C19: The gate admits no more workers than its ceiling and forgets none that waits. In every
  interleaving of acquires, releases and changes of the limit, the limit stays between one and the
  ceiling, the workers inside never exceed the ceiling, and whenever a worker sleeps although a slot is
  free, a woken worker is on its way to take it.\<close>

theorem gate_bounded_and_live:
  assumes "mon_reach gate_client (gate_new mx initial) m"
  shows "gate_inv (max 1 mx) (mo_state m) \<and>
    (mo_asleep m \<noteq> {} \<and> \<not> saturated (mo_state m) \<longrightarrow> mo_woken m \<noteq> {})"
proof -
  have "gate.no_lost (max 1 mx) m" using gate.reach_no_lost [OF assms gate_new_inv] .
  then have "gate_inv (max 1 mx) (mo_state m)" using gate.no_lost_def [of "max 1 mx" m] by blast
  moreover have "mo_woken m \<noteq> {}" if "mo_asleep m \<noteq> {}" "\<not> saturated (mo_state m)"
    using gate.never_stranded [OF assms gate_new_inv that(1)] that(2) gate_owes_nothing [OF assms]
    by (simp add: saturated_def)
  ultimately show ?thesis by blast
qed

text \<open>One slot, one worker inside and two asleep; then the release wakes one of the two.\<close>

lemma gate_demo: "mon_reach gate_client (gate_new 1 1)
    \<lparr>mo_state = \<lparr>gt_limit = 1, gt_max = 1, gt_in_use = 0\<rparr>, mo_asleep = {2}, mo_woken = {1}, mo_signals = 0, mo_casts = 0\<rparr>"
proof -
  let ?g = "\<lambda>k. \<lparr>gt_limit = 1, gt_max = 1, gt_in_use = k\<rparr>"
  let ?m = "\<lambda>k A W. \<lparr>mo_state = ?g k, mo_asleep = A, mo_woken = W, mo_signals = 0, mo_casts = 0\<rparr>"
  note st = mon_reach.step [where cl = gate_client]
  have "mon_reach gate_client (gate_new 1 1) (?m 0 {} {})"
    using mon_reach.start [of gate_client "gate_new 1 1"] by (simp add: idle_def gate_new_def Let_def)
  then have "mon_reach gate_client (gate_new 1 1) (?m 1 {} {})"
    by (rule st) (use mon_step.goes [of gate_client "?g 0" "?g 1" 0 "{}" "{}" 0 0] in \<open>simp add: gate_acquire_def\<close>)
  then have "mon_reach gate_client (gate_new 1 1) (?m 1 {1} {})"
    by (rule st) (use mon_step.waits [of gate_client "?g 1" "?g 1" 1 "{}" "{}" 0 0] in \<open>simp add: gate_acquire_def\<close>)
  then have "mon_reach gate_client (gate_new 1 1) (?m 1 {1, 2} {})"
    by (rule st) (use mon_step.waits [of gate_client "?g 1" "?g 1" 2 "{1}" "{}" 0 0] in
      \<open>simp add: gate_acquire_def insert_commute\<close>)
  then show ?thesis
    by (rule st) (use mon_step.signal_one [of gate_client "?g 1" "?g 0" 1 "{1, 2}" "{}" 0 0] in
      \<open>simp add: gate_release_def\<close>)
qed

theorem gate_bounded_and_live_witness:
  "gate_inv 1 \<lparr>gt_limit = 1, gt_max = 1, gt_in_use = 0\<rparr> \<and> {1} \<noteq> ({} :: nat set)"
  using gate_bounded_and_live [OF gate_demo] by (simp add: saturated_def)

subsection \<open>The queue\<close>

record 'a queue =
  qu_items :: "'a list"
  qu_closed :: bool

definition queue_new :: "'a queue" where
  "queue_new = \<lparr>qu_items = [], qu_closed = False\<rparr>"

definition queue_push :: "'a \<Rightarrow> 'a queue \<Rightarrow> 'a queue" where
  "queue_push v q = q\<lparr>qu_items := qu_items q @ [v]\<rparr>"

definition queue_close :: "'a queue \<Rightarrow> 'a queue" where
  "queue_close q = q\<lparr>qu_closed := True\<rparr>"

text \<open>One pass of \<open>pop\<close>: \<open>None\<close> to wait, else what it returns (\<open>None\<close> for closed and empty).\<close>

definition queue_pop :: "'a queue \<Rightarrow> ('a option \<times> 'a queue) option" where
  "queue_pop q =
     (if qu_items q = [] \<and> \<not> qu_closed q then None
      else if qu_items q = [] then Some (None, q)
      else Some (Some (hd (qu_items q)), q\<lparr>qu_items := tl (qu_items q)\<rparr>))"

text \<open>A queue with its history: what was pushed and what was popped, in order. Both wake-ups follow
  the release of the mutex.\<close>

record 'a history =
  hs_queue :: "'a queue"
  hs_pushed :: "'a list"
  hs_popped :: "'a list"
  hs_ends :: nat

definition pop_pass :: "'a history \<Rightarrow> 'a history pass" where
  "pop_pass h =
     (case queue_pop (hs_queue h) of
        None \<Rightarrow> Waits h
      | Some (None, q) \<Rightarrow> Goes (h\<lparr>hs_queue := q, hs_ends := Suc (hs_ends h)\<rparr>)
      | Some (Some v, q) \<Rightarrow> Goes (h\<lparr>hs_queue := q, hs_popped := hs_popped h @ [v]\<rparr>))"

definition queue_client :: "'a history client" where
  "queue_client =
     \<lparr>cl_pass = pop_pass, cl_signal_in = (\<lambda>h h'. False),
      cl_signal_after = (\<lambda>h h'. \<exists>v. h' = h\<lparr>hs_queue := queue_push v (hs_queue h), hs_pushed := hs_pushed h @ [v]\<rparr>),
      cl_cast_in = (\<lambda>h h'. False), cl_cast_after = (\<lambda>h h'. h' = h\<lparr>hs_queue := queue_close (hs_queue h)\<rparr>),
      cl_quiet = (\<lambda>h h'. False)\<rparr>"

definition history_new :: "'a history" where
  "history_new = \<lparr>hs_queue = queue_new, hs_pushed = [], hs_popped = [], hs_ends = 0\<rparr>"

definition fifo :: "'a history \<Rightarrow> bool" where
  "fifo h \<longleftrightarrow> hs_popped h @ qu_items (hs_queue h) = hs_pushed h \<and>
     (0 < hs_ends h \<longrightarrow> qu_closed (hs_queue h))"

lemma pop_pass_cases:
  "pop_pass h =
     (case qu_items (hs_queue h) of
        [] \<Rightarrow> if qu_closed (hs_queue h) then Goes (h\<lparr>hs_ends := Suc (hs_ends h)\<rparr>) else Waits h
      | v # vs \<Rightarrow> Goes (h\<lparr>hs_queue := (hs_queue h)\<lparr>qu_items := vs\<rparr>, hs_popped := hs_popped h @ [v]\<rparr>))"
  by (simp add: pop_pass_def queue_pop_def split: list.split)

lemma queue_client_simps [simp]:
  "cl_pass queue_client = pop_pass" "\<not> cl_signal_in queue_client h h'" "\<not> cl_cast_in queue_client h h'"
  "\<not> cl_quiet queue_client h h'"
  "cl_signal_after queue_client h h' =
     (\<exists>v. h' = h\<lparr>hs_queue := queue_push v (hs_queue h), hs_pushed := hs_pushed h @ [v]\<rparr>)"
  "cl_cast_after queue_client h h' = (h' = h\<lparr>hs_queue := queue_close (hs_queue h)\<rparr>)"
  by (simp_all add: queue_client_def)

interpretation queue: cond_var "queue_client :: 'a history client" fifo "\<lambda>h. int (length (qu_items (hs_queue h)))"
  "\<lambda>h. qu_closed (hs_queue h)"
proof
  fix s s' :: "'a history"
  assume good: "fifo s"
  show "fifo s' \<and> int (length (qu_items (hs_queue s'))) \<le> 0 \<and> \<not> qu_closed (hs_queue s')"
    if "cl_pass queue_client s = Waits s'"
    using that good by (auto simp: pop_pass_cases split: list.splits if_splits)
  show "fifo s' \<and> (\<not> qu_closed (hs_queue s) \<longrightarrow> \<not> qu_closed (hs_queue s') \<and>
      int (length (qu_items (hs_queue s'))) \<le> int (length (qu_items (hs_queue s))) - 1)"
    if "cl_pass queue_client s = Goes s'"
    using that good by (auto simp: pop_pass_cases fifo_def split: list.splits if_splits)
  show "fifo s' \<and> (\<not> qu_closed (hs_queue s) \<longrightarrow> \<not> qu_closed (hs_queue s') \<and>
      int (length (qu_items (hs_queue s'))) \<le> int (length (qu_items (hs_queue s))) + 1)"
    if "cl_signal_in queue_client s s' \<or> cl_signal_after queue_client s s'"
    using that good by (auto simp: fifo_def queue_push_def)
  show "fifo s' \<and> (\<not> qu_closed (hs_queue s) \<longrightarrow> \<not> qu_closed (hs_queue s') \<and>
      int (length (qu_items (hs_queue s'))) \<le> int (length (qu_items (hs_queue s))))"
    if "cl_quiet queue_client s s'"
    using that by simp
  show "fifo s'" if "cl_cast_in queue_client s s' \<or> cl_cast_after queue_client s s'"
    using that good by (auto simp: fifo_def queue_close_def)
qed

text \<open>C20: The queue hands out every item once, in order, and leaves no worker asleep over work. In every
  interleaving of pushes, pops and the close, the items popped followed by those still queued are the
  items pushed; a pop reports the end only after the close; and a worker that sleeps while an item is
  queued or the queue is closed has a wake-up on its way.\<close>

theorem queue_fifo_and_live:
  assumes "mon_reach queue_client history_new m"
  shows "fifo (mo_state m) \<and>
    (mo_asleep m \<noteq> {} \<and> (qu_items (hs_queue (mo_state m)) \<noteq> [] \<or> qu_closed (hs_queue (mo_state m))) \<longrightarrow>
     mo_woken m \<noteq> {} \<or> 0 < mo_signals m \<or> 0 < mo_casts m)"
proof -
  have new: "fifo history_new" by (simp add: fifo_def history_new_def queue_new_def)
  show ?thesis
  proof (intro conjI impI)
    show "fifo (mo_state m)" using queue.reach_no_lost [OF assms new] by (simp add: queue.no_lost_def)
    assume a: "mo_asleep m \<noteq> {} \<and> (qu_items (hs_queue (mo_state m)) \<noteq> [] \<or> qu_closed (hs_queue (mo_state m)))"
    show "mo_woken m \<noteq> {} \<or> 0 < mo_signals m \<or> 0 < mo_casts m"
    proof (rule queue.never_stranded [OF assms new])
      show "mo_asleep m \<noteq> {}" using a by (rule conjunct1)
      show "qu_closed (hs_queue (mo_state m)) \<or> 0 < int (length (qu_items (hs_queue (mo_state m))))"
        using a by (simp only: of_nat_0_less_iff length_greater_0_conv) blast
    qed
  qed
qed

text \<open>One worker asleep, then one item pushed and its signal still owed.\<close>

lemma queue_demo: "mon_reach queue_client history_new
    \<lparr>mo_state = \<lparr>hs_queue = \<lparr>qu_items = [7 :: nat], qu_closed = False\<rparr>, hs_pushed = [7], hs_popped = [], hs_ends = 0\<rparr>,
      mo_asleep = {1}, mo_woken = {}, mo_signals = 1, mo_casts = 0\<rparr>"
proof -
  note st = mon_reach.step [where cl = "queue_client :: nat history client"]
  have s: "mon_reach (queue_client :: nat history client) history_new (idle history_new)" by (rule mon_reach.start)
  have "mon_reach queue_client history_new
      \<lparr>mo_state = history_new :: nat history, mo_asleep = {1}, mo_woken = {}, mo_signals = 0, mo_casts = 0\<rparr>"
    by (rule st [OF s]) (use mon_step.waits [of queue_client "history_new :: nat history" history_new 1 "{}" "{}" 0 0] in
      \<open>simp add: idle_def queue_client_def pop_pass_def queue_pop_def history_new_def queue_new_def\<close>)
  from st [OF this mon_step.owe_signal] show ?thesis
    by (simp add: queue_client_def history_new_def queue_new_def queue_push_def)
qed

theorem queue_fifo_and_live_witness:
  "fifo \<lparr>hs_queue = \<lparr>qu_items = [7 :: nat], qu_closed = False\<rparr>, hs_pushed = [7], hs_popped = [], hs_ends = 0\<rparr>"
  using queue_fifo_and_live [OF queue_demo] by simp

end
