(* ===== verification/Location.thy ===== *)
theory Location
  imports Vfs
begin

text \<open>
  Command-line locations, internal/vfs/location.go, and the pure part of ssh.go: the split of an argument
  into a local path or a host and a path, the ssh command line and the host's label. \<open>GOOS\<close> is Linux
  here, so the test for a Windows drive letter is never met. An error keeps its format and arguments.
\<close>

record location =
  lo_user :: string
  lo_host :: string
  lo_port :: string
  lo_path :: string
  lo_remote :: bool
  lo_prefix :: string

definition local_at :: "string \<Rightarrow> location" where
  "local_at p = \<lparr>lo_user = [], lo_host = [], lo_port = [], lo_path = p, lo_remote = False, lo_prefix = []\<rparr>"

text \<open>\<open>String\<close>.\<close>

definition location_string :: "location \<Rightarrow> string" where
  "location_string l = lo_prefix l @ lo_path l"

definition ConnKey :: "location \<Rightarrow> string" where
  "ConnKey l = lo_user l @ ''@'' @ lo_host l @ '':'' @ lo_port l"

definition sshScheme :: string where
  "sshScheme = ''ssh://''"

subsection \<open>Parsing\<close>

definition splitUser :: "string \<Rightarrow> string \<times> string" where
  "splitUser s =
     (case last_index_byte (CHR ''@'') s of
        Some i \<Rightarrow> (take i s, drop (Suc i) s)
      | None \<Rightarrow> ([], s))"

definition splitHostPath :: "string \<Rightarrow> (string \<times> string) option" where
  "splitHostPath arg =
     (let bracketed =
            (if has_prefix arg ''[''
             then (case index_byte (CHR '']'') arg of
                     Some e \<Rightarrow> if e > 0 \<and> has_prefix (drop (Suc e) arg) '':''
                               then Some (take (Suc e) arg, drop (e + 2) arg) else None
                   | None \<Rightarrow> None)
             else None)
      in case bracketed of
           Some x \<Rightarrow> Some x
         | None \<Rightarrow>
             (case index_byte (CHR '':'') arg of
                None \<Rightarrow> None
              | Some i \<Rightarrow>
                  if contains_any (take i arg) [CHR ''/'', CHR 0x5C] then None
                  else if i = 0 then None
                  else Some (take i arg, drop (Suc i) arg)))"

definition unbracket :: "string \<Rightarrow> string" where
  "unbracket host =
     (if has_prefix host ''['' \<and> has_suffix host '']'' then take (length host - 2) (drop 1 host) else host)"

definition splitHostPort :: "string \<Rightarrow> message + string \<times> string" where
  "splitHostPort s =
     (if has_prefix s ''[''
      then
        (case index_byte (CHR '']'') s of
           None \<Rightarrow> Inl (''unterminated [ in host %q'', [Str s])
         | Some e \<Rightarrow>
             (let host = take (e - 1) (drop 1 s); rest = drop (Suc e) s in
              if rest = [] then Inr (host, [])
              else if has_prefix rest '':'' then Inr (host, drop 1 rest)
              else Inl (''unexpected %q after host'', [Str rest])))
      else
        (case last_index_byte (CHR '':'') s of
           Some i \<Rightarrow> Inr (take i s, drop (Suc i) s)
         | None \<Rightarrow> Inr (s, [])))"

definition parseURL :: "string \<Rightarrow> message + location" where
  "parseURL arg =
     (let rest = drop (length sshScheme) arg;
          (authority, path) =
            (case index_byte (CHR ''/'') rest of Some i \<Rightarrow> (take i rest, drop i rest) | None \<Rightarrow> (rest, []));
          path = (if path = [] then ''.'' else path);
          (user, hostport) = splitUser authority
      in case splitHostPort hostport of
           Inl e \<Rightarrow> Inl (''invalid %s: %v'', [Str arg, Str (fst e)])
         | Inr (host, port) \<Rightarrow>
             if host = [] then Inl (''invalid %s: no host'', [Str arg])
             else
               (let prefix = hostport @ '':''; prefix = (if user \<noteq> [] then user @ ''@'' @ prefix else prefix) in
                Inr \<lparr>lo_user = user, lo_host = host, lo_port = port, lo_path = path, lo_remote = True,
                      lo_prefix = prefix\<rparr>))"

definition parse :: "string \<Rightarrow> message + location" where
  "parse arg =
     (if has_prefix arg sshScheme then parseURL arg
      else
        (case splitHostPath arg of
           None \<Rightarrow> Inr (local_at arg)
         | Some (host, path) \<Rightarrow>
             (let (user, hostname) = splitUser host in
              if hostname = [] then Inl (''remote path %q has no host before the colon'', [Str arg])
              else if user = [] \<and> CHR ''@'' \<in> set host
              then Inl (''remote path %q has no user before the @'', [Str arg])
              else
                Inr \<lparr>lo_user = user, lo_host = unbracket hostname, lo_port = [],
                      lo_path = (if path = [] then ''.'' else path), lo_remote = True, lo_prefix = host @ '':''\<rparr>)))"

definition AnyRemote :: "string list \<Rightarrow> bool" where
  "AnyRemote args =
     list_ex (\<lambda>a. a \<noteq> [] \<and> (case parse a of Inl e \<Rightarrow> False | Inr l \<Rightarrow> lo_remote l)) args"

subsection \<open>The ssh command line\<close>

definition sshArgs :: "location \<Rightarrow> bool \<Rightarrow> string list" where
  "sshArgs loc extra =
     [''ssh''] @ (if extra then [''-o'', ''BatchMode=yes'', ''-o'', ''ConnectTimeout=10''] else []) @
     (if lo_port loc \<noteq> [] then [''-p'', lo_port loc] else []) @
     (if lo_user loc \<noteq> [] then [''-l'', lo_user loc] else []) @ [''-s'', lo_host loc, ''sftp'']"

definition hostLabel :: "location \<Rightarrow> string" where
  "hostLabel loc = (if lo_user loc \<noteq> [] then lo_user loc @ ''@'' @ lo_host loc else lo_host loc)"

subsection \<open>Connections by host\<close>

text \<open>
  The registry: one filesystem per host key. \<open>dial\<close> stands for \<open>Dial\<close> of a remote location, which runs
  ssh; the counter numbers the dials, so two connections of the same host can be told apart.
\<close>

record 'f registry =
  rg_conns :: "(string \<times> 'f) list"
  rg_dials :: nat

definition registry_new :: "'f registry" where
  "registry_new = \<lparr>rg_conns = [], rg_dials = 0\<rparr>"

definition for_location ::
  "'f \<Rightarrow> (nat \<Rightarrow> location \<Rightarrow> goerr + 'f) \<Rightarrow> location \<Rightarrow> 'f registry \<Rightarrow> (goerr + 'f) \<times> 'f registry" where
  "for_location loc_fs dial loc r =
     (if \<not> lo_remote loc then (Inr loc_fs, r)
      else
        (case map_of (rg_conns r) (ConnKey loc) of
           Some f \<Rightarrow> (Inr f, r)
         | None \<Rightarrow>
             (let r = r\<lparr>rg_dials := Suc (rg_dials r)\<rparr> in
              case dial (rg_dials r) loc of
                Inl e \<Rightarrow> (Inl e, r)
              | Inr f \<Rightarrow> (Inr f, r\<lparr>rg_conns := (ConnKey loc, f) # rg_conns r\<rparr>))))"

definition resolve ::
  "'f \<Rightarrow> (nat \<Rightarrow> location \<Rightarrow> goerr + 'f) \<Rightarrow> string \<Rightarrow> 'f registry \<Rightarrow> (goerr + 'f \<times> string) \<times> 'f registry" where
  "resolve loc_fs dial arg r =
     (case parse arg of
        Inl (m, as) \<Rightarrow> (Inl (NewErr m (map (case_arg id show_int (\<lambda>e. [])) as)), r)
      | Inr loc \<Rightarrow>
          (case for_location loc_fs dial loc r of
             (Inl e, r) \<Rightarrow> (Inl e, r)
           | (Inr f, r) \<Rightarrow> (Inr (f, lo_path loc), r)))"

definition remotes :: "'f registry \<Rightarrow> 'f list" where
  "remotes r = map snd (rg_conns r)"

subsection \<open>What parsing keeps\<close>

lemma splitHostPath_join: "splitHostPath arg = Some (host, path) \<Longrightarrow> host @ '':'' @ path = arg"
proof -
  assume a: "splitHostPath arg = Some (host, path)"
  have col: "take i arg @ '':'' @ drop (Suc i) arg = arg" if "index_byte (CHR '':'') arg = Some i" for i
    using index_byte_Some [OF that] id_take_nth_drop [of i arg] by simp
  have brk: "take (Suc e) arg @ '':'' @ drop (e + 2) arg = arg"
    if "has_prefix (drop (Suc e) arg) '':''" for e
  proof -
    have "\<exists>r. drop (Suc e) arg = '':'' @ r" using that by (simp only: has_prefix_iff)
    then obtain r where "drop (Suc e) arg = '':'' @ r" by blast
    moreover from this have "drop (e + 2) arg = r" by (metis add_2_eq_Suc' append_Cons append_Nil drop_Suc list.sel(3) tl_drop)
    ultimately show ?thesis by (metis append_take_drop_id)
  qed
  show ?thesis using a col brk
    by (auto simp: splitHostPath_def Let_def split: if_splits option.splits)
qed

text \<open>C22: A parsed argument prints as it was written. For every argument that is not an ssh URL, the parsed
  location is either the local path itself, or remote with the argument as its text (a missing path
  after the colon prints as the dot it stands for).\<close>

theorem parse_prints_back:
  assumes "parse arg = Inr l" and "\<not> has_prefix arg sshScheme"
  shows "location_string l = arg \<and> \<not> lo_remote l \<or>
    location_string l = arg \<and> lo_remote l \<or> location_string l = arg @ ''.'' \<and> lo_remote l \<and> lo_path l = ''.''"
proof (cases "splitHostPath arg")
  case None
  then show ?thesis using assms by (auto simp: parse_def local_at_def location_string_def)
next
  case (Some hp)
  then obtain host path where hp: "splitHostPath arg = Some (host, path)" by (cases hp) auto
  then have "l = \<lparr>lo_user = fst (splitUser host), lo_host = unbracket (snd (splitUser host)), lo_port = [],
      lo_path = (if path = [] then ''.'' else path), lo_remote = True, lo_prefix = host @ '':''\<rparr>"
    using assms by (auto simp: parse_def Let_def split: prod.splits if_splits)
  then show ?thesis using splitHostPath_join [OF hp] by (auto simp: location_string_def)
qed

theorem parse_prints_back_witness:
  "\<exists>l. parse ''me@pc:notes'' = Inr l \<and> lo_remote l \<and> lo_user l = ''me'' \<and> location_string l = ''me@pc:notes''"
proof -
  obtain l where l: "parse ''me@pc:notes'' = Inr l" "lo_remote l" "lo_user l = ''me''" "lo_path l = ''notes''"
  proof -
    have "parse ''me@pc:notes'' = Inr \<lparr>lo_user = ''me'', lo_host = ''pc'', lo_port = [], lo_path = ''notes'',
      lo_remote = True, lo_prefix = ''me@pc:''\<rparr>" by code_simp
    then show ?thesis using that by force
  qed
  have "\<not> has_prefix ''me@pc:notes'' sshScheme" by code_simp
  from parse_prints_back [OF l(1) this] l show ?thesis by auto
qed

text \<open>A colon after a slash keeps an argument local.\<close>

lemma slash_keeps_local:
  assumes "CHR ''/'' \<in> set a" and "CHR '':'' \<notin> set a" and "hd a \<noteq> CHR ''[''" and "\<not> has_prefix (a @ b) sshScheme"
  shows "parse (a @ b) = Inr (local_at (a @ b))"
proof -
  have ne: "a \<noteq> []" using assms(1) by auto
  have br: "\<not> has_prefix (a @ b) ''[''" using ne assms(3) by (cases a) (auto simp: has_prefix_def)
  have "contains_any (take i (a @ b)) [CHR ''/'', CHR 0x5C]" if "index_byte (CHR '':'') (a @ b) = Some i" for i
  proof -
    have "length a \<le> i"
    proof (rule ccontr)
      assume "\<not> length a \<le> i"
      then have "(a @ b) ! i \<in> set a" by (simp add: nth_append)
      then show False using index_byte_Some [OF that] assms(2) by auto
    qed
    then show ?thesis using assms(1) by (auto simp: contains_any_def list_ex_iff)
  qed
  then have "splitHostPath (a @ b) = None"
    using br by (auto simp: splitHostPath_def split: option.split)
  then show ?thesis using assms(4) by (simp add: parse_def)
qed

text \<open>C1: A bracketed IPv6 host loses its brackets' protection behind a user. With \<open>user@\<close> in front the first
  colon inside the brackets is taken for the separator: the host is an opening bracket and the rest of
  the address becomes part of the path.\<close>

theorem bracketed_host_with_user_misparsed:
  "map_sum id (\<lambda>l. (lo_user l, lo_host l, lo_path l)) (parse ''me@[::1]:/srv'') = Inr (''me'', ''['', '':1]:/srv'') \<and>
   map_sum id (\<lambda>l. (lo_user l, lo_host l, lo_path l)) (parse ''[::1]:/srv'') = Inr ([], ''::1'', ''/srv'')"
  by code_simp

text \<open>The text of a location written as a URL does not parse back: the port becomes part of the path.\<close>

lemma url_text_reparses_elsewhere:
  "case parse ''ssh://pc:22/srv'' of Inr l \<Rightarrow> location_string l = ''pc:22:/srv'' \<and> lo_port l = ''22'' | Inl e \<Rightarrow> False"
  "case parse ''pc:22:/srv'' of Inr l \<Rightarrow> lo_port l = [] \<and> lo_path l = ''22:/srv'' | Inl e \<Rightarrow> False"
  by code_simp+

text \<open>Each host is dialed once. A location whose host key has been resolved before gets the same
  filesystem without another dial, whatever user's spelling or path it was written with.\<close>

lemma one_connection_per_host:
  assumes "for_location lfs dial a r = (Inr f, r1)" and "lo_remote a" and "lo_remote b" and "ConnKey a = ConnKey b"
  shows "for_location lfs dial b r1 = (Inr f, r1)"
  using assms by (auto simp: for_location_def Let_def split: option.splits sum.splits)

theorem one_connection_per_host_witness:
  "let lo = \<lambda>p. \<lparr>lo_user = [], lo_host = ''pc'', lo_port = [], lo_path = p, lo_remote = True, lo_prefix = ''pc:''\<rparr>;
       r1 = snd (for_location (0 :: nat) (\<lambda>n l. Inr n) (lo ''a'') registry_new) in
   for_location (0 :: nat) (\<lambda>n l. Inr n) (lo ''b'') r1 = (Inr 1, r1)"
proof -
  let ?lo = "\<lambda>p. \<lparr>lo_user = [], lo_host = ''pc'', lo_port = [], lo_path = p, lo_remote = True, lo_prefix = ''pc:''\<rparr>"
  have "for_location (0 :: nat) (\<lambda>n l. Inr n) (?lo ''a'') registry_new =
      (Inr 1, snd (for_location (0 :: nat) (\<lambda>n l. Inr n) (?lo ''a'') registry_new))"
    by (simp add: for_location_def registry_new_def)
  from one_connection_per_host [OF this, of "?lo ''b''"] show ?thesis by (simp add: ConnKey_def Let_def)
qed

end
