(* ===== verification/Autoscale.thy ===== *)
theory Autoscale
  imports Control Gate EngineSpec Location
begin

text \<open>
  What surrounds the controller: the sizes of the pools (engine.go, dirmeta.go), the CPU sampler
  (internal/sysload), the device classifier and sampler (internal/device) and the control loop of
  internal/engine/autoscale.go. The number of processors, the clock and the contents of /proc and /sys
  are arguments. The files of /proc are ASCII, so white space is ASCII white space.
\<close>

subsection \<open>Sizes\<close>

definition workerCount :: "int \<Rightarrow> options \<Rightarrow> int \<times> int" where
  "workerCount procs o' =
     (let mx = op_max_threads o';
          mx = (if mx \<le> 0
                then (let mx = procs * 8; mx = (if mx < 8 then 8 else mx) in if mx > 256 then 256 else mx)
                else mx);
          initial = 2 * procs; initial = (if initial < 4 then 4 else initial);
          initial = (if initial > mx then mx else initial)
      in (mx, initial))"

definition metadataWorkerCount :: "int \<Rightarrow> int" where
  "metadataWorkerCount procs = (if procs < 4 then 4 else if procs > 32 then 32 else procs)"

definition retryBaseDelay :: int where
  "retryBaseDelay = 100 * 10 ^ 6"

definition retryBackoff :: "nat \<Rightarrow> int" where
  "retryBackoff attempt =
     (let d = wrap64 (retryBaseDelay * 2 ^ attempt) in if d > 2 * 10 ^ 9 then 2 * 10 ^ 9 else d)"

definition controllerStartW :: "int \<Rightarrow> bool \<Rightarrow> int \<Rightarrow> int" where
  "controllerStartW procs rotational mx =
     (if rotational then (if mx < 2 then mx else 2)
      else
        (let start = 2 * procs; start = (if start < 4 then 4 else start) in if start > mx then mx else start))"

subsection \<open>Numbers and fields of a text\<close>

text \<open>\<open>strconv.ParseUint(s, 10, 64)\<close> and \<open>strings.Fields\<close>.\<close>

definition parse_uint :: "string \<Rightarrow> int option" where
  "parse_uint s = (if s = [] \<or> \<not> list_all is_digit s \<or> 2 ^ 64 \<le> digits_val s then None else Some (digits_val s))"

fun split_fields_acc :: "string \<Rightarrow> string \<Rightarrow> string list" where
  "split_fields_acc cur [] = (if cur = [] then [] else [cur])"
| "split_fields_acc cur (c # cs) =
     (if is_space c then (if cur = [] then split_fields_acc [] cs else cur # split_fields_acc [] cs)
      else split_fields_acc (cur @ [c]) cs)"

definition split_fields :: "string \<Rightarrow> string list" where
  "split_fields s = split_fields_acc [] s"

fun parse_uints :: "string list \<Rightarrow> int list option" where
  "parse_uints [] = Some []"
| "parse_uints (f # fs) =
     (case parse_uint f of
        None \<Rightarrow> None
      | Some v \<Rightarrow> (case parse_uints fs of None \<Rightarrow> None | Some vs \<Rightarrow> Some (v # vs)))"

subsection \<open>CPU load\<close>

record cpu_sampler =
  cp_prev_idle :: int
  cp_prev_total :: int
  cp_primed :: bool

definition cpu_new :: cpu_sampler where
  "cpu_new = \<lparr>cp_prev_idle = 0, cp_prev_total = 0, cp_primed = False\<rparr>"

text \<open>The lines of /proc/stat; idle time and the total.\<close>

fun cpu_lines :: "string list \<Rightarrow> (int \<times> int) option" where
  "cpu_lines [] = None"
| "cpu_lines (line # rest) =
     (if \<not> has_prefix line ''cpu '' then cpu_lines rest
      else
        (let fs = split_fields line in
         if length fs < 6 then None
         else
           (case parse_uints (drop 1 fs) of
              None \<Rightarrow> None
            | Some vals \<Rightarrow> Some (uwrap64 (vals ! 3 + vals ! 4), uwrap64 (sum_list vals)))))"

definition parseCPULine :: "string \<Rightarrow> (int \<times> int) option" where
  "parseCPULine stat = cpu_lines (split_on (CHR 0x0A) stat)"

definition readCPUTimes :: "string option \<Rightarrow> (int \<times> int) option" where
  "readCPUTimes data = (case data of None \<Rightarrow> None | Some s \<Rightarrow> parseCPULine s)"

text \<open>\<open>Sample\<close> of the CPU, from the times it reads.\<close>

definition cpu_sample :: "(int \<times> int) option \<Rightarrow> cpu_sampler \<Rightarrow> f64 option \<times> cpu_sampler" where
  "cpu_sample cpu s =
     (case cpu of
        None \<Rightarrow> (None, s)
      | Some (it, tot) \<Rightarrow>
          if \<not> cp_primed s then (None, \<lparr>cp_prev_idle = it, cp_prev_total = tot, cp_primed = True\<rparr>)
          else
            (let dTotal = uwrap64 (tot - cp_prev_total s); dIdle = uwrap64 (it - cp_prev_idle s);
                 s = s\<lparr>cp_prev_idle := it, cp_prev_total := tot\<rparr>
             in if dTotal = 0 then (None, s)
                else
                  (let busy = f_sub (Fin 1) (f_div (f_of_int dIdle) (f_of_int dTotal));
                       busy = (if f_less busy (Fin 0) then Fin 0 else busy);
                       busy = (if f_less (Fin 1) busy then Fin 1 else busy)
                   in (Some busy, s))))"

subsection \<open>The device\<close>

datatype device_class = UnknownClass | SSD | HDD

definition class_string :: "device_class \<Rightarrow> string" where
  "class_string c = (case c of SSD \<Rightarrow> ''SSD'' | HDD \<Rightarrow> ''HDD'' | UnknownClass \<Rightarrow> ''unknown'')"

record device_info =
  di_class :: device_class
  di_optimal_io :: int
  di_id :: string
  di_name :: string

definition no_device :: device_info where
  "no_device = \<lparr>di_class = UnknownClass, di_optimal_io = 0, di_id = [], di_name = []\<rparr>"

definition rotational :: "device_info \<Rightarrow> bool" where
  "rotational i \<longleftrightarrow> di_class i = HDD"

text \<open>What the classifier asks of the system: major and minor number of a path's device, a resolved link, the presence of a
  path, the contents of a file.\<close>

record 'w dev_os =
  do_stat :: "'w \<Rightarrow> string \<Rightarrow> (int \<times> int) option"
  do_eval_symlinks :: "'w \<Rightarrow> string \<Rightarrow> string option"
  do_exists :: "'w \<Rightarrow> string \<Rightarrow> bool"
  do_read_file :: "'w \<Rightarrow> string \<Rightarrow> string option"

definition resolveDiskDir :: "'w dev_os \<Rightarrow> 'w \<Rightarrow> int \<Rightarrow> int \<Rightarrow> string option" where
  "resolveDiskDir dos w major minor =
     (case do_eval_symlinks dos w (''/sys/dev/block/'' @ show_int major @ '':'' @ show_int minor) of
        None \<Rightarrow> None
      | Some disk \<Rightarrow>
          (let disk = (if do_exists dos w (path_join [disk, ''partition'']) then path_dir disk else disk) in
           if \<not> do_exists dos w (path_join [disk, ''queue'']) then None else Some disk))"

definition readSysUint :: "'w dev_os \<Rightarrow> 'w \<Rightarrow> string \<Rightarrow> int option" where
  "readSysUint dos w p = (case do_read_file dos w p of None \<Rightarrow> None | Some s \<Rightarrow> parse_uint (trim_space s))"

definition lookup :: "'w dev_os \<Rightarrow> 'w \<Rightarrow> string \<Rightarrow> device_info" where
  "lookup dos w p =
     (case (case do_stat dos w p of Some d \<Rightarrow> Some d | None \<Rightarrow> do_stat dos w (path_dir p)) of
        None \<Rightarrow> no_device
      | Some (major, minor) \<Rightarrow>
          (case resolveDiskDir dos w major minor of
             None \<Rightarrow> no_device
           | Some diskDir \<Rightarrow>
               (let info = no_device\<lparr>di_name := path_base diskDir, di_id := diskDir\<rparr>;
                    info = (case readSysUint dos w (path_join [diskDir, ''queue'', ''rotational'']) of
                              Some rot \<Rightarrow> info\<lparr>di_class := (if rot = 1 then HDD else SSD)\<rparr>
                            | None \<Rightarrow> info)
                in case readSysUint dos w (path_join [diskDir, ''queue'', ''optimal_io_size'']) of
                     Some ois \<Rightarrow> info\<lparr>di_optimal_io := wrap64 ois\<rparr>
                   | None \<Rightarrow> info)))"

fun io_lines :: "string list \<Rightarrow> string \<Rightarrow> int option" where
  "io_lines [] name = None"
| "io_lines (line # rest) name =
     (let f = split_fields line in
      if length f < 13 \<or> f ! 2 \<noteq> name then io_lines rest name else parse_uint (f ! 12))"

definition parseIOTicks :: "string \<Rightarrow> string \<Rightarrow> int option" where
  "parseIOTicks data name = io_lines (split_on (CHR 0x0A) data) name"

definition readIOTicks :: "'w dev_os \<Rightarrow> 'w \<Rightarrow> string \<Rightarrow> int option" where
  "readIOTicks dos w name =
     (case do_read_file dos w ''/proc/diskstats'' of None \<Rightarrow> None | Some s \<Rightarrow> parseIOTicks s name)"

record util_sampler =
  us_name :: string
  us_prev_ticks :: int
  us_prev_time :: int
  us_primed :: bool

definition util_new :: "string \<Rightarrow> util_sampler" where
  "util_new name = \<lparr>us_name = name, us_prev_ticks = 0, us_prev_time = 0, us_primed = False\<rparr>"

text \<open>\<open>Duration.Milliseconds\<close> and \<open>Duration.Seconds\<close>; Go's integer division truncates.\<close>

definition go_div :: "int \<Rightarrow> int \<Rightarrow> int" where
  "go_div a b = (if 0 \<le> a then a div b else - ((- a) div b))"

definition dur_seconds :: "int \<Rightarrow> f64" where
  "dur_seconds d = f_add (f_of_int (go_div d (10 ^ 9))) (f_div (f_of_int (d - go_div d (10 ^ 9) * 10 ^ 9)) (Fin (10 ^ 9)))"

definition util_sample :: "int option \<Rightarrow> int \<Rightarrow> util_sampler \<Rightarrow> f64 option \<times> util_sampler" where
  "util_sample reading now u =
     (if us_name u = [] then (None, u)
      else
        (case reading of
           None \<Rightarrow> (None, u)
         | Some ticks \<Rightarrow>
             if \<not> us_primed u then (None, u\<lparr>us_prev_ticks := ticks, us_prev_time := now, us_primed := True\<rparr>)
             else
               (let dtMs = f_of_int (go_div (time_sub now (us_prev_time u)) (10 ^ 6));
                    dTicks = f_of_int (uwrap64 (ticks - us_prev_ticks u));
                    u = u\<lparr>us_prev_ticks := ticks, us_prev_time := now\<rparr>
                in if f_le dtMs (Fin 0) then (None, u)
                   else
                     (let pct = f_mul (f_div dTicks dtMs) (Fin 100);
                          pct = (if f_less pct (Fin 0) then Fin 0 else pct);
                          pct = (if f_less (Fin 100) pct then Fin 100 else pct)
                      in (Some pct, u)))))"

subsection \<open>The control loop\<close>

text \<open>The paths whose devices are classified: empty for a remote end.\<close>

definition localDestProbe :: "('w, 'd) ctx \<Rightarrow> string" where
  "localDestProbe cx =
     (if \<not> fs_local (cx_dfs cx) then []
      else if cx_target_dir cx \<noteq> [] then cx_target_dir cx
      else fs_dir (cx_dfs cx) (cx_target_file cx))"

definition localSourceProbe :: "options \<Rightarrow> string" where
  "localSourceProbe o' =
     (case op_sources o' of
        [] \<Rightarrow> []
      | src # _ \<Rightarrow>
          (case parse src of Inl e \<Rightarrow> [] | Inr loc \<Rightarrow> if lo_remote loc then [] else lo_path loc))"

definition probeDevice :: "'w dev_os \<Rightarrow> 'w \<Rightarrow> string \<Rightarrow> device_info" where
  "probeDevice dos w p = (if p = [] then no_device else lookup dos w p)"

text \<open>What one tick of the loop reads: the clock, the bytes moved, the progress count, the files of /proc that the
  samplers parse (the CPU times; for each device its busy ticks and the clock just after).\<close>

record reading =
  re_now :: int
  re_moved :: int
  re_progress :: int
  re_cpu :: "(int \<times> int) option"
  re_dst_ticks :: "int option"
  re_dst_now :: int
  re_src_ticks :: "int option"
  re_src_now :: int

definition sampleUtil :: "reading \<Rightarrow> util_sampler \<Rightarrow> util_sampler option \<Rightarrow> f64 \<times> util_sampler \<times> util_sampler option" where
  "sampleUtil re dst src =
     (let (v, dst) = util_sample (re_dst_ticks re) (re_dst_now re) dst;
          util = (case v of Some v \<Rightarrow> v | None \<Rightarrow> Fin (- 1))
      in case src of
           None \<Rightarrow> (util, dst, None)
         | Some u \<Rightarrow>
             (let (v, u) = util_sample (re_src_ticks re) (re_src_now re) u in
              (case v of Some v \<Rightarrow> if f_less util v then v else util | None \<Rightarrow> util, dst, Some u)))"

text \<open>The state of \<open>runController\<close> and the gate it drives.\<close>

record autoscale =
  au_ctl :: controller
  au_gate :: gate
  au_rot :: bool
  au_cpu :: cpu_sampler
  au_dst :: util_sampler
  au_src :: "util_sampler option"
  au_bytes :: int
  au_progress :: int
  au_time :: int

definition autoscale_start :: "int \<Rightarrow> device_info \<Rightarrow> device_info \<Rightarrow> gate \<Rightarrow> int \<Rightarrow> int \<Rightarrow> int \<Rightarrow> autoscale" where
  "autoscale_start procs dstInfo srcInfo g nb np now =
     (let rot = (rotational dstInfo \<or> rotational srcInfo); start = controllerStartW procs rot (gt_max g) in
      \<lparr>au_ctl = control_new 1 (gt_max g) start, au_gate = set_limit start g, au_rot = rot, au_cpu = cpu_new,
       au_dst = util_new (di_name dstInfo),
       au_src = (if di_name srcInfo \<noteq> [] \<and> di_name srcInfo \<noteq> di_name dstInfo then Some (util_new (di_name srcInfo)) else None),
       au_bytes = nb, au_progress = np, au_time = now\<rparr>)"

text \<open>The sample of a tick over \<open>dt\<close> seconds, and the samplers after it.\<close>

definition tick_sample :: "reading \<Rightarrow> f64 \<Rightarrow> autoscale \<Rightarrow> sample \<times> cpu_sampler \<times> util_sampler \<times> util_sampler option" where
  "tick_sample re dt a =
     (let (busy, cpu) = cpu_sample (re_cpu re) (au_cpu a);
          (util, dst, src) = sampleUtil re (au_dst a) (au_src a)
      in (\<lparr>sm_throughput = f_div (f_of_int (wrap64 (re_moved re - au_bytes a))) dt,
           sm_sys_cpu = (case busy of Some v \<Rightarrow> v | None \<Rightarrow> Fin (- 1)),
           sm_dev_util = util, sm_rotational = au_rot a,
           sm_blocked = (re_progress re = au_progress a \<and> saturated (au_gate a))\<rparr>, cpu, dst, src))"

definition control_tick :: "reading \<Rightarrow> autoscale \<Rightarrow> autoscale" where
  "control_tick re a =
     (let dt = dur_seconds (time_sub (re_now re) (au_time a));
          a' = a\<lparr>au_bytes := re_moved re, au_progress := re_progress re, au_time := re_now re\<rparr>
      in if f_le dt (Fin 0) then a'
         else
           (let (s, cpu, dst, src) = tick_sample re dt a; c = update (au_ctl a) s in
            a'\<lparr>au_ctl := c, au_gate := set_limit (ct_w c) (au_gate a), au_cpu := cpu, au_dst := dst, au_src := src\<rparr>))"

text \<open>The reports of grown pools, by host; one connection is never reported.\<close>

definition seen_conns :: "(string \<rightharpoonup> int) \<Rightarrow> string \<Rightarrow> int" where
  "seen_conns reported host = (case reported host of Some n \<Rightarrow> n | None \<Rightarrow> 1)"

fun conn_tick :: "('w, 'd) ctx \<Rightarrow> (string \<times> int) list \<Rightarrow> (string \<rightharpoonup> int) \<times> 'w runner \<Rightarrow> (string \<rightharpoonup> int) \<times> 'w runner" where
  "conn_tick cx [] s = s"
| "conn_tick cx ((host, opened) # pools) (reported, r) =
     conn_tick cx pools
       (if opened > seen_conns reported host
        then (reported(host \<mapsto> opened), verbose cx ''ssh: %s now using %d connections'' [Str host, Num opened] r)
        else (reported, r))"

subsection \<open>Samples stay in their ranges\<close>

lemma round_half_even_near: "of_int (round_half_even q) \<le> q + 1 \<and> q - 1 \<le> of_int (round_half_even q)"
  unfolding round_half_even_def Let_def by (auto simp: le_floor_iff) linarith+

lemma pow2_nonzero: "pow2 k \<noteq> 0"
  using pow2_pos [of k] by (metis less_irrefl)

text \<open>Integers of 64 bits become finite floats, and positive ones stay positive.\<close>

lemma f_of_int_finite:
  assumes "0 < n" and "n < 2 ^ 64"
  shows "\<exists>q > 0. f_of_int n = Fin q"
proof (cases "n < 2 ^ 53")
  case True
  then show ?thesis using fround_of_int [of n] assms by (auto simp: f_of_int_def)
next
  case False
  let ?q = "of_int n :: rat"
  let ?e = "max (flog2 \<bar>?q\<bar> - 52) (- 1074)"
  let ?v = "of_int (round_half_even (?q / pow2 ?e)) * pow2 ?e"
  have "flog2 ?q < int 64" by (rule flog2_of_int) (use assms in simp_all)
  then have "?e \<le> 12" using assms by simp
  then have e: "pow2 ?e \<le> pow2 12" by (rule pow2_mono)
  have p12: "pow2 12 = 4096" by (simp add: pow2_def)
  have p: "0 < pow2 ?e" by simp
  have q: "?q / pow2 ?e * pow2 ?e = ?q" by (simp add: pow2_nonzero)
  have up: "?v \<le> ?q + pow2 ?e"
    using mult_right_mono [OF conjunct1 [OF round_half_even_near [of "?q / pow2 ?e"]], of "pow2 ?e"] p q
    by (simp add: distrib_right)
  have lo: "?q - pow2 ?e \<le> ?v"
    using mult_right_mono [OF conjunct2 [OF round_half_even_near [of "?q / pow2 ?e"]], of "pow2 ?e"] p q
    by (simp add: left_diff_distrib)
  have n: "of_int (2 ^ 53) \<le> ?q" "?q < of_int (2 ^ 64)" using False assms(2) by (simp_all only: of_int_le_iff of_int_less_iff not_less)
  have pos: "0 < ?v" using lo e p12 n(1) by simp
  have "?v < pow2 1024"
  proof -
    have "?v < of_int (2 ^ 65)" using up e p12 n(2) by simp
    also have "\<dots> = pow2 65" by (simp add: pow2_def)
    also have "\<dots> \<le> pow2 1024" by (rule pow2_mono) simp
    finally show ?thesis .
  qed
  moreover have "- pow2 1024 < ?v" using pos pow2_pos [of 1024] by linarith
  ultimately have "fround ?q = Fin ?v" using assms(1) by (simp add: fround_def Let_def)
  then show ?thesis using pos unfolding f_of_int_def by blast
qed

lemma f_of_int_nonneg: "0 \<le> n \<Longrightarrow> n < 2 ^ 64 \<Longrightarrow> \<exists>q \<ge> 0. f_of_int n = Fin q"
  using f_of_int_finite [of n] by (cases "n = 0") (auto simp: f_of_int_def)

text \<open>Cutting a float that is a number to a range.\<close>

definition cut :: "f64 \<Rightarrow> rat \<Rightarrow> f64" where
  "cut x hi = (let x = (if f_less x (Fin 0) then Fin 0 else x) in if f_less (Fin hi) x then Fin hi else x)"

lemma cut_range: "x \<noteq> NaN \<Longrightarrow> 0 \<le> hi \<Longrightarrow> f_le (Fin 0) (cut x hi) \<and> f_le (cut x hi) (Fin hi)"
  by (cases x) (auto simp: cut_def Let_def f_le_def f_eq_def)

lemma f_add_number: "a \<noteq> NaN \<Longrightarrow> f_add (Fin q) a \<noteq> NaN"
  by (cases a) auto

lemma f_neg_number: "a \<noteq> NaN \<Longrightarrow> f_neg a \<noteq> NaN"
  by (cases a) auto

lemma f_mul_number: "a \<noteq> NaN \<Longrightarrow> f_mul a (Fin 100) \<noteq> NaN"
  by (cases a) (auto simp: f_inf_def)

lemma sampler_ranges:
  "(\<forall>v s'. cpu_sample cpu s = (Some v, s') \<longrightarrow> f_le (Fin 0) v \<and> f_le v (Fin 1)) \<and>
   (\<forall>v u'. util_sample ticks now u = (Some v, u') \<longrightarrow> f_le (Fin 0) v \<and> f_le v (Fin 100))"
proof (intro conjI allI impI)
  fix v s' assume "cpu_sample cpu s = (Some v, s')"
  then obtain it tot where "cpu = Some (it, tot)" and t: "uwrap64 (tot - cp_prev_total s) \<noteq> 0"
    and v: "v = cut (f_sub (Fin 1) (f_div (f_of_int (uwrap64 (it - cp_prev_idle s))) (f_of_int (uwrap64 (tot - cp_prev_total s))))) 1"
    by (auto simp: cpu_sample_def cut_def Let_def split: option.splits if_splits prod.splits)
  have "0 < uwrap64 (tot - cp_prev_total s)" using t uwrap64_range [of "tot - cp_prev_total s"] by linarith
  then obtain q where q: "q \<noteq> 0" "f_of_int (uwrap64 (tot - cp_prev_total s)) = Fin q"
    using f_of_int_finite uwrap64_range by (metis less_irrefl)
  obtain p where p: "f_of_int (uwrap64 (it - cp_prev_idle s)) = Fin p"
    using f_of_int_nonneg uwrap64_range by meson
  have "f_div (Fin p) (Fin q) \<noteq> NaN" using q(1) by simp
  then have "f_sub (Fin 1) (f_div (Fin p) (Fin q)) \<noteq> NaN"
    unfolding f_sub_def by (intro f_add_number f_neg_number)
  from cut_range [OF this zero_le_one] show "f_le (Fin 0) v" "f_le v (Fin 1)"
    unfolding v p q(2) by (blast dest: conjunct1 conjunct2)+
next
  fix v u' assume "util_sample ticks now u = (Some v, u')"
  then obtain t where "ticks = Some t"
    and d: "\<not> f_le (f_of_int (go_div (time_sub now (us_prev_time u)) (10 ^ 6))) (Fin 0)"
    and v: "v = cut (f_mul (f_div (f_of_int (uwrap64 (t - us_prev_ticks u))) (f_of_int (go_div (time_sub now (us_prev_time u)) (10 ^ 6)))) (Fin 100)) 100"
    by (auto simp: util_sample_def cut_def Let_def split: option.splits if_splits)
  obtain p where p: "f_of_int (uwrap64 (t - us_prev_ticks u)) = Fin p"
    using f_of_int_nonneg uwrap64_range by meson
  have "f_div (Fin p) x \<noteq> NaN" if "x \<noteq> NaN" "\<not> f_le x (Fin 0)" for x
    using that by (cases x) (auto simp: f_le_def f_eq_def)
  then have "f_div (Fin p) (f_of_int (go_div (time_sub now (us_prev_time u)) (10 ^ 6))) \<noteq> NaN"
    using d by (simp add: f_of_int_def)
  from cut_range [OF f_mul_number [OF this], of 100] show "f_le (Fin 0) v" "f_le v (Fin 100)"
    unfolding v p by simp_all
qed

lemmas cpu_in_range = sampler_ranges [THEN conjunct1, rule_format]
lemmas util_in_range = sampler_ranges [THEN conjunct2, rule_format]

text \<open>A reading of a sampler: a number of its range, or the mark for none.\<close>

definition in_range :: "rat \<Rightarrow> f64 \<Rightarrow> bool" where
  "in_range hi x \<longleftrightarrow> x = Fin (- 1) \<or> f_le (Fin 0) x \<and> f_le x (Fin hi)"

definition well_typed :: "sample \<Rightarrow> bool" where
  "well_typed s \<longleftrightarrow> in_range 1 (sm_sys_cpu s) \<and> in_range 100 (sm_dev_util s)"

lemma sampleUtil_in_range: "in_range 100 (fst (sampleUtil re dst src))"
proof -
  have u: "in_range 100 (case fst (util_sample t n u) of Some v \<Rightarrow> v | None \<Rightarrow> Fin (- 1))" for t n u
    by (cases "util_sample t n u") (auto simp: in_range_def dest: util_in_range split: option.splits)
  show ?thesis
    using u [of "re_dst_ticks re" "re_dst_now re" dst] u [of "re_src_ticks re" "re_src_now re" "the src"]
    by (auto simp: sampleUtil_def Let_def split: option.splits prod.splits)
qed

text \<open>C25: The control loop feeds the controller well-formed samples. Whatever /proc says (counters that step back or
  wrap included), the CPU figure of a sample is a number from 0 to 1 and the device figure a number from 0 to 100,
  or the mark \<open>-1\<close> of a figure that cannot be read; neither is ever not-a-number.\<close>

theorem samples_in_range: "well_typed (fst (tick_sample re dt a))"
proof -
  have "in_range 1 (case fst (cpu_sample c s) of Some v \<Rightarrow> v | None \<Rightarrow> Fin (- 1))" for c s
    by (cases "cpu_sample c s") (auto simp: in_range_def dest: cpu_in_range split: option.splits)
  then show ?thesis
    using sampleUtil_in_range [of re "au_dst a" "au_src a"]
    by (simp add: well_typed_def tick_sample_def Let_def split_beta)
qed

subsection \<open>The loop drives the gate\<close>

text \<open>Between two ticks workers enter and leave the gate; the limit is the loop's alone.\<close>

fun control_ticks :: "(int \<times> reading) list \<Rightarrow> autoscale \<Rightarrow> autoscale" where
  "control_ticks [] a = a"
| "control_ticks ((k, re) # res) a = control_ticks res (control_tick re (a\<lparr>au_gate := (au_gate a)\<lparr>gt_in_use := k\<rparr>\<rparr>))"

definition drives :: "int \<Rightarrow> autoscale \<Rightarrow> bool" where
  "drives mx a \<longleftrightarrow>
     ctl_inv (au_ctl a) \<and> ct_max (au_ctl a) = mx \<and> gt_max (au_gate a) = mx \<and> gt_limit (au_gate a) = ct_w (au_ctl a)"

lemma drives_bounds: "drives mx a \<Longrightarrow> 1 \<le> gt_limit (au_gate a) \<and> gt_limit (au_gate a) \<le> mx"
  by (auto simp: drives_def ctl_inv_def)

lemma set_limit_exact: "1 \<le> n \<Longrightarrow> n \<le> gt_max g \<Longrightarrow> set_limit n g = g\<lparr>gt_limit := n\<rparr>"
  by (simp add: set_limit_def)

lemma controllerStartW_bounds: "1 \<le> mx \<Longrightarrow> 1 \<le> controllerStartW procs rot mx \<and> controllerStartW procs rot mx \<le> mx"
  by (simp add: controllerStartW_def Let_def)

lemma control_new_start: "1 \<le> w \<Longrightarrow> w \<le> mx \<Longrightarrow> ct_w (control_new 1 mx w) = w \<and> ct_max (control_new 1 mx w) = mx"
  by (simp add: control_new_def Let_def)

lemma autoscale_start_drives:
  assumes "1 \<le> gt_max g"
  shows "drives (gt_max g) (autoscale_start procs dstInfo srcInfo g nb np now)"
  using controllerStartW_bounds [OF assms, of procs "rotational dstInfo \<or> rotational srcInfo"]
    control_new_start [of "controllerStartW procs (rotational dstInfo \<or> rotational srcInfo) (gt_max g)" "gt_max g"]
  by (simp add: drives_def autoscale_start_def Let_def set_limit_exact control_new_inv)

lemma control_tick_drives:
  assumes d: "drives mx a"
  shows "drives mx (control_tick re a)"
proof (cases "f_le (dur_seconds (time_sub (re_now re) (au_time a))) (Fin 0)")
  case True
  then show ?thesis using d by (simp add: drives_def control_tick_def Let_def)
next
  case False
  let ?c = "update (au_ctl a) (fst (tick_sample re (dur_seconds (time_sub (re_now re) (au_time a))) a))"
  have c: "ctl_inv ?c" "ct_max ?c = mx" using d by (simp_all add: drives_def update_inv frame_simps)
  then have "1 \<le> ct_w ?c" "ct_w ?c \<le> gt_max (au_gate a)" using d by (auto simp: ctl_inv_def drives_def)
  then show ?thesis using False c d by (simp add: drives_def control_tick_def Let_def set_limit_exact split_beta)
qed

lemma control_ticks_drives: "drives mx a \<Longrightarrow> drives mx (control_ticks res a)"
proof (induction res a rule: control_ticks.induct)
  case (2 k re res a)
  have "drives mx (a\<lparr>au_gate := (au_gate a)\<lparr>gt_in_use := k\<rparr>\<rparr>)" using 2(2) by (simp add: drives_def)
  then show ?case unfolding control_ticks.simps by (intro 2(1) control_tick_drives)
qed simp

text \<open>C26: The control loop and the gate agree. On a gate as the program creates it, whatever workers enter and
  leave and whatever the clock, the counters and the samplers say at each tick, the gate's limit is the controller's
  W: it lies between one and the gate's ceiling, so the gate's own clamp never alters it.\<close>

theorem controller_drives_gate:
  "let a = control_ticks res (autoscale_start procs dstInfo srcInfo (gate_new mx initial) nb np now)
   in gt_limit (au_gate a) = ct_w (au_ctl a) \<and> 1 \<le> gt_limit (au_gate a) \<and> gt_limit (au_gate a) \<le> max 1 mx \<and>
      set_limit (ct_w (au_ctl a)) (au_gate a) = au_gate a"
proof -
  have m: "gt_max (gate_new mx initial) = max 1 mx" by (simp add: gate_new_def Let_def max_def)
  have "drives (max 1 mx) (control_ticks res (autoscale_start procs dstInfo srcInfo (gate_new mx initial) nb np now))"
    using autoscale_start_drives [of "gate_new mx initial" procs dstInfo srcInfo nb np now]
    unfolding m by (intro control_ticks_drives) simp
  then show ?thesis using drives_bounds by (fastforce simp: Let_def drives_def set_limit_exact)
qed

end
