(* ===== verification/Console.thy ===== *)
theory Console
  imports Runner
begin

text \<open>
  The terminal output: \<open>printLine\<close> of internal/engine/output.go, the live line and \<open>lineWriter\<close> of
  internal/engine/progress.go. A console keeps what was written to the two streams, in order, and the live
  line. What a terminal shows of it (carriage return, line feed, erase to the end of the row; a row as long
  as the line) is the specification the writes are held against.
\<close>

subsection \<open>Writes\<close>

datatype stream = Stdout | Stderr

record console =
  co_writes :: "(stream \<times> string) list"
  co_progress :: string

definition console_new :: console where
  "console_new = \<lparr>co_writes = [], co_progress = []\<rparr>"

definition put :: "stream \<Rightarrow> string \<Rightarrow> console \<Rightarrow> console" where
  "put ch s c = c\<lparr>co_writes := co_writes c @ [(ch, s)]\<rparr>"

abbreviation "carriage_return \<equiv> CHR 0x0D"
abbreviation "line_feed \<equiv> CHR 0x0A"
abbreviation "escape_char \<equiv> CHR 0x1B"

definition erase_seq :: string where
  "erase_seq = [carriage_return, escape_char, CHR ''['', CHR ''K'']"

definition printLine :: "stream \<Rightarrow> string \<Rightarrow> console \<Rightarrow> console" where
  "printLine ch text c =
     (let c = (if co_progress c \<noteq> [] then put Stderr erase_seq c else c);
          c = put ch (text @ [line_feed]) c
      in if co_progress c \<noteq> [] then put Stderr (co_progress c) c else c)"

definition drawProgress :: "string \<Rightarrow> console \<Rightarrow> console" where
  "drawProgress line c = put Stderr (erase_seq @ line) (c\<lparr>co_progress := line\<rparr>)"

definition clearProgressLine :: "console \<Rightarrow> console" where
  "clearProgressLine c = put Stderr erase_seq (c\<lparr>co_progress := []\<rparr>)"

subsection \<open>Lines of a foreign stream\<close>

text \<open>\<open>lineWriter\<close>: the buffered rest of a line and the console behind it.\<close>

function lw_loop :: "string \<Rightarrow> console \<Rightarrow> string \<times> console" where
  "lw_loop buf c =
     (case index_byte line_feed buf of
        None \<Rightarrow> (buf, c)
      | Some i \<Rightarrow>
          lw_loop (drop (Suc i) buf) (printLine Stderr (trim_right_char carriage_return (take i buf)) c))"
  by pat_completeness auto
termination
proof (relation "measure (\<lambda>(buf, c). length buf)")
  fix buf :: string and c :: console and i
  assume "index_byte line_feed buf = Some i"
  then have "buf \<noteq> []" by auto
  then show "((drop (Suc i) buf, printLine Stderr (trim_right_char carriage_return (take i buf)) c), buf, c)
      \<in> measure (\<lambda>(buf, c). length buf)" by simp
qed simp

declare lw_loop.simps [simp del]

definition lineWriter_write :: "string \<Rightarrow> string \<times> console \<Rightarrow> string \<times> console" where
  "lineWriter_write p s = (let (buf, c) = s in lw_loop (buf @ p) c)"

subsection \<open>The terminal\<close>

record screen =
  sc_rows :: "string list"
  sc_row :: string
  sc_col :: nat

definition blank :: screen where
  "blank = \<lparr>sc_rows = [], sc_row = [], sc_col = 0\<rparr>"

definition put_char :: "char \<Rightarrow> screen \<Rightarrow> screen" where
  "put_char x t =
     (if x = carriage_return then t\<lparr>sc_col := 0\<rparr>
      else if x = line_feed then \<lparr>sc_rows = sc_rows t @ [sc_row t], sc_row = [], sc_col = 0\<rparr>
      else t\<lparr>sc_row := take (sc_col t) (sc_row t) @ [x] @ drop (Suc (sc_col t)) (sc_row t), sc_col := Suc (sc_col t)\<rparr>)"

function feed :: "string \<Rightarrow> screen \<Rightarrow> screen" where
  "feed [] t = t"
| "feed (x # xs) t =
     (if x = escape_char \<and> take 2 xs = ''[K'' then feed (drop 2 xs) (t\<lparr>sc_row := take (sc_col t) (sc_row t)\<rparr>)
      else feed xs (put_char x t))"
  by pat_completeness auto
termination by (relation "measure (\<lambda>(xs, t). length xs)") auto

text \<open>A terminal on which standard error appears, and standard output if it is not redirected.\<close>

fun show_writes :: "bool \<Rightarrow> (stream \<times> string) list \<Rightarrow> screen \<Rightarrow> screen" where
  "show_writes out [] t = t"
| "show_writes out ((ch, s) # ws) t = show_writes out ws (if out \<or> ch = Stderr then feed s t else t)"

lemma show_writes_append: "show_writes out (ws @ vs) t = show_writes out vs (show_writes out ws t)"
  by (induction out ws t rule: show_writes.induct) simp_all

subsection \<open>What the writes show\<close>

datatype console_op = Line stream string | Draw string | Clear

fun apply_op :: "console_op \<Rightarrow> console \<Rightarrow> console" where
  "apply_op (Line ch s) c = printLine ch s c"
| "apply_op (Draw s) c = drawProgress s c"
| "apply_op Clear c = clearProgressLine c"

definition apply_ops :: "console_op list \<Rightarrow> console" where
  "apply_ops ops = fold apply_op ops console_new"

text \<open>The abstract console: the lines printed on streams that show, and the live line.\<close>

fun abs_op :: "bool \<Rightarrow> console_op \<Rightarrow> string list \<times> string \<Rightarrow> string list \<times> string" where
  "abs_op out (Line ch s) (rows, live) = (if out \<or> ch = Stderr then (rows @ [s], live) else (rows, live))"
| "abs_op out (Draw s) (rows, live) = (rows, s)"
| "abs_op out Clear (rows, live) = (rows, [])"

definition plain :: "string \<Rightarrow> bool" where
  "plain s \<longleftrightarrow> list_all (\<lambda>x. x \<noteq> carriage_return \<and> x \<noteq> line_feed \<and> x \<noteq> escape_char) s"

fun plain_op :: "console_op \<Rightarrow> bool" where
  "plain_op (Line ch s) = plain s"
| "plain_op (Draw s) = plain s"
| "plain_op Clear = True"

text \<open>The relation: the rows are the lines, the current row is the live line with the cursor at its end.\<close>

definition displays :: "bool \<Rightarrow> console \<Rightarrow> string list \<times> string \<Rightarrow> bool" where
  "displays out c a \<longleftrightarrow>
     show_writes out (co_writes c) blank = \<lparr>sc_rows = fst a, sc_row = snd a, sc_col = length (snd a)\<rparr> \<and>
     co_progress c = snd a \<and> plain (snd a)"

lemma plain_Nil [simp]: "plain []"
  by (simp add: plain_def)

lemma feed_plain:
  "plain s \<Longrightarrow> feed (s @ v) \<lparr>sc_rows = rows, sc_row = row, sc_col = length row\<rparr> =
     feed v \<lparr>sc_rows = rows, sc_row = row @ s, sc_col = length (row @ s)\<rparr>"
proof (induction s arbitrary: row)
  case (Cons x s)
  then have "x \<noteq> carriage_return" "x \<noteq> line_feed" "x \<noteq> escape_char" "plain s" by (simp_all add: plain_def)
  then show ?case using Cons.IH [of "row @ [x]"] by (simp add: put_char_def)
qed simp

lemma feed_erase [simp]:
  "feed (erase_seq @ v) \<lparr>sc_rows = rows, sc_row = row, sc_col = n\<rparr> = feed v \<lparr>sc_rows = rows, sc_row = [], sc_col = 0\<rparr>"
  by (simp add: erase_seq_def put_char_def)

lemmas feed_erase_end [simp] = feed_erase [where v = "[]", simplified]
lemmas feed_text = feed_plain [where row = "[]", simplified]
lemmas feed_text_end = feed_plain [where row = "[]" and v = "[]", simplified]

lemma feed_line [simp]:
  "plain s \<Longrightarrow> feed (s @ [line_feed]) \<lparr>sc_rows = rows, sc_row = [], sc_col = 0\<rparr> =
     \<lparr>sc_rows = rows @ [s], sc_row = [], sc_col = 0\<rparr>"
  by (simp add: feed_text put_char_def)

lemma displays_step: "displays out c a \<Longrightarrow> plain_op op \<Longrightarrow> displays out (apply_op op c) (abs_op out op a)"
  by (cases a; cases op)
    (auto simp: displays_def printLine_def drawProgress_def clearProgressLine_def put_def Let_def show_writes_append
      feed_text_end)

lemma displays_fold:
  "displays out c a \<Longrightarrow> list_all plain_op ops \<Longrightarrow> displays out (fold apply_op ops c) (fold (abs_op out) ops a)"
  by (induction ops arbitrary: c a) (simp_all add: displays_step)

text \<open>C27: Messages and the live line never damage each other on the screen. After any sequence of printed lines and
  redrawn or cleared live lines, with either stream redirected or not, the finished rows of the terminal are exactly
  the printed lines in their order, the row below them shows exactly the live line, and the cursor stands at its end.\<close>

theorem console_refines_screen:
  assumes "list_all plain_op ops"
  shows "let (rows, live) = fold (abs_op out) ops ([], [])
    in show_writes out (co_writes (apply_ops ops)) blank = \<lparr>sc_rows = rows, sc_row = live, sc_col = length live\<rparr>"
proof -
  have "displays out console_new ([], [])" by (simp add: displays_def console_new_def blank_def)
  from displays_fold [OF this assms] show ?thesis by (simp add: displays_def apply_ops_def split_beta)
qed

theorem console_refines_screen_witness:
  "show_writes False (co_writes (apply_ops [Draw ''10%'', Line Stdout ''copy a'', Line Stderr ''warning'', Draw ''20%''])) blank =
     \<lparr>sc_rows = [''warning''], sc_row = ''20%'', sc_col = 3\<rparr>"
  using console_refines_screen [of "[Draw ''10%'', Line Stdout ''copy a'', Line Stderr ''warning'', Draw ''20%'']" False]
  by (simp add: plain_def)

subsection \<open>How a stream is cut does not matter\<close>

lemma index_byte_extend: "index_byte x s = Some i \<Longrightarrow> index_byte x (s @ v) = Some i \<and> i < length s"
  by (induction s arbitrary: i) (auto split: if_splits)

lemma lw_loop_append: "lw_loop (s @ v) c = (case lw_loop s c of (rest, c) \<Rightarrow> lw_loop (rest @ v) c)"
proof (induction s c rule: lw_loop.induct)
  case (1 buf c)
  show ?case
  proof (cases "index_byte line_feed buf")
    case None
    then show ?thesis by (simp add: lw_loop.simps [of buf])
  next
    case (Some i)
    note e = index_byte_extend [OF Some, of v]
    show ?thesis
      using 1 [OF Some] Some e by (simp add: lw_loop.simps [of buf] lw_loop.simps [of "buf @ v"])
  qed
qed

lemma lw_loop_split:
  "lw_loop buf c =
     (last (split_on line_feed buf),
      fold (\<lambda>l. printLine Stderr (trim_right_char carriage_return l)) (butlast (split_on line_feed buf)) c)"
proof (induction buf c rule: lw_loop.induct)
  case (1 buf c)
  show ?case
  proof (cases "index_byte line_feed buf")
    case None
    then show ?thesis
      by (simp add: lw_loop.simps [of buf] split_on_single [OF index_byte_None [THEN iffD1]])
  next
    case (Some i)
    note b = index_byte_Some [OF Some]
    then have "buf = take i buf @ line_feed # drop (Suc i) buf" by (metis id_take_nth_drop)
    then have "split_on line_feed buf = take i buf # split_on line_feed (drop (Suc i) buf)"
      using b by (metis split_on_Cons_sep)
    then show ?thesis using 1 [OF Some] Some by (simp add: lw_loop.simps [of buf])
  qed
qed

text \<open>How ssh's diagnostics are cut into writes does not matter. Whatever the pieces, exactly the complete lines
  of the whole stream are printed, each once, in order and without its trailing carriage returns, and the
  unfinished last line is what stays in the buffer.\<close>

lemma line_writer_ignores_cuts:
  "fold lineWriter_write chunks ([], c) =
     (let lines = split_on line_feed (concat chunks)
      in (last lines, fold (\<lambda>l. printLine Stderr (trim_right_char carriage_return l)) (butlast lines) c))"
proof -
  have "fold lineWriter_write chunks (buf, c) = lw_loop (buf @ concat chunks) c"
    if "index_byte line_feed buf = None" for buf c
    using that
  proof (induction chunks arbitrary: buf c)
    case Nil
    then show ?case by (simp add: lw_loop.simps [of buf])
  next
    case (Cons p chunks)
    obtain rest c' where l: "lw_loop (buf @ p) c = (rest, c')" by (cases "lw_loop (buf @ p) c")
    have "rest = last (split_on line_feed (buf @ p))" using l by (simp add: lw_loop_split)
    then have "line_feed \<notin> set rest" using split_on_no_sep last_in_set split_on_nonempty by metis
    then have "index_byte line_feed rest = None" by (simp add: index_byte_None)
    from Cons.IH [OF this, of c'] show ?case
      using l lw_loop_append [of "buf @ p" "concat chunks" c] by (simp add: lineWriter_write_def)
  qed
  from this [of "[]" c] show ?thesis by (simp add: lw_loop_split Let_def)
qed

end
