(* ===== verification/Progress.thy ===== *)
theory Progress
  imports Autoscale Console "HOL-Library.Monad_Syntax"
begin

text \<open>
  What the live line and the summary say: internal/engine/progress.go and cmd/basicopy/run.go. An index
  outside a string is a panic in Go; a text that may panic is an option, with \<open>None\<close> for the panic.
\<close>

subsection \<open>Numbers\<close>

text \<open>\<open>%.1f\<close> of a float: the exact value rounded to a tenth, halves to even; \<open>%02d\<close>.\<close>

fun fmt_fixed1 :: "f64 \<Rightarrow> string" where
  "fmt_fixed1 NaN = ''NaN''"
| "fmt_fixed1 PosInf = ''+Inf''"
| "fmt_fixed1 NegInf = ''-Inf''"
| "fmt_fixed1 (Fin q) =
     (let t = round_half_even (\<bar>q\<bar> * 10) in
      (if q < 0 then ''-'' else []) @ show_int (t div 10) @ ''.'' @ show_int (t mod 10))"

definition pad2 :: "int \<Rightarrow> string" where
  "pad2 n = (if 0 \<le> n \<and> n < 10 then CHR ''0'' # show_int n else show_int n)"

text \<open>The loop of \<open>fmtBytes\<close>: the unit's size and index.\<close>

function unit_loop :: "int \<Rightarrow> int \<Rightarrow> nat \<Rightarrow> int \<times> nat" where
  "unit_loop x dv e = (if x \<ge> 1024 then unit_loop (x div 1024) (wrap64 (dv * 1024)) (Suc e) else (dv, e))"
  by pat_completeness auto
termination by (relation "measure (\<lambda>(x, dv, e). nat x)") auto

declare unit_loop.simps [simp del]

definition unit_name :: "nat \<Rightarrow> string option" where
  "unit_name e = (if e < 6 then Some [''KMGTPE'' ! e] else None)"

definition scaled :: "int \<Rightarrow> string option" where
  "scaled n =
     (let (dv, e) = unit_loop (n div 1024) 1024 0 in
      do { u \<leftarrow> unit_name e; Some (fmt_fixed1 (f_div (f_of_int n) (f_of_int dv)) @ '' '' @ u @ ''iB'') })"

definition fmtBytes :: "int \<Rightarrow> string option" where
  "fmtBytes n =
     (let n = (if n < 0 then 0 else n) in if n < 1024 then Some (show_int n @ '' B'') else scaled n)"

definition humanBytes :: "int \<Rightarrow> string option" where
  "humanBytes n = (if n < 1024 then Some (show_int n @ '' B'') else scaled n)"

subsection \<open>Durations\<close>

text \<open>\<open>Duration.Round\<close> of a duration that is not negative.\<close>

definition dur_round :: "int \<Rightarrow> int \<Rightarrow> int" where
  "dur_round d m =
     (let r = d mod m in
      if r + r < m then d - r
      else (let d1 = wrap64 (d + m - r) in if d1 > d then d1 else max_int64))"

abbreviation "second \<equiv> (10 :: int) ^ 9"
abbreviation "minute \<equiv> 60 * second"
abbreviation "hour \<equiv> 60 * minute"

definition hms :: "int \<Rightarrow> int \<times> int \<times> int" where
  "hms d =
     (let d = (if d < second then second else d); d = dur_round d second;
          h = d div hour; d = d - h * hour; m = d div minute; d = d - m * minute
      in (h, m, d div second))"

definition fmtDuration :: "int \<Rightarrow> string" where
  "fmtDuration d =
     (let (h, m, s) = hms d in
      if h > 0 then show_int h @ ''h'' @ pad2 m @ ''m'' @ pad2 s @ ''s''
      else if m > 0 then show_int m @ ''m'' @ pad2 s @ ''s''
      else show_int s @ ''s'')"

definition fmtETA :: "int \<Rightarrow> f64 \<Rightarrow> string" where
  "fmtETA remaining rate =
     (if remaining \<le> 0 then ''0s''
      else if f_le rate (Fin 0) \<or> rate = NaN \<or> rate = PosInf \<or> rate = NegInf then ''--''
      else fmtDuration (f_to_int64 (f_mul (f_div (f_of_int remaining) rate) (Fin (10 ^ 9)))))"

subsection \<open>The live line\<close>

definition averageRate :: "int option \<Rightarrow> int \<Rightarrow> int \<Rightarrow> f64" where
  "averageRate startedAt mv now =
     (case startedAt of
        None \<Rightarrow> Fin 0
      | Some st \<Rightarrow>
          if mv \<le> 0 then Fin 0
          else (let elapsed = dur_seconds (time_sub now st) in
                if f_less (Fin 0) elapsed then f_div (f_of_int mv) elapsed else Fin 0))"

definition percent :: "int \<Rightarrow> int \<Rightarrow> f64" where
  "percent part whole = f_div (f_mul (Fin 100) (f_of_int part)) (f_of_int whole)"

definition at_most_100 :: "f64 \<Rightarrow> f64" where
  "at_most_100 pct = (if f_less (Fin 100) pct then Fin 100 else pct)"

text \<open>The bytes shown never exceed the total.\<close>

definition shown_bytes :: "'w runner \<Rightarrow> int \<Rightarrow> int" where
  "shown_bytes r mv = (if rn_total_bytes r > 0 \<and> mv > rn_total_bytes r then rn_total_bytes r else mv)"

definition metadata_phase :: "'w runner \<Rightarrow> bool \<Rightarrow> int \<Rightarrow> bool" where
  "metadata_phase r scanning mv \<longleftrightarrow>
     \<not> scanning \<and> rn_meta_total r > 0 \<and> rn_meta_done r < rn_meta_total r \<and>
     (rn_total_files r = 0 \<or> rn_files r \<ge> rn_total_files r) \<and>
     (rn_total_bytes r = 0 \<or> shown_bytes r mv \<ge> rn_total_bytes r)"

definition progressLine :: "'w runner \<Rightarrow> bool \<Rightarrow> int option \<Rightarrow> int \<Rightarrow> f64 \<Rightarrow> int \<Rightarrow> string option" where
  "progressLine r scanning startedAt mv currentRate now =
     (let files = show_int (rn_files r); totalFiles = show_int (rn_total_files r); skipped = show_int (rn_skipped r);
          dm = shown_bytes r mv; avgRate = averageRate startedAt mv now;
          more = (if scanning then ''+'' else []); tail = (if scanning then '', scanning'' else [])
      in do {
        cur \<leftarrow> fmtBytes (f_to_int64 currentRate);
        avg \<leftarrow> fmtBytes (f_to_int64 avgRate);
        let speeds = avg @ ''/s avg, '' @ cur @ ''/s current'';
        if metadata_phase r scanning mv
        then Some (''metadata '' @ show_int (rn_meta_done r) @ ''/'' @ show_int (rn_meta_total r) @ '' dirs ('' @
               fmt_fixed1 (percent (rn_meta_done r) (rn_meta_total r)) @ ''%)'')
        else if rn_total_bytes r > 0
        then do {
          shown \<leftarrow> fmtBytes dm;
          total \<leftarrow> fmtBytes (rn_total_bytes r);
          let rest = shown @ ''/'' @ total @ more @ '' ('' @ fmt_fixed1 (at_most_100 (percent dm (rn_total_bytes r))) @
            ''%), '' @ speeds @ '', ETA '' @ fmtETA (wrap64 (rn_total_bytes r - dm)) avgRate @ more @ tail;
          Some ((if rn_total_files r > 0
                 then files @ ''/'' @ totalFiles @ more @ '' ('' @ skipped @ '' skipped) files, '' else []) @ rest) }
        else do {
          shown \<leftarrow> fmtBytes dm;
          if rn_total_files r > 0
          then Some (files @ ''/'' @ totalFiles @ more @ '' ('' @ skipped @ '' skipped) files, '' @ shown @ '' ('' @
                 fmt_fixed1 (at_most_100 (percent (rn_files r) (rn_total_files r))) @ ''%), '' @ speeds @ '', ETA 0s'' @ more @ tail)
          else Some (files @ '' ('' @ skipped @ '' skipped) files, '' @ shown @ '', '' @ speeds @ tail) } })"

text \<open>One tick of \<open>runProgress\<close>: the smoothed rate, and the line drawn.\<close>

record progress_state =
  pg_rate :: f64
  pg_bytes :: int
  pg_time :: int

definition progressEnabled :: "options \<Rightarrow> bool \<Rightarrow> bool" where
  "progressEnabled o' tty =
     (if op_quiet o' \<or> op_json o' \<or> op_dry_run o' then False
      else if op_progress o' = ''never'' then False
      else if op_progress o' = ''always'' then True
      else tty)"

definition next_rate :: "int \<Rightarrow> int \<Rightarrow> progress_state \<Rightarrow> f64" where
  "next_rate nb now s =
     (let dt = dur_seconds (time_sub now (pg_time s)) in
      if f_less (Fin 0) dt
      then f_add (f_div (f_mul (f_lit (4 / 10)) (f_of_int (wrap64 (nb - pg_bytes s)))) dt) (f_mul (f_lit (6 / 10)) (pg_rate s))
      else pg_rate s)"

definition progress_tick ::
  "'w runner \<Rightarrow> bool \<Rightarrow> int option \<Rightarrow> int \<Rightarrow> progress_state \<times> console \<Rightarrow> (progress_state \<times> console) option" where
  "progress_tick r scanning startedAt now s =
     (let (s, c) = s; nb = rn_moved r; rate = next_rate nb now s in
      do {
        line \<leftarrow> progressLine r scanning startedAt nb rate now;
        Some (\<lparr>pg_rate = rate, pg_bytes = nb, pg_time = now\<rparr>, drawProgress line c) })"

subsection \<open>Byte counts\<close>

lemma le_int_div: "0 < d \<Longrightarrow> k \<le> n div d \<longleftrightarrow> k * d \<le> (n :: int)"
proof
  assume d: "0 < d" and "k \<le> n div d"
  then have "k * d \<le> n div d * d" by simp
  also have "\<dots> \<le> n" using d by (metis minus_mod_eq_div_mult pos_mod_sign diff_le_eq le_add_same_cancel1)
  finally show "k * d \<le> n" .
next
  assume "0 < d" and "k * d \<le> n"
  then show "k \<le> n div d" using zdiv_mono1 [of "k * d" n d] by simp
qed

lemma unit_loop_scale:
  assumes "n < 2 ^ 63"
  shows "1024 ^ Suc e \<le> n \<Longrightarrow>
    \<exists>k. unit_loop (n div 1024 ^ Suc e) (1024 ^ Suc e) e = (1024 ^ Suc k, k) \<and> 1024 ^ Suc k \<le> n \<and> n < 1024 ^ Suc (Suc k)"
proof (induction "nat (n div 1024 ^ Suc e)" arbitrary: e rule: less_induct)
  case less
  let ?d = "1024 ^ Suc e :: int"
  have d: "0 < ?d" by simp
  show ?case
  proof (cases "n div ?d \<ge> 1024")
    case True
    then have le: "1024 ^ Suc (Suc e) \<le> n"
      unfolding le_int_div [OF d] by (simp add: mult.commute)
    have "wrap64 (1024 ^ Suc (Suc e)) = 1024 ^ Suc (Suc e)"
      by (rule wrap64_id) (use le assms zero_le_power [of "1024 :: int" "Suc (Suc e)"] in linarith)+
    then have w: "wrap64 (?d * 1024) = 1024 ^ Suc (Suc e)" by (simp add: mult.commute)
    have dd: "n div ?d div 1024 = n div 1024 ^ Suc (Suc e)"
      using zdiv_zmult2_eq [of 1024 n ?d] by (simp add: mult.commute)
    have "nat (n div 1024 ^ Suc (Suc e)) < nat (n div ?d)"
      unfolding dd [symmetric] using True by simp
    from less(1) [OF this le] show ?thesis
      using True by (simp only: unit_loop.simps [of "n div ?d"] if_True w dd)
  next
    case False
    then have "n < 1024 ^ Suc (Suc e)"
      unfolding le_int_div [OF d] by (simp add: mult.commute)
    then show ?thesis using False less.prems by (intro exI [of _ e]) (subst unit_loop.simps, simp)
  qed
qed

lemma unit_index:
  assumes "1024 ^ Suc k \<le> (n :: int)" and "n < 2 ^ 63"
  shows "k < 6"
proof (rule ccontr)
  assume "\<not> k < 6"
  then have "(1024 :: int) ^ Suc 6 \<le> 1024 ^ Suc k" by (intro power_increasing) simp_all
  then show False using assms by simp
qed

text \<open>The unit: no index is out of the string, the divisor does not overflow.\<close>

lemma scaled_unit:
  assumes "1024 \<le> n" and "n < 2 ^ 63"
  shows "\<exists>k < 6. scaled n = Some (fmt_fixed1 (f_div (f_of_int n) (f_of_int (1024 ^ Suc k))) @ '' '' @ [''KMGTPE'' ! k] @ ''iB'') \<and>
    1024 ^ Suc k \<le> n \<and> n < 1024 ^ Suc (Suc k)"
proof -
  obtain k where k: "unit_loop (n div 1024) 1024 0 = (1024 ^ Suc k, k)" "1024 ^ Suc k \<le> n" "n < 1024 ^ Suc (Suc k)"
    using unit_loop_scale [OF assms(2), of 0] assms(1) by auto
  have "k < 6" using unit_index [OF k(2) assms(2)] .
  then show ?thesis using k by (intro exI [of _ k]) (simp add: scaled_def unit_name_def)
qed

lemma fmtBytes_total: "n < 2 ^ 63 \<Longrightarrow> \<exists>s. fmtBytes n = Some s"
  using scaled_unit [of n] by (auto simp: fmtBytes_def Let_def)

lemma humanBytes_eq: "0 \<le> n \<Longrightarrow> humanBytes n = fmtBytes n"
  by (simp add: humanBytes_def fmtBytes_def)

text \<open>A float of 53 bits is scaled exactly.\<close>

lemma scale_exact:
  assumes "0 \<le> m" and "m < 2 ^ 53" and "j \<le> 11" and "k < 6" and "f_of_int n = Fin (of_int m * 2 ^ j)"
  shows "f_div (f_of_int n) (f_of_int (1024 ^ Suc k)) = Fin (of_int (m * 2 ^ j) / 1024 ^ Suc k)"
proof -
  have p: "(1024 :: rat) ^ Suc k = 2 ^ (10 * Suc k)" by (simp add: power_mult power_add)
  have "pow2 (int j) / pow2 (int (10 * Suc k)) = pow2 (int j - int (10 * Suc k))"
    using pow2_add [of "int j - int (10 * Suc k)" "int (10 * Suc k)"] pow2_pos [of "int (10 * Suc k)"]
    by (metis diff_add_cancel less_irrefl nonzero_mult_div_cancel_right)
  then have u: "of_int (m * 2 ^ j) / 1024 ^ Suc k = of_int m * pow2 (int j - int (10 * Suc k))"
    unfolding p pow2_of_nat by (metis of_int_mult of_int_power of_int_numeral times_divide_eq_right)
  have "fround (1024 ^ Suc k) = Fin (1024 ^ Suc k)"
    by (rule fround_dyadic [of _ 1 "int (10 * Suc k)"]) (use assms(4) in \<open>simp_all only: p pow2_of_nat, simp_all\<close>)
  moreover have "fround (of_int (m * 2 ^ j) / 1024 ^ Suc k) = Fin (of_int (m * 2 ^ j) / 1024 ^ Suc k)"
    by (rule fround_dyadic [OF u]) (use assms in simp_all)
  ultimately show ?thesis unfolding assms(5) by (simp add: f_of_int_def)
qed

text \<open>The count as a float: exact below \<open>2 ^ 53\<close>, at most 512 off above.\<close>

lemma count_as_float:
  assumes "0 \<le> n" and "n < 2 ^ 63"
  shows "\<exists>m j. f_of_int n = Fin (of_int m * 2 ^ j) \<and> 0 \<le> m \<and> m < 2 ^ 53 \<and> j \<le> 11 \<and>
    \<bar>m * 2 ^ j - n\<bar> \<le> (if n < 2 ^ 53 then 0 else 512)"
proof (cases "n < 2 ^ 53")
  case True
  then show ?thesis using assms fround_of_int [of n] by (intro exI [of _ n] exI [of _ 0]) (simp add: f_of_int_def)
qed (use fround_of_int_near [of n] assms in \<open>simp add: f_of_int_def\<close>)

lemma fmt_fixed1_nonneg:
  "0 \<le> q \<Longrightarrow> fmt_fixed1 (Fin q) =
     show_int (round_half_even (q * 10) div 10) @ ''.'' @ show_int (round_half_even (q * 10) mod 10)"
  by (simp add: Let_def abs_of_nonneg)

lemma tenths_within:
  assumes "0 < u"
  shows "2 * \<bar>round_half_even (of_int v / of_int u * 10) * u - 10 * v\<bar> \<le> u"
proof -
  let ?q = "of_int v / of_int u * 10 :: rat"
  let ?t = "round_half_even ?q"
  have "\<bar>of_int ?t - ?q\<bar> * of_int u \<le> 1 / 2 * of_int u"
    by (rule mult_right_mono [OF round_half_even_within]) (use assms in simp)
  also have "\<bar>of_int ?t - ?q\<bar> * of_int u = \<bar>(of_int ?t - ?q) * of_int u\<bar>" using assms by (simp add: abs_mult)
  also have "(of_int ?t - ?q) * of_int u = of_int (?t * u - 10 * v)" using assms by (simp add: left_diff_distrib)
  finally have "of_int (2 * \<bar>?t * u - 10 * v\<bar>) \<le> (of_int u :: rat)" by simp
  then show ?thesis by (simp only: of_int_le_iff)
qed

lemma near_count:
  fixes a v n u :: int
  assumes "2 * \<bar>a - 10 * v\<bar> \<le> u" and "\<bar>v - n\<bar> \<le> (if n < 2 ^ 53 then 0 else 512)"
  shows "2 * \<bar>a - 10 * n\<bar> \<le> u + (if n < 2 ^ 53 then 0 else 10240)"
proof (cases "n < 2 ^ 53")
  case True
  then show ?thesis using assms by simp
next
  case False
  then have "\<bar>v - n\<bar> \<le> 512" using assms(2) by simp
  then have "2 * \<bar>a - 10 * n\<bar> \<le> u + 10240" using assms(1) by (simp add: abs_if split: if_splits)
  then show ?thesis using False by simp
qed

lemma scaled_text:
  assumes "1024 \<le> n" and "n < 2 ^ 63"
  shows "\<exists>k < 6. \<exists>t.
    fmtBytes n = Some (show_int (t div 10) @ ''.'' @ show_int (t mod 10) @ '' '' @ [''KMGTPE'' ! k] @ ''iB'') \<and>
    1024 ^ Suc k \<le> n \<and> n < 1024 ^ Suc (Suc k) \<and>
    2 * \<bar>t * 1024 ^ Suc k - 10 * n\<bar> \<le> 1024 ^ Suc k + (if n < 2 ^ 53 then 0 else 10240)"
proof -
  obtain k where k: "k < 6" "1024 ^ Suc k \<le> n" "n < 1024 ^ Suc (Suc k)"
    "scaled n = Some (fmt_fixed1 (f_div (f_of_int n) (f_of_int (1024 ^ Suc k))) @ '' '' @ [''KMGTPE'' ! k] @ ''iB'')"
    using scaled_unit [OF assms] by blast
  obtain m j where m: "f_of_int n = Fin (of_int m * 2 ^ j)" "0 \<le> m" "m < 2 ^ 53" "j \<le> 11"
    "\<bar>m * 2 ^ j - n\<bar> \<le> (if n < 2 ^ 53 then 0 else 512)"
    using count_as_float [of n] assms by auto
  let ?u = "1024 ^ Suc k :: int"
  let ?t = "round_half_even (of_int (m * 2 ^ j) / of_int ?u * 10)"
  have u: "(1024 :: rat) ^ Suc k = of_int ?u" by simp
  have "0 \<le> (of_int (m * 2 ^ j) / of_int ?u :: rat)" using m(2) by simp
  then have "scaled n = Some (show_int (?t div 10) @ ''.'' @ show_int (?t mod 10) @ '' '' @ [''KMGTPE'' ! k] @ ''iB'')"
    unfolding k(4) scale_exact [OF m(2,3,4) k(1) m(1)] u by (simp only: fmt_fixed1_nonneg append_assoc)
  then have "fmtBytes n = Some (show_int (?t div 10) @ ''.'' @ show_int (?t mod 10) @ '' '' @ [''KMGTPE'' ! k] @ ''iB'')"
    using assms(1) by (simp add: fmtBytes_def)
  moreover have "2 * \<bar>?t * ?u - 10 * (m * 2 ^ j)\<bar> \<le> ?u" by (rule tenths_within) simp
  then have "2 * \<bar>?t * ?u - 10 * n\<bar> \<le> ?u + (if n < 2 ^ 53 then 0 else 10240)" by (rule near_count [OF _ m(5)])
  ultimately show ?thesis using k(1,2,3) by blast
qed

text \<open>C28: Byte counts are shown truthfully, whatever the count. A count below one KiB is written out (a negative one as
  zero); from one KiB on, up to the largest \<open>int64\<close>, the text is a number with one decimal and the largest binary
  unit that fits, so the unit's letter is always found (an index past the six letters is a panic) and its size never
  overflows. The tenths shown are within half a tenth of the exact quotient, plus, from \<open>2 ^ 53\<close> bytes on, the 512
  bytes at most by which the conversion to a float rounds the count.\<close>

theorem byte_text_accurate:
  assumes "n < 2 ^ 63"
  shows "if n < 1024 then fmtBytes n = Some (show_int (max 0 n) @ '' B'')
    else \<exists>k < 6. \<exists>t.
      fmtBytes n = Some (show_int (t div 10) @ ''.'' @ show_int (t mod 10) @ '' '' @ [''KMGTPE'' ! k] @ ''iB'') \<and>
      1024 ^ Suc k \<le> n \<and> n < 1024 ^ Suc (Suc k) \<and>
      2 * \<bar>t * 1024 ^ Suc k - 10 * n\<bar> \<le> 1024 ^ Suc k + (if n < 2 ^ 53 then 0 else 10240)"
proof (cases "n < 1024")
  case True
  then show ?thesis by (simp add: fmtBytes_def max_def)
next
  case False
  then show ?thesis using scaled_text [of n] assms by simp
qed

theorem byte_text_accurate_witness:
  "\<exists>k < 6. \<exists>t. fmtBytes (2 ^ 62 + 2 ^ 60) =
      Some (show_int (t div 10) @ ''.'' @ show_int (t mod 10) @ '' '' @ [''KMGTPE'' ! k] @ ''iB'') \<and>
    1024 ^ Suc k \<le> (2 ^ 62 + 2 ^ 60 :: int) \<and> (2 ^ 62 + 2 ^ 60 :: int) < 1024 ^ Suc (Suc k) \<and>
    2 * \<bar>t * 1024 ^ Suc k - 10 * (2 ^ 62 + 2 ^ 60)\<bar> \<le> 1024 ^ Suc k + 10240"
  using byte_text_accurate [of "2 ^ 62 + 2 ^ 60"] by (simp del: power_Suc)

subsection \<open>Durations\<close>

lemma dur_round_second:
  assumes "second \<le> d" and "d < 2 ^ 63 - second"
  shows "\<exists>k. dur_round d second = k * second \<and> 0 \<le> k \<and> 2 * \<bar>k * second - d\<bar> \<le> second"
proof -
  obtain q r where r: "0 \<le> r" "r < second" "d = q * second + r" and m: "d mod second = r"
    by (metis div_mult_mod_eq pos_mod_bound pos_mod_sign zero_less_numeral zero_less_power)
  have q: "0 \<le> q" using assms(1) r by simp
  show ?thesis
  proof (cases "r + r < second")
    case True
    then show ?thesis using r q m by (intro exI [of _ q]) (simp add: dur_round_def)
  next
    case False
    have "wrap64 (d + second - r) = d + second - r" using assms r by (intro wrap64_id) simp_all
    then have "dur_round d second = d + second - r" using False r m by (simp add: dur_round_def Let_def)
    also have "\<dots> = (q + 1) * second" using r(3) by (simp add: algebra_simps)
    finally show ?thesis using False r q by (intro exI [of _ "q + 1"]) simp
  qed
qed

lemma hms_of_seconds:
  assumes "dur_round (max d second) second = k * second" and "0 \<le> k"
  shows "hms d = (k div 3600, k mod 3600 div 60, k mod 60)"
proof -
  have d: "(if d < second then second else d) = max d second" by simp
  have h: "k * second div hour = k div 3600" using div_mult_mult2 [of second k 3600] by simp
  have r: "k * second - k div 3600 * hour = k mod 3600 * second"
    by simp (use div_mult_mod_eq [of k 3600] in linarith)
  have m: "k mod 3600 * second div minute = k mod 3600 div 60" using div_mult_mult2 [of second "k mod 3600" 60] by simp
  have "k mod 3600 * second - k mod 3600 div 60 * minute = k mod 3600 mod 60 * second"
    by simp (use div_mult_mod_eq [of "k mod 3600" 60] in linarith)
  moreover have "k mod 3600 mod 60 = k mod 60" by (rule mod_mod_cancel) simp
  ultimately have s: "k mod 3600 * second - k mod 3600 div 60 * minute = k mod 60 * second" by simp
  show ?thesis unfolding hms_def Let_def d assms(1) h r m s by simp
qed

text \<open>C1: The remaining time is shown truthfully. Hours, minutes and seconds of a duration are in their ranges, and together
  they are the duration to the nearest second; a duration below a second counts as one.\<close>

theorem duration_text_accurate:
  assumes "d < 2 ^ 63 - second"
  shows "case hms d of (h, m, s) \<Rightarrow> 0 \<le> h \<and> 0 \<le> m \<and> m < 60 \<and> 0 \<le> s \<and> s < 60 \<and>
    2 * \<bar>(h * 3600 + m * 60 + s) * second - max d second\<bar> \<le> second"
proof -
  obtain k where k: "dur_round (max d second) second = k * second" "0 \<le> k" "2 * \<bar>k * second - max d second\<bar> \<le> second"
    using dur_round_second [of "max d second"] assms by auto
  have "k mod 3600 mod 60 = k mod 60" by (rule mod_mod_cancel) simp
  then have e: "k div 3600 * 3600 + k mod 3600 div 60 * 60 + k mod 60 = k"
    by (metis add.assoc div_mult_mod_eq)
  have "0 \<le> k div 3600 \<and> 0 \<le> k mod 3600 div 60 \<and> k mod 3600 div 60 < 60 \<and> 0 \<le> k mod 60 \<and> k mod 60 < 60"
    using k(2) le_int_div [of 60 60 "k mod 3600"] pos_mod_bound [of 3600 k]
    by (simp add: pos_imp_zdiv_nonneg_iff not_le)
  then show ?thesis using k(3) unfolding hms_of_seconds [OF k(1,2)] prod.case e by blast
qed

theorem duration_text_accurate_witness:
  "case hms (3725 * second + 400) of (h, m, s) \<Rightarrow> m < 60 \<and> s < 60 \<and>
    2 * \<bar>(h * 3600 + m * 60 + s) * second - (3725 * second + 400)\<bar> \<le> second"
  using duration_text_accurate [of "3725 * second + 400"] by (simp split: prod.splits)

text \<open>An estimate beyond the range of a duration (some 292 years) shows as one second.\<close>

lemma eta_overflow: "fmtETA (10 ^ 12) (Fin 1) = ''1s''"
proof -
  have "fround (10 ^ 12) = Fin (10 ^ 12)" using fround_of_int [of "10 ^ 12"] by simp
  moreover have "fround (10 ^ 21) = Fin (10 ^ 21)"
    by (rule fround_dyadic [of _ "5 ^ 21" 21]) (simp_all add: pow2_def)
  ultimately have "f_mul (f_div (f_of_int (10 ^ 12)) (Fin 1)) (Fin (10 ^ 9)) = Fin (10 ^ 21)"
    by (simp add: f_of_int_def)
  moreover have "fmtDuration (f_to_int64 (Fin (10 ^ 21))) = ''1s''"
    by (simp add: fmtDuration_def hms_def dur_round_def show_int_def show_nat_def Let_def) code_simp
  ultimately show ?thesis by (simp add: fmtETA_def f_le_def f_eq_def)
qed

subsection \<open>The live line can be drawn\<close>

lemma plain_append [simp]: "plain (s @ v) \<longleftrightarrow> plain s \<and> plain v"
  by (simp add: plain_def)

lemma plain_Cons [simp]:
  "plain (x # s) \<longleftrightarrow> x \<noteq> carriage_return \<and> x \<noteq> line_feed \<and> x \<noteq> escape_char \<and> plain s"
  by (simp add: plain_def)

lemma show_int_plain [simp]: "plain (show_int i)"
proof -
  have "x \<noteq> carriage_return \<and> x \<noteq> line_feed \<and> x \<noteq> escape_char" if "x \<in> set (show_nat n)" for x n
    using show_nat_digit [OF that] by auto
  then show ?thesis by (auto simp: show_int_def plain_def list_all_iff)
qed

lemma fmt_fixed1_plain [simp]: "plain (fmt_fixed1 x)"
  by (cases x) (simp_all add: Let_def)

lemma unit_name_plain: "unit_name e = Some u \<Longrightarrow> plain u"
proof -
  assume "unit_name e = Some u"
  moreover have "\<forall>e \<in> set [0..<6]. plain [''KMGTPE'' ! e]" by (simp add: upt_rec)
  ultimately show ?thesis by (auto simp: unit_name_def split: if_splits)
qed

lemma fmtBytes_plain: "fmtBytes n = Some s \<Longrightarrow> plain s"
  by (auto simp: fmtBytes_def scaled_def Let_def unit_name_plain bind_eq_Some_conv split: if_splits prod.splits)

lemma fmtETA_plain [simp]: "plain (fmtETA n q)"
  by (auto simp: fmtETA_def fmtDuration_def pad2_def Let_def split: prod.split)

lemma f_to_int64_range: "f_to_int64 x < 2 ^ 63"
  by (cases x) (auto simp: Let_def)

text \<open>The live line can always be drawn. Whatever the counters, the rate and the clock, building the line indexes
  nothing out of range, and the line holds no control character, as the redrawing relies on.\<close>

lemma progress_line_drawable:
  assumes "mv < 2 ^ 63" and "rn_total_bytes r < 2 ^ 63"
  shows "\<exists>s. progressLine r scanning startedAt mv currentRate now = Some s \<and> plain s"
proof -
  have "shown_bytes r mv < 2 ^ 63" using assms by (simp add: shown_bytes_def)
  then obtain cur avg shown total where t:
    "fmtBytes (f_to_int64 currentRate) = Some cur" "fmtBytes (f_to_int64 (averageRate startedAt mv now)) = Some avg"
    "fmtBytes (shown_bytes r mv) = Some shown" "fmtBytes (rn_total_bytes r) = Some total"
    using fmtBytes_total f_to_int64_range assms(2) by metis
  then show ?thesis using fmtBytes_plain [OF t(1)] fmtBytes_plain [OF t(2)] fmtBytes_plain [OF t(3)] fmtBytes_plain [OF t(4)]
    by (simp add: progressLine_def Let_def)
qed

theorem progress_line_drawable_witness:
  "\<exists>s. progressLine ((new_runner ())\<lparr>rn_total_files := 3, rn_total_bytes := 4096\<rparr>) True (Some 0) 1024 (Fin 512) second = Some s \<and> plain s"
  by (rule progress_line_drawable) (simp_all add: new_runner_def)

end
