(* ===== verification/Command.thy ===== *)
theory Command
  imports Progress EngineSpec Location
begin

text \<open>
  The command around a run: flags and exit status (cmd/basicopy/main.go), the summary it prints
  (cmd/basicopy/run.go), and the start of \<open>Run\<close> in internal/engine/engine.go, which resolves the target and
  dials every source. The command-line library, and \<open>Dial\<close> of a host, are parameters; what \<open>encoding/json\<close>
  prints for the flat summary is written out.
\<close>

subsection \<open>Resolving the target and dialing the sources\<close>

definition resolveTarget ::
  "'f \<Rightarrow> (nat \<Rightarrow> location \<Rightarrow> goerr + 'f) \<Rightarrow> options \<Rightarrow> 'f registry \<Rightarrow> (goerr + 'f \<times> string \<times> string) \<times> 'f registry" where
  "resolveTarget lfs dial o' reg =
     (let arg = op_target_dir o'; arg = (if arg = [] then op_target_file o' else arg) in
      case resolve lfs dial arg reg of
        (Inl e, reg) \<Rightarrow> (Inl e, reg)
      | (Inr (dfs, path), reg) \<Rightarrow> (Inr (if op_target_dir o' \<noteq> [] then (dfs, path, []) else (dfs, [], path)), reg))"

fun dial_all ::
  "'f \<Rightarrow> (nat \<Rightarrow> location \<Rightarrow> goerr + 'f) \<Rightarrow> string list \<Rightarrow> 'f registry \<Rightarrow> goerr option \<times> 'f registry" where
  "dial_all lfs dial [] reg = (None, reg)"
| "dial_all lfs dial (a # as) reg =
     (case resolve lfs dial a reg of
        (Inl e, reg) \<Rightarrow> (Some e, reg)
      | (Inr x, reg) \<Rightarrow> dial_all lfs dial as reg)"

text \<open>What a run takes from outside: the local filesystem, \<open>Dial\<close>, and the parts of a context that are fixed.\<close>

record ('w, 'd) surroundings =
  su_local :: "'w fs"
  su_dial :: "nat \<Rightarrow> location \<Rightarrow> goerr + 'w fs"
  su_env :: "'w env"
  su_hash :: "bytes \<Rightarrow> 'd"
  su_eval_symlinks :: "'w \<Rightarrow> string \<Rightarrow> goerr + string"
  su_interrupt :: "nat \<Rightarrow> bool"

definition run_ctx ::
  "('w, 'd) surroundings \<Rightarrow> options \<Rightarrow> 'w fs \<times> string \<times> string \<Rightarrow> 'w fs registry \<Rightarrow> ('w, 'd) ctx" where
  "run_ctx su o' target reg =
     (case target of (dfs, dir, file') \<Rightarrow>
        \<lparr>cx_opts = o', cx_dfs = dfs, cx_target_dir = dir, cx_target_file = file',
         cx_resolve = (\<lambda>a. fst (resolve (su_local su) (su_dial su) a reg)), cx_env = su_env su, cx_hash = su_hash su,
         cx_eval_symlinks = su_eval_symlinks su, cx_interrupt = su_interrupt su\<rparr>)"

text \<open>The receiver that \<open>Run\<close> sets for skipped attributes; an empty name stands for the whole list.\<close>

definition report_skip :: "('w, 'd) ctx \<Rightarrow> string \<Rightarrow> bytes \<Rightarrow> goerr \<Rightarrow> 'w runner \<Rightarrow> 'w runner" where
  "report_skip cx path name e r =
     (if name = [] then verbose cx ''skip xattrs %s: %v'' [Str path, Err e] r
      else verbose cx ''skip xattr %s on %s: %v'' [Str (bytes_string name), Str path, Err e] r)"

definition run_all ::
  "nat \<Rightarrow> ('w, 'd) surroundings \<Rightarrow> options \<Rightarrow> 'w \<Rightarrow> (summary \<times> goerr option \<times> 'w runner) option" where
  "run_all n su o' w =
     (let r = new_runner w in
      case resolveTarget (su_local su) (su_dial su) o' registry_new of
        (Inl e, reg) \<Rightarrow> Some (summary_of r, Some e, r)
      | (Inr target, reg) \<Rightarrow>
          (case dial_all (su_local su) (su_dial su) (op_sources o') reg of
             (Some e, reg) \<Rightarrow> Some (summary_of r, Some e, r)
           | (None, reg) \<Rightarrow> run n (run_ctx su o' target reg) w))"

subsection \<open>The summary\<close>

definition extra_text :: "options \<Rightarrow> summary \<Rightarrow> int \<Rightarrow> string option" where
  "extra_text o' s cloned =
     (let extra = (if op_mirror o' then '', '' @ show_int (sm_deleted s) @ '' deleted'' else []);
          extra = (if op_move o'
                   then extra @ '', '' @ show_int (sm_renamed s) @ '' renamed, '' @ show_int (sm_removed s) @ '' source entries removed''
                   else extra)
      in if cloned > 0 then do { b \<leftarrow> humanBytes cloned; Some (extra @ '', '' @ b @ '' cloned from shared extents'') }
         else Some extra)"

definition summary_text :: "options \<Rightarrow> summary \<Rightarrow> int \<Rightarrow> string option" where
  "summary_text o' s cloned =
     do {
       extra \<leftarrow> extra_text o' s cloned;
       bytes \<leftarrow> humanBytes (sm_bytes s);
       Some (''basicopy: '' @ show_int (sm_files s) @ '' files, '' @ show_int (sm_dirs s) @ '' dirs, '' @
         show_int (sm_symlinks s) @ '' symlinks, '' @ show_int (sm_linked s) @ '' hardlinks, '' @ show_int (sm_updated s) @
         '' updated'' @ extra @ '', '' @ bytes @ ''; '' @ show_int (sm_skipped s) @ '' skipped, '' @ show_int (sm_failed s) @
         '' failed'' @ [line_feed]) }"

definition json_field :: "string \<times> int \<Rightarrow> string" where
  "json_field f = (case f of (name, v) \<Rightarrow> ''  '' @ [CHR 0x22] @ name @ [CHR 0x22] @ '': '' @ show_int v)"

definition summary_json :: "summary \<Rightarrow> int \<Rightarrow> string" where
  "summary_json s cloned =
     ''{'' @ [line_feed] @
     join_with ('','' @ [line_feed]) (map json_field
       [(''files'', sm_files s), (''dirs'', sm_dirs s), (''symlinks'', sm_symlinks s), (''hardlinks'', sm_linked s),
        (''updated'', sm_updated s), (''deleted'', sm_deleted s), (''renamed'', sm_renamed s), (''removed'', sm_removed s),
        (''bytes'', sm_bytes s), (''cloned'', cloned), (''skipped'', sm_skipped s), (''failed'', sm_failed s)]) @
     [line_feed] @ ''}'' @ [line_feed]"

text \<open>\<open>run\<close> of cmd/basicopy, from the result of the engine and the answer of the write to standard output; \<open>None\<close> for a panic.\<close>

definition cmd_run ::
  "options \<Rightarrow> goerr option \<Rightarrow> summary \<Rightarrow> int \<Rightarrow> goerr option \<Rightarrow> (string \<times> goerr option) option" where
  "cmd_run o' write_err s cloned err =
     (let interrupted = (case err of None \<Rightarrow> False | Some e \<Rightarrow> err_is e (Sentinel ErrInterrupted));
          result = (if interrupted then err
                    else if sm_failed s > 0 then Some (NewErr ''%d item(s) failed'' [show_int (sm_failed s)]) else None)
      in if err \<noteq> None \<and> \<not> interrupted then Some ([], err)
         else if op_json o'
         then (case write_err of Some e \<Rightarrow> Some ([], Some e) | None \<Rightarrow> Some (summary_json s cloned, result))
         else if op_quiet o' then Some ([], result)
         else do { t \<leftarrow> summary_text o' s cloned; Some (t, result) })"

subsection \<open>Flags and exit status\<close>

definition flag_defaults :: options where
  "flag_defaults =
     \<lparr>op_sources = [], op_target_dir = [], op_target_file = [], op_contents = False, op_no_auto_mkdirs = False,
      op_max_threads = 0, op_buffer_size = 0, op_exclude = [], op_include = [], op_one_fs = False, op_dry_run = False,
      op_mirror = False, op_move = False, op_checksum = False, op_no_hardlinks = False, op_no_follow = False,
      op_no_symlink_warn = False, op_no_preserve = False, op_fatal = False, op_fsync = False, op_verbose = False,
      op_quiet = False, op_json = False, op_progress = ''auto''\<rparr>"

text \<open>\<open>RunE\<close>: the options with the sources and the buffer size, or the reason to refuse them.\<close>

definition as_error :: "message \<Rightarrow> goerr" where
  "as_error m = NewErr (fst m) (map (case_arg id show_int (\<lambda>e. [])) (snd m))"

definition checked_options :: "options \<Rightarrow> string \<Rightarrow> string list \<Rightarrow> goerr + options" where
  "checked_options opts bufferStr args =
     (let opts = opts\<lparr>op_sources := args\<rparr> in
      case (if bufferStr \<noteq> []
            then (case parseSize bufferStr of Inl m \<Rightarrow> Inl (as_error m) | Inr n \<Rightarrow> Inr (opts\<lparr>op_buffer_size := n\<rparr>))
            else Inr opts) of
        Inl e \<Rightarrow> Inl e
      | Inr opts \<Rightarrow> (case validate opts of Some m \<Rightarrow> Inl (as_error m) | None \<Rightarrow> Inr opts))"

definition runE ::
  "nat \<Rightarrow> ('w, 'd) surroundings \<Rightarrow> goerr option \<Rightarrow> int \<Rightarrow> options \<Rightarrow> string \<Rightarrow> string list \<Rightarrow> 'w \<Rightarrow>
     (string \<times> goerr option \<times> 'w runner) option" where
  "runE n su write_err cloned opts bufferStr args w =
     (case checked_options opts bufferStr args of
        Inl e \<Rightarrow> Some ([], Some e, new_runner w)
      | Inr opts \<Rightarrow>
          do {
            (s, err, r) \<leftarrow> run_all n su opts w;
            (out, err) \<leftarrow> cmd_run opts write_err s cloned err;
            Some (out, err, r) })"

definition exitInterrupted :: int where
  "exitInterrupted = 130"

definition exit_status :: "goerr option \<Rightarrow> int" where
  "exit_status err =
     (case err of
        None \<Rightarrow> 0
      | Some e \<Rightarrow> if err_is e (Sentinel ErrInterrupted) then exitInterrupted else 1)"

subsection \<open>Every host is dialed before the run starts\<close>

definition registry_ok :: "'f registry \<Rightarrow> bool" where
  "registry_ok reg \<longleftrightarrow> distinct (map fst (rg_conns reg)) \<and> length (rg_conns reg) \<le> rg_dials reg"

definition settled :: "'f \<Rightarrow> (nat \<Rightarrow> location \<Rightarrow> goerr + 'f) \<Rightarrow> 'f registry \<Rightarrow> string \<Rightarrow> bool" where
  "settled lfs dial reg a \<longleftrightarrow> (\<exists>x. resolve lfs dial a reg = (Inr x, reg))"

text \<open>What a registry knows it keeps.\<close>

definition grows :: "'f registry \<Rightarrow> 'f registry \<Rightarrow> bool" where
  "grows reg reg' \<longleftrightarrow> map_of (rg_conns reg) \<subseteq>\<^sub>m map_of (rg_conns reg') \<and>
     rg_dials reg' + length (rg_conns reg) = rg_dials reg + length (rg_conns reg')"

lemma resolve_step:
  assumes "resolve lfs dial a reg = (Inr x, reg')" and "registry_ok reg"
  shows "registry_ok reg' \<and> grows reg reg' \<and> settled lfs dial reg' a"
proof -
  obtain loc where l: "parse a = Inr loc" using assms(1) by (auto simp: resolve_def split: sum.splits)
  consider "\<not> lo_remote loc" | f where "lo_remote loc" "map_of (rg_conns reg) (ConnKey loc) = Some f"
    | "lo_remote loc" "map_of (rg_conns reg) (ConnKey loc) = None" by blast
  then show ?thesis
  proof cases
    case 3
    then obtain f where f: "dial (Suc (rg_dials reg)) loc = Inr f"
      "reg' = \<lparr>rg_conns = (ConnKey loc, f) # rg_conns reg, rg_dials = Suc (rg_dials reg)\<rparr>"
      using assms(1) l by (auto simp: resolve_def for_location_def Let_def split: sum.splits)
    have "ConnKey loc \<notin> fst ` set (rg_conns reg)" using 3(2) by (simp add: map_of_eq_None_iff)
    moreover have "map_of (rg_conns reg) \<subseteq>\<^sub>m (map_of (rg_conns reg))(ConnKey loc \<mapsto> f)"
      using 3(2) by (auto simp: map_le_def)
    ultimately show ?thesis
      using assms(2) 3(1) f l by (simp add: registry_ok_def grows_def settled_def resolve_def for_location_def)
  qed (use assms l in \<open>auto simp: resolve_def for_location_def settled_def grows_def\<close>)
qed

lemma settled_grows:
  assumes "settled lfs dial reg a" and "grows reg reg'"
  shows "settled lfs dial reg' a"
proof -
  obtain loc where l: "parse a = Inr loc" using assms(1) by (auto simp: settled_def resolve_def split: sum.splits)
  show ?thesis
  proof (cases "lo_remote loc")
    case True
    then obtain f where "map_of (rg_conns reg) (ConnKey loc) = Some f"
      using assms(1) l
      by (auto simp: settled_def resolve_def for_location_def Let_def split: sum.splits option.splits
          dest!: arg_cong [where f = rg_dials])
    then have "map_of (rg_conns reg') (ConnKey loc) = Some f"
      using assms(2) unfolding grows_def map_le_def by (metis domI)
    then show ?thesis using True l by (simp add: settled_def resolve_def for_location_def)
  qed (simp add: settled_def resolve_def for_location_def l)
qed

lemma grows_trans: "grows a b \<Longrightarrow> grows b c \<Longrightarrow> grows a c"
  by (auto simp: grows_def intro: map_le_trans)

lemma dial_all_step:
  "dial_all lfs dial as reg = (None, reg') \<Longrightarrow> registry_ok reg \<Longrightarrow>
     registry_ok reg' \<and> grows reg reg' \<and> list_all (settled lfs dial reg') as"
proof (induction as arbitrary: reg)
  case Nil
  then show ?case by (simp add: grows_def)
next
  case (Cons a as)
  then obtain x r1 where r: "resolve lfs dial a reg = (Inr x, r1)" "dial_all lfs dial as r1 = (None, reg')"
    by (auto split: prod.splits sum.splits)
  note s = resolve_step [OF r(1) Cons.prems(2)]
  then have t: "registry_ok reg' \<and> grows r1 reg' \<and> list_all (settled lfs dial reg') as" using Cons.IH r(2) by blast
  then show ?case using s settled_grows grows_trans by (metis list.pred_inject(2))
qed

text \<open>Each host is dialed once, and before the run starts. When the target and all sources have been resolved, the
  registry holds one filesystem per host key for as many dials, and every source resolves from it without another
  dial, so no ssh session can prompt once the progress line is drawn.\<close>

lemma hosts_dialed_before_start:
  assumes "resolveTarget lfs dial o' registry_new = (Inr target, reg0)"
    and "dial_all lfs dial (op_sources o') reg0 = (None, reg)"
  shows "distinct (map fst (rg_conns reg)) \<and> rg_dials reg = length (rg_conns reg) \<and>
    (\<forall>a \<in> set (op_sources o'). \<exists>x. resolve lfs dial a reg = (Inr x, reg))"
proof -
  have new: "registry_ok registry_new" by (simp add: registry_ok_def registry_new_def)
  obtain a x where a: "resolve lfs dial a registry_new = (Inr x, reg0)"
    using assms(1) by (force simp: resolveTarget_def Let_def split: sum.splits prod.splits)
  then have r0: "registry_ok reg0" "grows registry_new reg0" using resolve_step [OF a new] by blast+
  note d = dial_all_step [OF assms(2) r0(1)]
  then have "grows registry_new reg" using r0(2) grows_trans by blast
  then have "rg_dials reg = length (rg_conns reg)" by (simp add: grows_def registry_new_def)
  then show ?thesis using d by (simp add: registry_ok_def settled_def list_all_iff)
qed

definition two_hosts :: options where
  "two_hosts = flag_defaults\<lparr>op_target_dir := ''pc:/d'', op_sources := [''pc:/a'', ''nas:/b'', ''/c'']\<rparr>"

theorem hosts_dialed_before_start_witness:
  "\<exists>reg. dial_all (0 :: nat) (\<lambda>n l. Inr n) (op_sources two_hosts)
      (snd (resolveTarget 0 (\<lambda>n l. Inr n) two_hosts registry_new)) = (None, reg) \<and>
    rg_dials reg = length (rg_conns reg) \<and> length (rg_conns reg) = 2"
proof -
  have a: "resolveTarget (0 :: nat) (\<lambda>n l. Inr n) two_hosts registry_new =
      (Inr (Suc 0, ''/d'', []), \<lparr>rg_conns = [(''@pc:'', Suc 0)], rg_dials = Suc 0\<rparr>)" by code_simp
  have b: "dial_all (0 :: nat) (\<lambda>n l. Inr n) (op_sources two_hosts) \<lparr>rg_conns = [(''@pc:'', Suc 0)], rg_dials = Suc 0\<rparr> =
      (None, \<lparr>rg_conns = [(''@nas:'', Suc (Suc 0)), (''@pc:'', Suc 0)], rg_dials = Suc (Suc 0)\<rparr>)" by code_simp
  show ?thesis unfolding a snd_conv b using hosts_dialed_before_start [OF a b] by simp
qed

subsection \<open>A run that exits with zero is complete\<close>

lemma run_summary: "run n cx w = Some (s, err, r) \<Longrightarrow> s = summary_of r"
  by (auto simp: run_def Let_def split: option.splits prod.splits)

lemma run_all_summary: "run_all n su o' w = Some (s, err, r) \<Longrightarrow> s = summary_of r"
  by (auto simp: run_all_def Let_def dest: run_summary split: sum.splits prod.splits option.splits)

lemma run_clean: "run n cx w = Some (s, None, r) \<Longrightarrow> rn_aborted r = None \<and> \<not> cx_interrupt cx (rn_polls r)"
  by (auto simp: run_def run_error_def Let_def split: option.splits prod.splits if_splits)

lemma run_all_clean:
  "run_all n su o' w = Some (s, None, r) \<Longrightarrow> rn_aborted r = None \<and> \<not> su_interrupt su (rn_polls r)"
  by (auto simp: run_all_def Let_def run_ctx_def dest!: run_clean split: sum.splits prod.splits option.splits)

lemma exit_status_zero [simp]: "exit_status err = 0 \<longleftrightarrow> err = None"
  by (simp add: exit_status_def exitInterrupted_def split: option.split)

text \<open>C29: Exit status zero means a complete run. If the command ends with status zero, its options were consistent, the run
  was neither aborted nor interrupted, no item failed, and the engine reported no error.\<close>

theorem exit_zero_means_complete:
  assumes "runE n su write_err cloned opts bufferStr args w = Some (out, err, r)" and "exit_status err = 0"
  shows "\<exists>o'. checked_options opts bufferStr args = Inr o' \<and> validate o' = None \<and>
    run_all n su o' w = Some (summary_of r, None, r) \<and>
    rn_failed r \<le> 0 \<and> rn_aborted r = None \<and> \<not> su_interrupt su (rn_polls r)"
proof -
  have e: "err = None" using assms(2) by simp
  obtain o' where o': "checked_options opts bufferStr args = Inr o'"
    using assms(1) e by (auto simp: runE_def split: sum.splits)
  obtain s er where r: "run_all n su o' w = Some (s, er, r)" "cmd_run o' write_err s cloned er = Some (out, None)"
    using assms(1) e o' by (auto simp: runE_def bind_eq_Some_conv)
  have "er = None \<and> \<not> sm_failed s > 0"
    using r(2) by (auto simp: cmd_run_def Let_def bind_eq_Some_conv split: if_splits option.splits)
  then have "er = None" "rn_failed r \<le> 0" using run_all_summary [OF r(1)] by (simp_all add: summary_of_def)
  moreover have "validate o' = None"
    using o' by (auto simp: checked_options_def Let_def split: sum.splits option.splits if_splits)
  ultimately show ?thesis using o' r(1) run_all_summary [OF r(1)] run_all_clean [of n su o' w s r] by auto
qed

end
