(* ===== verification/DemoRun.thy ===== *)
theory DemoRun
  imports CopySpec DirSpec MoveSpec VisitSpec Command
begin

text \<open>
  The run's properties at work: on the two files of \<open>demo\<close>, and on filesystems that differ from the one
  in memory in a call or two (a single directory \<open>/s\<close> with one file, a source that cannot be examined,
  a full disk).
\<close>

definition base_opts :: options where
  "base_opts = \<lparr>op_sources = [''/s''], op_target_dir = ''/d'', op_target_file = [], op_contents = False,
     op_no_auto_mkdirs = False, op_max_threads = 0, op_buffer_size = 2, op_exclude = [], op_include = [],
     op_one_fs = False, op_dry_run = False, op_mirror = False, op_move = False, op_checksum = False,
     op_no_hardlinks = False, op_no_follow = False, op_no_symlink_warn = False, op_no_preserve = False,
     op_fatal = False, op_fsync = False, op_verbose = False, op_quiet = False, op_json = False,
     op_progress = []\<rparr>"

text \<open>One directory with two files, which cannot be opened.\<close>

definition flat_fs :: "mem fs" where
  "flat_fs = mem_fs\<lparr>
     fs_lstat := (\<lambda>w p. if p = ''/s'' then Inr (mem_info w ''/s'' 1) else fs_lstat mem_fs w p),
     fs_read_dir := (\<lambda>w p.
       if p = ''/s'' then Inr [mem_info w ''/s/a'' 2, mem_info w ''/s/b'' 3] else Inl (Errno ENOTDIR))\<rparr>"

definition flat_rank :: "string \<Rightarrow> nat" where
  "flat_rank p = (if p = ''/s'' then 1 else 0)"

definition demo_cx :: "mem fs \<Rightarrow> options \<Rightarrow> (mem, bytes) ctx" where
  "demo_cx fsys o' = \<lparr>cx_opts = o', cx_dfs = fsys, cx_target_dir = ''/d'', cx_target_file = [],
     cx_resolve = (\<lambda>p. Inr (fsys, p)), cx_env = plain_env, cx_hash = (\<lambda>b. b),
     cx_eval_symlinks = (\<lambda>w p. Inr p), cx_interrupt = (\<lambda>_. False)\<rparr>"

lemma demo_cx_simps [simp]:
  "cx_opts (demo_cx fsys o') = o'" "cx_dfs (demo_cx fsys o') = fsys" "cx_resolve (demo_cx fsys o') p = Inr (fsys, p)"
  "cx_env (demo_cx fsys o') = plain_env" "cx_hash (demo_cx fsys o') = (\<lambda>b. b)"
  "cx_interrupt (demo_cx fsys o') k = False" "cx_target_dir (demo_cx fsys o') = ''/d''"
  by (simp_all add: demo_cx_def)

lemma flat_join:
  "fs_join flat_fs ''/s'' (fi_name (mem_info w ''/s/a'' 2)) = ''/s/a''"
  "fs_join flat_fs ''/s'' (fi_name (mem_info w ''/s/b'' 3)) = ''/s/b''"
proof -
  have "path_base ''/s/a'' = ''a''" "path_join [''/s'', ''a''] = ''/s/a''"
    "path_base ''/s/b'' = ''b''" "path_join [''/s'', ''b''] = ''/s/b''" by code_simp+
  then show "fs_join flat_fs ''/s'' (fi_name (mem_info w ''/s/a'' 2)) = ''/s/a''"
    "fs_join flat_fs ''/s'' (fi_name (mem_info w ''/s/b'' 3)) = ''/s/b''"
    by (simp_all add: flat_fs_def local_fs_def mem_info_def Let_def)
qed

lemma flat_ranked: "ranked flat_fs flat_rank"
proof -
  have "fs_read_dir flat_fs w p = Inr es \<Longrightarrow> p = ''/s'' \<and> es = [mem_info w ''/s/a'' 2, mem_info w ''/s/b'' 3]" for w p es
    by (auto simp: flat_fs_def split: if_splits)
  then show ?thesis using flat_join by (fastforce simp: ranked_def flat_rank_def)
qed

lemma flat_run: "\<exists>sm e r. run 2 (demo_cx flat_fs o') w = Some (sm, e, r)"
  by (rule run_has_result [where m = flat_rank]) (auto simp: flat_ranked flat_rank_def)

lemma flat_walk: "\<exists>e r. walk 2 (demo_cx flat_fs o') (new_runner w) = Some (e, r)"
  by (rule walk_has_result [where m = flat_rank]) (auto simp: flat_ranked flat_rank_def)

theorem run_returns_witness: "\<exists>sm e r. run 2 (demo_cx flat_fs base_opts) demo = Some (sm, e, r)"
  by (rule run_returns [where m = flat_rank]) (auto simp: flat_ranked flat_rank_def)

theorem dry_run_changes_nothing_witness:
  "case run 2 (demo_cx flat_fs (base_opts\<lparr>op_dry_run := True, op_mirror := True\<rparr>)) demo of
     Some (sm, e, r) \<Rightarrow> sm_files sm = 2 \<and> sm_dirs sm = 1 \<and> e = None \<and> rn_world r = demo
   | None \<Rightarrow> False"
proof -
  let ?cx = "demo_cx flat_fs (base_opts\<lparr>op_dry_run := True, op_mirror := True\<rparr>)"
  have "case run 2 ?cx demo of Some (sm, e, r) \<Rightarrow> sm_files sm = 2 \<and> sm_dirs sm = 1 \<and> e = None | None \<Rightarrow> False" by code_simp
  then obtain sm e r where o: "run 2 ?cx demo = Some (sm, e, r)" "sm_files sm = 2" "sm_dirs sm = 1" "e = None"
    by (auto split: option.splits prod.splits)
  with dry_run_changes_nothing [OF o(1)] show ?thesis by simp
qed

theorem walk_accounts_for_every_file_witness:
  "\<exists>e r. walk 2 (demo_cx flat_fs base_opts) (new_runner demo) = Some (e, r) \<and>
     int (length (rn_jobs r)) = rn_total_files r"
proof -
  obtain e r where "walk 2 (demo_cx flat_fs base_opts) (new_runner demo) = Some (e, r)"
    using flat_walk by blast
  with walk_accounts_for_every_file [OF this] show ?thesis by (simp add: base_opts_def)
qed

theorem every_directory_gets_its_metadata_witness:
  "\<exists>e r. walk 2 (demo_cx flat_fs base_opts) (new_runner demo) = Some (e, r) \<and> length (rn_dir_states r) = 1 \<and>
     rn_world (finish_copies (demo_cx flat_fs base_opts) r) =
       dir_meta (demo_cx flat_fs base_opts) (rn_dir_states r ! 0) (rn_world (after_links (demo_cx flat_fs base_opts) r))"
proof -
  let ?cx = "demo_cx flat_fs base_opts"
  have "case walk 2 ?cx (new_runner demo) of Some (e, r) \<Rightarrow> length (rn_dir_states r) = 1 | None \<Rightarrow> False" by code_simp
  then obtain e r where r: "walk 2 ?cx (new_runner demo) = Some (e, r)" "length (rn_dir_states r) = 1"
    by (auto split: option.splits prod.splits)
  have "\<not> op_dry_run (cx_opts ?cx)" by (simp add: base_opts_def)
  with every_directory_gets_its_metadata [OF r(1)] obtain ds where ds: "distinct ds" "set ds = {0}"
    "rn_world (finish_copies ?cx r) = fold (\<lambda>d. dir_meta ?cx (rn_dir_states r ! d)) ds (rn_world (after_links ?cx r))"
    unfolding r(2) lessThan_Suc lessThan_0 One_nat_def by blast
  have "ds = [0]"
  proof -
    have "length ds = 1" using distinct_card [OF ds(1)] ds(2) by simp
    then show ?thesis using ds(2) by (cases ds) simp_all
  qed
  then show ?thesis using r ds(3) by simp
qed

text \<open>A copy that fails under \<open>--fatal-errors\<close> aborts the run before the second file; that one, had it been in flight, would not
  replace the cause.\<close>

theorem abort_stops_the_run_witness:
  "\<exists>r sm r'. walk 2 (demo_cx flat_fs (base_opts\<lparr>op_fatal := True\<rparr>)) (new_runner demo) = Some (None, r) \<and>
     rn_aborted r = None \<and> length (rn_jobs r) = 2 \<and>
     run 2 (demo_cx flat_fs (base_opts\<lparr>op_fatal := True\<rparr>)) demo =
       Some (sm, Some (PathErr ''stat'' ''/s/a'' (Errno ENOENT)), r') \<and>
     rn_aborted (copies_end (demo_cx flat_fs (base_opts\<lparr>op_fatal := True\<rparr>))
       [(rn_jobs r ! 1, ''new'', 0, Some (Errno EACCES))]
       (stage (demo_cx flat_fs (base_opts\<lparr>op_fatal := True\<rparr>)) 1 r)) = Some (PathErr ''stat'' ''/s/a'' (Errno ENOENT))"
proof -
  let ?cx = "demo_cx flat_fs (base_opts\<lparr>op_fatal := True\<rparr>)" and ?e = "PathErr ''stat'' ''/s/a'' (Errno ENOENT)"
  have "case walk 2 ?cx (new_runner demo) of Some (e, r) \<Rightarrow> e = None \<and> rn_aborted r = None \<and> length (rn_jobs r) = 2 \<and>
      rn_aborted (stage ?cx 1 r) = Some ?e | None \<Rightarrow> False" by code_simp
  then obtain r where r: "walk 2 ?cx (new_runner demo) = Some (None, r)" "rn_aborted r = None" "length (rn_jobs r) = 2"
    "rn_aborted (stage ?cx 1 r) = Some ?e"
    by (auto split: option.splits prod.splits)
  have ds: "dial_sources ?cx (op_sources (cx_opts ?cx)) = None" by (simp add: base_opts_def)
  obtain sm e r' where "run 2 ?cx demo = Some (sm, e, r')" using flat_run by blast
  with abort_stops_the_run [OF this r(1,4) ds] r show ?thesis by simp
qed

subsection \<open>Single steps\<close>

text \<open>A disk with ten bytes left.\<close>

theorem space_guard_needs_measurement_witness:
  "\<exists>avail. fs_avail (mem_fs\<lparr>fs_avail := (\<lambda>w p. Some 10)\<rparr>) demo
     (fs_dir (mem_fs\<lparr>fs_avail := (\<lambda>w p. Some 10)\<rparr>) ''/d/a'') = Some avail \<and> avail < 20"
proof -
  let ?r = "(new_runner demo)\<lparr>rn_free := 5, rn_space_check := True\<rparr>"
  let ?cx = "demo_cx (mem_fs\<lparr>fs_avail := (\<lambda>w p. Some 10)\<rparr>) base_opts"
  have "reserveSpace ?cx ''/d/a'' 20 ?r = (False, snd (reserveSpace ?cx ''/d/a'' 20 ?r))"
    by (simp add: reserveSpace_def Let_def)
  from space_guard_needs_measurement [OF this] show ?thesis by simp
qed

definition same_job :: "mem file_job" where
  "same_job = \<lparr>jb_fs = mem_fs, jb_src = ''/b'', jb_dst = ''/b'', jb_info = mem_info demo ''/b'' 3,
     jb_parent = None, jb_check = True, jb_reason = []\<rparr>"

theorem unchanged_file_is_negative_progress_witness:
  "progressCount (copyOne (demo_cx mem_fs (base_opts\<lparr>op_no_preserve := True\<rparr>)) same_job (new_runner demo)) < 0"
proof -
  have z: "progressCount (new_runner demo) = 0" by (simp add: progressCount_def new_runner_def)
  have c: "\<not> vd_need_copy (compare (\<lambda>b. b) mem_fs ''/b'' (mem_info demo ''/b'' 3) mem_fs ''/b'' False demo)"
    by (simp add: compare_def demo_lstat demo_info mtime_match_iff mtimeTolerance_def)
  then show ?thesis
    using unchanged_file_is_negative_progress [of same_job "demo_cx mem_fs (base_opts\<lparr>op_no_preserve := True\<rparr>)"
        "new_runner demo"] z
    by (simp add: same_job_def base_opts_def demo_info)
qed

text \<open>A file over SFTP moved to the local disk.\<close>

definition move_src :: "mem fs" where
  "move_src = demo_remote\<lparr>fs_open := (\<lambda>w p. Inr ((mem_reader [1, 2, 3])\<lparr>rd_is_os := False\<rparr>))\<rparr>"

definition move_job :: "mem file_job" where
  "move_job = \<lparr>jb_fs = move_src, jb_src = ''/a'', jb_dst = ''/b'', jb_info = mem_info demo ''/a'' 2,
     jb_parent = None, jb_check = False, jb_reason = ''new''\<rparr>"

abbreviation move_opts :: options where
  "move_opts \<equiv> base_opts\<lparr>op_move := True, op_no_preserve := True\<rparr>"

theorem recorded_source_is_at_destination_witness:
  "hd (mem_obs (rn_world (copyOne (demo_cx mem_fs move_opts) move_job (new_runner demo)))) ''/b'' = Some [1, 2, 3]"
proof -
  let ?cx = "demo_cx mem_fs move_opts" and ?r = "new_runner demo" and ?inp = "(mem_reader [1, 2, 3])\<lparr>rd_is_os := False\<rparr>"
  have rs: "reserveSpace ?cx p k ?r = (True, ?r)" for p k by (simp add: reserveSpace_def new_runner_def)
  have st: "demo_st = \<lparr>cs_world = demo, cs_moved = 0, cs_polls = 0\<rparr>" by (simp add: demo_st_def)
  have "snd (fst (copyFile plain_env move_src ''/a'' mem_fs ''/b'' (Some (jb_info move_job)) (copy_options ?cx ?r) demo_st)) = None"
    by (rule demo_copy_any) (simp_all add: copy_options_def preserve_def base_opts_def move_src_def)
  then have "snd (fst (copy_once ?cx move_job ?r)) = None"
    by (auto simp: copy_once_def st [symmetric] move_job_def split: prod.split)
  then obtain n r2 where co: "copy_once ?cx move_job ?r = ((n, None), r2)" by (metis prod.collapse)
  then have at: "copy_attempts ?cx move_job maxRetries ?r = ((n, None), r2)"
    by (simp add: maxRetries_def eval_nat_numeral)
  have mv: "rn_moved_files r2 = []"
    using co by (auto simp: copy_once_def new_runner_def split: prod.splits)
  have "copyOne ?cx move_job ?r = record_copy ?cx move_job ''new'' n None r2"
    by (simp add: copyOne_def Let_def rs at) (simp add: move_job_def)
  then have rec: "rn_moved_files (copyOne ?cx move_job ?r) \<noteq> rn_moved_files ?r"
    by (simp add: record_copy_def moveSource_def isMetaErr_def base_opts_def mv new_runner_def)
  have dst: "jb_dst move_job \<noteq> fs_join (cx_dfs ?cx) (fs_dir (cx_dfs ?cx) (jb_dst move_job)) (''.basicopy-tmp-'' @ x)"
    if "CHR ''/'' \<notin> set x" for x
    using demo_dst [OF that] by (simp add: move_job_def)
  have "read_chunks (rd_script ?inp (buf_size (copy_options ?cx ?r))) [] = Inr [1, 2, 3]"
    by (simp add: mem_reader_def buf_size_def copy_options_def base_opts_def eval_nat_numeral)
  moreover have "\<exists>d. read_chunks (rd_script ?inp (buf_size (copy_options ?cx ?r))) [] = Inr d \<and>
      hd (mem_obs (rn_world (copyOne ?cx move_job ?r))) (jb_dst move_job) = Some d \<and>
      rn_moved_files (copyOne ?cx move_job ?r) = rn_moved_files ?r @
        [\<lparr>mv_fs = jb_fs move_job, mv_src = jb_src move_job, mv_dst = jb_dst move_job\<rparr>]"
  proof (rule recorded_source_is_at_destination [where err = None and n = n and ?r2.0 = r2 and owned = mem_owned and at_end = mem_at_end])
    show "stream_fs (cx_dfs ?cx) (cx_env ?cx) mem_obs mem_owned mem_at_end"
      using memory.stream_fs_axioms by simp
  qed (use rec dst at rs in \<open>simp_all add: move_job_def move_src_def isMetaErr_def\<close>)
  ultimately show ?thesis by (auto simp: move_job_def)
qed

text \<open>An entry of the destination without a source, and one whose source cannot be examined.\<close>

definition pruned_fs :: "mem fs" where
  "pruned_fs = mem_fs\<lparr>fs_read_dir := (\<lambda>w p. Inr [mem_info demo ''/b'' 3]),
     fs_remove_all := (\<lambda>p w. (None, w\<lparr>mm_names := []\<rparr>))\<rparr>"

abbreviation refused_fs :: "mem fs" where
  "refused_fs \<equiv> mem_fs\<lparr>fs_lstat := (\<lambda>w p. Inl (PathErr ''lstat'' p (Errno EACCES)))\<rparr>"

theorem mirror_removes_only_extraneous_witness:
  "\<exists>r'. mirrorDir 1 (demo_cx pruned_fs (base_opts\<lparr>op_no_preserve := True\<rparr>)) refused_fs ''/d'' ''/s'' (new_runner demo) = Some r' \<and>
     mirror_steps (demo_cx pruned_fs (base_opts\<lparr>op_no_preserve := True\<rparr>)) refused_fs ''/d'' ''/s'' demo (rn_world r')"
proof -
  let ?cx = "demo_cx pruned_fs (base_opts\<lparr>op_no_preserve := True\<rparr>)"
  have "\<exists>r'. mirrorDir 1 ?cx refused_fs ''/d'' ''/s'' (new_runner demo) = Some r'"
    by (simp add: pruned_fs_def split: prod.split)
  then obtain r' where "mirrorDir 1 ?cx refused_fs ''/d'' ''/s'' (new_runner demo) = Some r'" by blast
  with mirror_removes_only_extraneous [OF this] show ?thesis by simp
qed

theorem mirror_deletes_on_any_lstat_error_witness:
  "\<exists>r'. mirror_entries (demo_cx pruned_fs base_opts) (\<lambda>d s r. None) refused_fs ''/d'' ''/s'' [mem_info demo ''/b'' 3] False
     (new_runner demo) = Some (True, r') \<and> mm_names (rn_world r') = []"
proof -
  have "fs_lstat refused_fs (rn_world (new_runner demo)) p = Inl (PathErr ''lstat'' p (Errno EACCES))" for p
    by simp
  from mirror_deletes_on_any_lstat_error [OF this, where cx = "demo_cx pruned_fs base_opts" and w' = "demo\<lparr>mm_names := []\<rparr>"
      and dd = "''/d''" and sub = "\<lambda>d s r. None"]
  show ?thesis by (fastforce simp: base_opts_def pruned_fs_def)
qed

lemma demo_paths: "list_all plain_name [''s'']" "list_all plain_name [''s'', ''s'']"
  "path_string True [''s''] = ''/s''" "path_string True [''s'', ''s''] = ''/s/s''"
  by code_simp+

theorem within_root_iff_below_witness: "withinRoot mem_fs ''/s'' ''/s/s''"
  using within_root_iff_below [OF demo_paths(1,2), of mem_os] by (simp add: demo_paths below_def)

theorem no_copy_into_itself_witness:
  "\<exists>e. walk_source 1 ((demo_cx mem_fs base_opts)\<lparr>cx_target_dir := ''/s''\<rparr>) mem_fs ''/s'' (mem_info demo ''/'' 1) (new_runner demo) =
     Some (None, fail ((demo_cx mem_fs base_opts)\<lparr>cx_target_dir := ''/s''\<rparr>) e (new_runner demo))"
proof (rule no_copy_into_itself [where os = mem_os and bs = "[''s'']" and ts = "[''s'', ''s'']"])
  show "is_dir (fi_mode (mem_info demo ''/'' 1))" by code_simp
  have "path_clean ''/s'' = ''/s''" "path_base ''/s'' = ''s''" "path_join [''/s'', ''s''] = ''/s/s''" by code_simp+
  then show "dest_path ((demo_cx mem_fs base_opts)\<lparr>cx_target_dir := ''/s''\<rparr>) mem_fs ''/s''
      (op_contents (cx_opts ((demo_cx mem_fs base_opts)\<lparr>cx_target_dir := ''/s''\<rparr>))) = Inr (path_string True [''s'', ''s''])"
    by (simp add: dest_path_def Let_def base_opts_def demo_paths) (simp add: local_fs_def)
  show "path_clean ''/s'' = path_string True [''s'']" by code_simp
  show "below [''s''] [''s'', ''s'']" by (simp add: below_def)
qed (use demo_paths(1,2) in simp_all)

theorem second_link_is_never_copied_witness:
  "rn_jobs (handleMultiLink (demo_cx mem_fs base_opts) \<lparr>sr_fs = mem_fs, sr_root_abs = ''/'', sr_keep = []\<rparr> ''/b'' ''/d/b''
     (mem_info demo ''/b'' 3) None ''1:3'' ((new_runner demo)\<lparr>rn_hl_map := [''1:3'' \<mapsto> \<lparr>hp_dst = ''/d/a'', hp_adopted = False\<rparr>]\<rparr>)) = []"
  by (rule second_link_is_never_copied [THEN conjunct1, THEN trans]) (simp_all add: new_runner_def)

theorem copy_one_has_one_outcome_witness:
  "outcomes (copyOne (demo_cx mem_fs base_opts) same_job (new_runner demo)) \<in> {0, 1}"
proof -
  have "outcomes (new_runner demo) = 0" by (simp add: outcomes_def new_runner_def)
  then show ?thesis using copy_one_has_one_outcome [of "demo_cx mem_fs base_opts" same_job "new_runner demo"] by auto
qed

subsection \<open>The command\<close>

definition demo_su :: "(mem, bytes) surroundings" where
  "demo_su = \<lparr>su_local = mem_fs, su_dial = (\<lambda>n l. Inl (Sentinel ErrUnsupported)), su_env = plain_env, su_hash = (\<lambda>b. b),
     su_eval_symlinks = (\<lambda>w p. Inr p), su_interrupt = (\<lambda>_. False)\<rparr>"

definition dry_flags :: options where
  "dry_flags = flag_defaults\<lparr>op_target_file := ''/c'', op_dry_run := True, op_quiet := True\<rparr>"

theorem exit_zero_means_complete_witness:
  "case runE 3 demo_su None 0 dry_flags [] [''/a''] demo of
     Some (out, err, r) \<Rightarrow> rn_failed r \<le> 0 \<and> rn_aborted r = None
   | None \<Rightarrow> False"
proof -
  have "case runE 3 demo_su None 0 dry_flags [] [''/a''] demo of Some (out, err, r) \<Rightarrow> exit_status err = 0 | None \<Rightarrow> False"
    by code_simp
  then obtain out err r where "runE 3 demo_su None 0 dry_flags [] [''/a''] demo = Some (out, err, r)" "exit_status err = 0"
    by (auto split: option.splits prod.splits)
  with exit_zero_means_complete [OF this] show ?thesis by auto
qed

end
