(* ===== verification/Pool.thy ===== *)
theory Pool
  imports CondVar
begin

text \<open>
  The connection pool of a remote host, internal/vfs/pool.go, with the pool's part of \<open>Close\<close> in
  sftp.go. A connection is its counters; which host is dialed and what the dial answers is outside the
  model. Waiting in \<open>acquire\<close> is a client of the monitor of CondVar.
\<close>

subsection \<open>Connections\<close>

record conn =
  cn_transfers :: int
  cn_inflight :: int
  cn_shut :: bool

record pool =
  pl_conns :: "conn list"
  pl_dialing :: bool
  pl_frozen :: bool
  pl_closed :: bool
  pl_rr :: nat
  pl_can_dial :: bool

definition MaxConnections :: nat where
  "MaxConnections = 16"

definition new_conn :: conn where
  "new_conn = \<lparr>cn_transfers = 0, cn_inflight = 0, cn_shut = False\<rparr>"

definition pool_new :: "bool \<Rightarrow> pool" where
  "pool_new can_dial = \<lparr>pl_conns = [new_conn], pl_dialing = False, pl_frozen = False, pl_closed = False,
     pl_rr = 0, pl_can_dial = can_dial\<rparr>"

definition upd_conn :: "nat \<Rightarrow> (conn \<Rightarrow> conn) \<Rightarrow> pool \<Rightarrow> pool" where
  "upd_conn i g p = p\<lparr>pl_conns := (pl_conns p)[i := g (pl_conns p ! i)]\<rparr>"

definition conn_begin :: "nat \<Rightarrow> pool \<Rightarrow> pool" where
  "conn_begin i = upd_conn i (\<lambda>c. c\<lparr>cn_inflight := cn_inflight c + 1\<rparr>)"

definition conn_finish :: "nat \<Rightarrow> pool \<Rightarrow> pool" where
  "conn_finish i = upd_conn i (\<lambda>c. c\<lparr>cn_inflight := cn_inflight c - 1\<rparr>)"

subsection \<open>Choosing a connection\<close>

text \<open>The scan of \<open>leastLoadedLocked\<close> from \<open>start\<close>: the offsets still to look at, the best so far and its
  load.\<close>

fun scan_least :: "conn list \<Rightarrow> nat \<Rightarrow> nat list \<Rightarrow> nat \<Rightarrow> int \<Rightarrow> nat" where
  "scan_least cs start [] best bestLoad = best"
| "scan_least cs start (i # is) best bestLoad =
     (if \<not> bestLoad > 0 then best
      else
        (let c = (start + i) mod length cs; load = cn_inflight (cs ! c) in
         if load < bestLoad then scan_least cs start is c load else scan_least cs start is best bestLoad))"

definition leastLoaded :: "pool \<Rightarrow> nat \<times> pool" where
  "leastLoaded p =
     (let cs = pl_conns p; start = pl_rr p mod length cs in
      (scan_least cs start [1..<length cs] start (cn_inflight (cs ! start)), p\<lparr>pl_rr := pl_rr p + 1\<rparr>))"

definition pick :: "pool \<Rightarrow> nat \<times> pool" where
  "pick p =
     (if length (pl_conns p) = 1 then (0, p)
      else if cn_transfers (pl_conns p ! 0) = 0 then (0, p)
      else leastLoaded p)"

text \<open>The connections a transfer may have to itself: all but the first, once there are several.\<close>

definition transfer_conns :: "pool \<Rightarrow> nat list" where
  "transfer_conns p = (if length (pl_conns p) > 1 then [1..<length (pl_conns p)] else [0..<length (pl_conns p)])"

definition freeConn :: "pool \<Rightarrow> nat option" where
  "freeConn p = List.find (\<lambda>i. cn_transfers (pl_conns p ! i) = 0) (transfer_conns p)"

definition canGrow :: "pool \<Rightarrow> bool" where
  "canGrow p \<longleftrightarrow> pl_can_dial p \<and> \<not> pl_frozen p \<and> \<not> pl_closed p \<and> length (pl_conns p) < MaxConnections"

subsection \<open>Transfers\<close>

definition startDial :: "pool \<Rightarrow> pool" where
  "startDial p = (if pl_dialing p then p else p\<lparr>pl_dialing := True\<rparr>)"

text \<open>The end of a dial: an error freezes the pool, a connection joins it.\<close>

definition dial_done :: "bool \<Rightarrow> pool \<Rightarrow> pool" where
  "dial_done ok p =
     (let p = p\<lparr>pl_dialing := False\<rparr> in
      if \<not> ok then p\<lparr>pl_frozen := True\<rparr> else p\<lparr>pl_conns := pl_conns p @ [new_conn]\<rparr>)"

definition take_conn :: "nat \<Rightarrow> pool \<Rightarrow> pool" where
  "take_conn i = upd_conn i (\<lambda>c. c\<lparr>cn_transfers := cn_transfers c + 1\<rparr>)"

text \<open>One pass of \<open>acquire\<close>: the connection taken, or \<open>None\<close> to wait for a dial.\<close>

definition acquire :: "pool \<Rightarrow> nat option \<times> pool" where
  "acquire p =
     (case freeConn p of
        Some i \<Rightarrow> (Some i, take_conn i p)
      | None \<Rightarrow>
          if \<not> canGrow p
          then (let (i, p) = leastLoaded p in (Some i, take_conn i p))
          else (None, startDial p))"

definition release :: "nat \<Rightarrow> pool \<Rightarrow> pool" where
  "release i = upd_conn i (\<lambda>c. if cn_transfers c > 0 then c\<lparr>cn_transfers := cn_transfers c - 1\<rparr> else c)"

text \<open>\<open>Close\<close>: the flag under the mutex, then every connection there was at that moment.\<close>

definition mark_closed :: "pool \<Rightarrow> pool" where
  "mark_closed p = p\<lparr>pl_closed := True\<rparr>"

definition shut_conns :: "nat \<Rightarrow> pool \<Rightarrow> pool" where
  "shut_conns n p = p\<lparr>pl_conns := map (\<lambda>c. c\<lparr>cn_shut := True\<rparr>) (take n (pl_conns p)) @ drop n (pl_conns p)\<rparr>"

definition pool_report :: "pool \<Rightarrow> nat \<times> bool" where
  "pool_report p = (length (pl_conns p), pl_frozen p)"

subsection \<open>The pool as a monitor\<close>

definition pool_client :: "pool client" where
  "pool_client =
     \<lparr>cl_pass = (\<lambda>p. case acquire p of (None, p') \<Rightarrow> Waits p' | (Some i, p') \<Rightarrow> Goes p'),
      cl_signal_in = (\<lambda>p p'. False),
      cl_signal_after = (\<lambda>p p'. \<exists>i < length (pl_conns p). p' = release i p),
      cl_cast_in = (\<lambda>p p'. pl_dialing p \<and> (\<exists>ok. p' = dial_done ok p)),
      cl_cast_after = (\<lambda>p p'. p' = mark_closed p),
      cl_quiet = (\<lambda>p p'. p' = snd (pick p) \<or> (\<exists>i < length (pl_conns p). p' = conn_begin i p \<or> p' = conn_finish i p) \<or>
         pl_closed p \<and> (\<exists>n. p' = shut_conns n p))\<rparr>"

lemma pool_client_simps [simp]:
  "cl_pass pool_client p = (case acquire p of (None, p') \<Rightarrow> Waits p' | (Some i, p') \<Rightarrow> Goes p')"
  "\<not> cl_signal_in pool_client p p'"
  "cl_signal_after pool_client p p' = (\<exists>i < length (pl_conns p). p' = release i p)"
  "cl_cast_in pool_client p p' = (pl_dialing p \<and> (\<exists>ok. p' = dial_done ok p))"
  "cl_cast_after pool_client p p' = (p' = mark_closed p)"
  "cl_quiet pool_client p p' = (p' = snd (pick p) \<or> (\<exists>i < length (pl_conns p). p' = conn_begin i p \<or> p' = conn_finish i p) \<or>
     pl_closed p \<and> (\<exists>n. p' = shut_conns n p))"
  by (simp_all add: pool_client_def)

text \<open>The pool's invariant: between one and sixteen connections, and room for the one being dialed.\<close>

definition pool_inv :: "pool \<Rightarrow> bool" where
  "pool_inv p \<longleftrightarrow> pl_conns p \<noteq> [] \<and> length (pl_conns p) \<le> MaxConnections \<and>
     (pl_dialing p \<longrightarrow> length (pl_conns p) < MaxConnections) \<and> (\<forall>c \<in> set (pl_conns p). 0 \<le> cn_transfers c)"

definition idle_count :: "pool \<Rightarrow> int" where
  "idle_count p = int (length (filter (\<lambda>i. cn_transfers (pl_conns p ! i) = 0) (transfer_conns p)))"

lemma upd_conn_simps [simp]:
  "length (pl_conns (upd_conn i g p)) = length (pl_conns p)" "pl_dialing (upd_conn i g p) = pl_dialing p"
  "pl_frozen (upd_conn i g p) = pl_frozen p" "pl_closed (upd_conn i g p) = pl_closed p"
  "pl_can_dial (upd_conn i g p) = pl_can_dial p" "transfer_conns (upd_conn i g p) = transfer_conns p"
  "canGrow (upd_conn i g p) = canGrow p" "(pl_conns (upd_conn i g p) = []) = (pl_conns p = [])"
  by (simp_all add: upd_conn_def transfer_conns_def canGrow_def)

lemma upd_conn_inv:
  "pool_inv p \<Longrightarrow> i < length (pl_conns p) \<Longrightarrow> 0 \<le> cn_transfers (g (pl_conns p ! i)) \<Longrightarrow> pool_inv (upd_conn i g p)"
  using set_update_subset_insert [of "pl_conns p" i "g (pl_conns p ! i)"]
  by (auto simp: pool_inv_def upd_conn_def)

lemma transfer_conns_distinct: "distinct (transfer_conns p)"
  by (simp add: transfer_conns_def)

lemma transfer_conns_bound: "i \<in> set (transfer_conns p) \<Longrightarrow> i < length (pl_conns p)"
  by (auto simp: transfer_conns_def split: if_splits)

lemma freeConn_Some: "freeConn p = Some i \<Longrightarrow> i \<in> set (transfer_conns p) \<and> cn_transfers (pl_conns p ! i) = 0"
  by (auto simp: freeConn_def find_Some_iff)

lemma freeConn_None: "freeConn p = None \<longleftrightarrow> idle_count p = 0"
  by (auto simp: freeConn_def find_None_iff idle_count_def filter_empty_conv)

lemma scan_least_bound: "best < length cs \<Longrightarrow> scan_least cs start is best l < length cs"
proof (induction "is" arbitrary: best l)
  case (Cons i "is")
  then have "0 < length cs" by linarith
  then have "(start + i) mod length cs < length cs" by (rule mod_less_divisor)
  then show ?case using Cons by (simp add: Let_def)
qed simp

lemma leastLoaded_bound: "pl_conns p \<noteq> [] \<Longrightarrow> fst (leastLoaded p) < length (pl_conns p)"
  by (simp add: leastLoaded_def Let_def scan_least_bound)

lemma leastLoaded_snd: "snd (leastLoaded p) = p\<lparr>pl_rr := pl_rr p + 1\<rparr>"
  by (simp add: leastLoaded_def Let_def)

lemma rr_simps [simp]: "pool_inv (p\<lparr>pl_rr := n\<rparr>) = pool_inv p" "idle_count (p\<lparr>pl_rr := n\<rparr>) = idle_count p"
  "canGrow (p\<lparr>pl_rr := n\<rparr>) = canGrow p"
  by (simp_all add: pool_inv_def idle_count_def canGrow_def transfer_conns_def)

lemma idle_same:
  "cn_transfers (g (pl_conns p ! i)) = cn_transfers (pl_conns p ! i) \<Longrightarrow> idle_count (upd_conn i g p) = idle_count p"
proof -
  assume a: "cn_transfers (g (pl_conns p ! i)) = cn_transfers (pl_conns p ! i)"
  have "cn_transfers ((pl_conns p)[i := g (pl_conns p ! i)] ! j) = cn_transfers (pl_conns p ! j)" for j
    using a by (cases "i < length (pl_conns p) \<and> i = j") (auto simp: nth_list_update list_update_beyond)
  then show ?thesis by (simp add: idle_count_def) (simp add: upd_conn_def)
qed

lemma count_change:
  assumes "distinct xs" and "\<And>j. j \<noteq> i \<Longrightarrow> Q j = P j"
  shows "length (filter Q xs) \<le> length (filter P xs) + 1"
    and "i \<in> set xs \<Longrightarrow> P i \<Longrightarrow> \<not> Q i \<Longrightarrow> length (filter Q xs) + 1 = length (filter P xs)"
proof -
  have s: "set (filter Q xs) \<subseteq> insert i (set (filter P xs))" using assms(2) by auto
  have c: "length (filter R xs) = card (set (filter R xs))" for R
    using assms(1) by (simp add: distinct_card del: set_filter)
  have "card (set (filter Q xs)) \<le> card (insert i (set (filter P xs)))" by (rule card_mono [OF _ s]) simp
  also have "\<dots> \<le> card (set (filter P xs)) + 1" by (simp add: card_insert_if del: set_filter)
  finally show "length (filter Q xs) \<le> length (filter P xs) + 1" using c by metis
  assume h: "i \<in> set xs" "P i" "\<not> Q i"
  have "x \<in> set (filter P xs) \<longleftrightarrow> x \<in> insert i (set (filter Q xs))" for x
    using assms(2) [of x] h by (cases "x = i") simp_all
  then have "set (filter P xs) = insert i (set (filter Q xs))" by blast
  moreover have "i \<notin> set (filter Q xs)" using h by simp
  ultimately have "card (set (filter P xs)) = Suc (card (set (filter Q xs)))" by simp
  then show "length (filter Q xs) + 1 = length (filter P xs)" using c [of Q] c [of P] by linarith
qed

lemma idle_take:
  assumes "i \<in> set (transfer_conns p)" and "cn_transfers (pl_conns p ! i) = 0"
  shows "idle_count (take_conn i p) + 1 = idle_count p"
proof -
  let ?q = "take_conn i p"
  have q: "cn_transfers (pl_conns ?q ! i) = 1" "\<And>j. j \<noteq> i \<Longrightarrow> pl_conns ?q ! j = pl_conns p ! j"
    using transfer_conns_bound [OF assms(1)] assms(2) by (simp_all add: take_conn_def upd_conn_def)
  show ?thesis
    using count_change(2) [OF transfer_conns_distinct, of i "\<lambda>j. cn_transfers (pl_conns ?q ! j) = 0"
        "\<lambda>j. cn_transfers (pl_conns p ! j) = 0" p] q assms
    by (simp add: idle_count_def take_conn_def)
qed

lemma idle_release: "idle_count (release i p) \<le> idle_count p + 1"
proof -
  let ?q = "release i p"
  have "pl_conns ?q ! j = pl_conns p ! j" if "j \<noteq> i" for j using that by (simp add: release_def upd_conn_def)
  then show ?thesis
    using count_change(1) [OF transfer_conns_distinct, of i "\<lambda>j. cn_transfers (pl_conns ?q ! j) = 0"
        "\<lambda>j. cn_transfers (pl_conns p ! j) = 0" p]
    by (simp add: idle_count_def release_def)
qed

lemma take_conn_inv: "pool_inv p \<Longrightarrow> i < length (pl_conns p) \<Longrightarrow> pool_inv (take_conn i p)"
  unfolding take_conn_def by (rule upd_conn_inv) (auto simp: pool_inv_def)

lemma acquire_cases:
  obtains (idle) i where "freeConn p = Some i" "acquire p = (Some i, take_conn i p)"
  | (shared) i where "freeConn p = None" "\<not> canGrow p" "i = fst (leastLoaded p)"
      "acquire p = (Some i, take_conn i (p\<lparr>pl_rr := pl_rr p + 1\<rparr>))"
  | (dial) "freeConn p = None" "canGrow p" "acquire p = (None, startDial p)"
proof (cases "freeConn p")
  case None
  show ?thesis
  proof (cases "canGrow p")
    case False
    then show ?thesis using shared [of "fst (leastLoaded p)"] None leastLoaded_snd [of p]
      by (cases "leastLoaded p") (simp add: acquire_def)
  qed (use None dial in \<open>simp add: acquire_def\<close>)
qed (use idle in \<open>simp add: acquire_def\<close>)

lemma pool_pass_goes:
  assumes "pool_inv p" and "cl_pass pool_client p = Goes p'"
  shows "pool_inv p' \<and> (\<not> \<not> canGrow p \<longrightarrow> \<not> \<not> canGrow p' \<and> idle_count p' \<le> idle_count p - 1)"
proof (cases p rule: acquire_cases)
  case (idle i)
  then show ?thesis using assms freeConn_Some [OF idle(1)] idle_take [of i p] take_conn_inv [of p i] transfer_conns_bound [of i p]
    by (auto simp: take_conn_def)
next
  case (shared i)
  have "pool_inv (take_conn i (p\<lparr>pl_rr := pl_rr p + 1\<rparr>))"
    by (rule take_conn_inv) (use assms shared(3) leastLoaded_bound [of p] in \<open>simp_all add: pool_inv_def\<close>)
  then show ?thesis using assms shared by auto
qed (use assms in auto)

lemma canGrow_dialing [simp]: "canGrow (p\<lparr>pl_dialing := b\<rparr>) = canGrow p"
  by (simp add: canGrow_def)

lemma pool_pass_waits:
  assumes "pool_inv p" and "cl_pass pool_client p = Waits p'"
  shows "pool_inv p' \<and> idle_count p' \<le> 0 \<and> \<not> \<not> canGrow p' \<and> pl_dialing p'"
proof (cases p rule: acquire_cases)
  case dial
  then have p': "p' = startDial p" using assms(2) by simp
  have "idle_count (p\<lparr>pl_dialing := True\<rparr>) = idle_count p" by (simp add: idle_count_def transfer_conns_def)
  then show ?thesis using dial assms(1) p' freeConn_None [of p] by (auto simp: startDial_def pool_inv_def canGrow_def)
qed (use assms in auto)

lemma release_inv: "pool_inv p \<Longrightarrow> i < length (pl_conns p) \<Longrightarrow> pool_inv (release i p)"
  unfolding release_def by (rule upd_conn_inv) (auto simp: pool_inv_def)

lemma pool_cast_inv: "pool_inv p \<Longrightarrow> pl_dialing p \<Longrightarrow> pool_inv (dial_done ok p)"
  by (auto simp: pool_inv_def dial_done_def Let_def new_conn_def)

lemma pool_quiet:
  assumes "pool_inv p" and "cl_quiet pool_client p p'"
  shows "pool_inv p' \<and> (\<not> \<not> canGrow p \<longrightarrow> \<not> \<not> canGrow p' \<and> idle_count p' \<le> idle_count p) \<and> pl_dialing p' = pl_dialing p"
proof -
  have "pool_inv (shut_conns n p)" "pl_dialing (shut_conns n p) = pl_dialing p" for n
    using assms(1) by (auto simp: pool_inv_def shut_conns_def dest: in_set_takeD in_set_dropD)
  moreover have "\<not> canGrow p" if "pl_closed p" using that by (simp add: canGrow_def)
  moreover have "pool_inv (conn_begin i p)" "pool_inv (conn_finish i p)" if "i < length (pl_conns p)" for i
    unfolding conn_begin_def conn_finish_def
    by (rule upd_conn_inv; use assms(1) that in \<open>simp add: pool_inv_def\<close>)+
  moreover have "idle_count (conn_begin i p) = idle_count p" "idle_count (conn_finish i p) = idle_count p"
    "canGrow (conn_begin i p) = canGrow p" "canGrow (conn_finish i p) = canGrow p"
    "pl_dialing (conn_begin i p) = pl_dialing p" "pl_dialing (conn_finish i p) = pl_dialing p" for i
    unfolding conn_begin_def conn_finish_def by (simp_all add: idle_same)
  moreover have "pool_inv (snd (pick p))" "idle_count (snd (pick p)) = idle_count p" "canGrow (snd (pick p)) = canGrow p"
    "pl_dialing (snd (pick p)) = pl_dialing p"
    using assms(1) by (simp_all add: pick_def leastLoaded_snd)
  ultimately show ?thesis using assms(2) by auto
qed

interpretation pool: cond_var pool_client pool_inv idle_count "\<lambda>p. \<not> canGrow p"
proof
  fix p p'
  assume inv: "pool_inv p"
  show "pool_inv p' \<and> idle_count p' \<le> 0 \<and> \<not> \<not> canGrow p'" if "cl_pass pool_client p = Waits p'"
    using pool_pass_waits [OF inv that] by blast
  show "pool_inv p' \<and> (\<not> \<not> canGrow p \<longrightarrow> \<not> \<not> canGrow p' \<and> idle_count p' \<le> idle_count p - 1)"
    if "cl_pass pool_client p = Goes p'" using pool_pass_goes [OF inv that] .
  show "pool_inv p' \<and> (\<not> \<not> canGrow p \<longrightarrow> \<not> \<not> canGrow p' \<and> idle_count p' \<le> idle_count p + 1)"
    if "cl_signal_in pool_client p p' \<or> cl_signal_after pool_client p p'"
    using that release_inv [OF inv] idle_release [of _ p] by (auto simp: release_def)
  show "pool_inv p' \<and> (\<not> \<not> canGrow p \<longrightarrow> \<not> \<not> canGrow p' \<and> idle_count p' \<le> idle_count p)"
    if "cl_quiet pool_client p p'" using pool_quiet [OF inv that] by blast
  show "pool_inv p'" if "cl_cast_in pool_client p p' \<or> cl_cast_after pool_client p p'"
    using that pool_cast_inv [OF inv] inv by (auto simp: pool_inv_def mark_closed_def)
qed

subsection \<open>What the pool guarantees\<close>

lemma sleepers_dialing: "mon_reach pool_client (pool_new b) m \<Longrightarrow> mo_asleep m \<noteq> {} \<longrightarrow> pl_dialing (mo_state m)"
proof (induction rule: mon_reach.induct)
  case start
  then show ?case by (simp add: idle_def)
next
  case (step m m')
  have new: "pool_inv (pool_new b)" by (simp add: pool_inv_def pool_new_def new_conn_def MaxConnections_def)
  have inv: "pool_inv (mo_state m)" using pool.reach_no_lost [OF step.hyps(1) new] by (simp add: pool.no_lost_def)
  from step.hyps(2) step.IH inv show ?case
  proof (cases rule: mon_step.cases)
    case (goes s s' t A W g c)
    then show ?thesis using step.IH inv
      by (cases "mo_state m" rule: acquire_cases) (auto simp: take_conn_def)
  next
    case (waits s s' t A W g c)
    then show ?thesis using pool_pass_waits [of s s'] inv by simp
  next
    case (quiet s s' A W g c)
    then show ?thesis using pool_quiet [of s s'] inv step.IH by simp
  qed (auto simp: release_def mark_closed_def)
qed

text \<open>C21: The pool stays between one and sixteen connections and strands no transfer. In every
  interleaving of transfers, requests, dials and the close, a transfer that sleeps in \<open>acquire\<close> has a
  dial in flight, whose end wakes every sleeper; and the connection a transfer gets carries no other
  transfer unless no connection is free and the pool cannot grow.\<close>

theorem pool_bounded_and_live:
  assumes "mon_reach pool_client (pool_new can_dial) m"
  shows "1 \<le> length (pl_conns (mo_state m)) \<and> length (pl_conns (mo_state m)) \<le> 16 \<and>
    (mo_asleep m \<noteq> {} \<longrightarrow> pl_dialing (mo_state m)) \<and>
    (\<forall>i p'. acquire (mo_state m) = (Some i, p') \<longrightarrow>
       i < length (pl_conns (mo_state m)) \<and>
       (cn_transfers (pl_conns (mo_state m) ! i) = 0 \<or> freeConn (mo_state m) = None \<and> \<not> canGrow (mo_state m)))"
proof -
  have new: "pool_inv (pool_new can_dial)" by (simp add: pool_inv_def pool_new_def new_conn_def MaxConnections_def)
  have inv: "pool_inv (mo_state m)" using pool.reach_no_lost [OF assms new] by (simp add: pool.no_lost_def)
  have acq: "i < length (pl_conns (mo_state m)) \<and>
      (cn_transfers (pl_conns (mo_state m) ! i) = 0 \<or> freeConn (mo_state m) = None \<and> \<not> canGrow (mo_state m))"
    if "acquire (mo_state m) = (Some i, p')" for i p'
    using that
  proof (cases "mo_state m" rule: acquire_cases)
    case (idle j)
    then show ?thesis using that freeConn_Some [OF idle(1)] transfer_conns_bound by auto
  next
    case (shared j)
    then show ?thesis using that leastLoaded_bound [of "mo_state m"] inv by (auto simp: pool_inv_def)
  qed simp
  have "1 \<le> length (pl_conns (mo_state m))" using inv by (simp add: pool_inv_def Suc_le_eq)
  moreover have "length (pl_conns (mo_state m)) \<le> 16" using inv by (simp add: pool_inv_def MaxConnections_def)
  ultimately show ?thesis using sleepers_dialing [OF assms] acq by blast
qed

text \<open>One transfer on the only connection, a second one asleep while the pool dials.\<close>

lemma pool_demo: "\<exists>m. mon_reach pool_client (pool_new True) m \<and> mo_asleep m = {1}"
proof -
  note st = mon_reach.step [where cl = pool_client]
  let ?m = "\<lambda>p A. \<lparr>mo_state = p, mo_asleep = A, mo_woken = {}, mo_signals = 0, mo_casts = 0\<rparr>"
  let ?p = "take_conn 0 (pool_new True)"
  have f: "freeConn (pool_new True) = Some 0" by (simp add: freeConn_def pool_new_def new_conn_def transfer_conns_def)
  have "freeConn ?p = None" "canGrow ?p"
    by (simp_all add: freeConn_def pool_new_def new_conn_def transfer_conns_def take_conn_def upd_conn_def canGrow_def
        MaxConnections_def)
  then have a: "acquire ?p = (None, startDial ?p)" by (simp add: acquire_def)
  have "mon_reach pool_client (pool_new True) (?m (pool_new True) {})"
    using mon_reach.start [of pool_client "pool_new True"] by (simp add: idle_def)
  then have "mon_reach pool_client (pool_new True) (?m ?p {})"
    by (rule st) (use mon_step.goes [of pool_client "pool_new True" ?p 0 "{}" "{}" 0 0] f in \<open>simp add: acquire_def\<close>)
  then have "mon_reach pool_client (pool_new True) (?m (startDial ?p) {1})"
    by (rule st) (use mon_step.waits [of pool_client ?p "startDial ?p" 1 "{}" "{}" 0 0] a in simp)
  then show ?thesis by (intro exI [of _ "?m (startDial ?p) {1}"]) simp
qed

theorem pool_bounded_and_live_witness:
  "\<exists>m. mon_reach pool_client (pool_new True) m \<and> mo_asleep m = {1} \<and> pl_dialing (mo_state m)"
proof -
  obtain m where m: "mon_reach pool_client (pool_new True) m" "mo_asleep m = {1}" using pool_demo by blast
  have "mo_asleep m \<noteq> {} \<longrightarrow> pl_dialing (mo_state m)" using pool_bounded_and_live [OF m(1)] by (elim conjE)
  with m show ?thesis by (intro exI [of _ m]) simp
qed

text \<open>A connection that carries a transfer but has nothing outstanding is never reused while the pool
  can grow: a second transfer always dials.\<close>

lemma busy_connections_dial:
  assumes "\<forall>c \<in> set (pl_conns p). 0 < cn_transfers c \<and> cn_inflight c = 0" and "canGrow p"
  shows "acquire p = (None, startDial p)"
proof (cases p rule: acquire_cases)
  case (idle i)
  then have "i < length (pl_conns p)" "cn_transfers (pl_conns p ! i) = 0"
    using freeConn_Some [OF idle(1)] transfer_conns_bound by auto
  moreover from this have "0 < cn_transfers (pl_conns p ! i)" using bspec [OF assms(1) nth_mem [of i]] by simp
  ultimately show ?thesis by simp
qed (use assms(2) in auto)

text \<open>A dial that ends after \<open>Close\<close> leaves a connection that nothing shuts.\<close>

lemma dial_after_close_is_left_open:
  assumes "n = length (pl_conns p)"
  shows "\<exists>c \<in> set (pl_conns (dial_done True (shut_conns n (mark_closed p)))). \<not> cn_shut c"
  by (simp add: dial_done_def Let_def new_conn_def)

end
