(* ===== verification/Remote.thy ===== *)
theory Remote
  imports Location Engine
begin

text \<open>
  A host reached over SFTP, internal/vfs/sftp.go, as an \<open>fs\<close> over what the \<open>sftp\<close> client library
  answers (\<open>sftp\<close>, a parameter). Which of the pool's connections carries a request is the matter of
  Pool; all of them reach the same host, so an operation here is the request itself.
\<close>

subsection \<open>The client library\<close>

text \<open>\<open>sc_getwd\<close> is the login directory as the first request for it finds it; \<open>sc_open_excl\<close> is an exclusive
  create; \<open>sc_statvfs\<close> gives the fragment size, the block size and the available blocks. \<open>sc_random\<close>
  stands for \<open>crypto/rand\<close>: the bytes of each attempt.\<close>

record 'w sftp =
  sc_has_extension :: "string \<Rightarrow> bool"
  sc_getwd :: "goerr + string"
  sc_lstat :: "'w \<Rightarrow> string \<Rightarrow> goerr + file_info"
  sc_stat :: "'w \<Rightarrow> string \<Rightarrow> goerr + file_info"
  sc_read_dir :: "'w \<Rightarrow> string \<Rightarrow> goerr + file_info list"
  sc_readlink :: "'w \<Rightarrow> string \<Rightarrow> goerr + string"
  sc_symlink :: "string \<Rightarrow> string \<Rightarrow> 'w \<Rightarrow> goerr option \<times> 'w"
  sc_link :: "string \<Rightarrow> string \<Rightarrow> 'w \<Rightarrow> goerr option \<times> 'w"
  sc_mkdir :: "string \<Rightarrow> 'w \<Rightarrow> goerr option \<times> 'w"
  sc_mkdir_all :: "string \<Rightarrow> 'w \<Rightarrow> goerr option \<times> 'w"
  sc_remove :: "string \<Rightarrow> 'w \<Rightarrow> goerr option \<times> 'w"
  sc_remove_all :: "string \<Rightarrow> 'w \<Rightarrow> goerr option \<times> 'w"
  sc_rename :: "string \<Rightarrow> string \<Rightarrow> 'w \<Rightarrow> goerr option \<times> 'w"
  sc_posix_rename :: "string \<Rightarrow> string \<Rightarrow> 'w \<Rightarrow> goerr option \<times> 'w"
  sc_chmod :: "string \<Rightarrow> filemode \<Rightarrow> 'w \<Rightarrow> goerr option \<times> 'w"
  sc_chown :: "string \<Rightarrow> int \<Rightarrow> int \<Rightarrow> 'w \<Rightarrow> goerr option \<times> 'w"
  sc_chtimes :: "string \<Rightarrow> int \<Rightarrow> int \<Rightarrow> 'w \<Rightarrow> goerr option \<times> 'w"
  sc_open :: "'w \<Rightarrow> string \<Rightarrow> goerr + reader"
  sc_open_excl :: "string \<Rightarrow> 'w \<Rightarrow> (goerr + 'w gofile) \<times> 'w"
  sc_statvfs :: "'w \<Rightarrow> string \<Rightarrow> goerr + (int \<times> int \<times> int)"
  sc_random :: "'w \<Rightarrow> nat \<Rightarrow> goerr + bytes"

subsection \<open>Paths\<close>

text \<open>\<open>home\<close> after its \<open>Once\<close>: empty when the working directory is unknown.\<close>

definition remote_home :: "'w sftp \<Rightarrow> string" where
  "remote_home sc = (case sc_getwd sc of Inl e \<Rightarrow> [] | Inr wd \<Rightarrow> wd)"

definition remote_abs :: "'w sftp \<Rightarrow> string \<Rightarrow> string \<Rightarrow> goerr + string" where
  "remote_abs sc host p =
     (if path_is_abs p then Inr (path_clean p)
      else if remote_home sc = []
      then Inl (NewErr ''cannot resolve relative path %q on %s: remote working directory unknown'' [p, host])
      else Inr (path_join [remote_home sc, p]))"

definition remote_rel :: "string \<Rightarrow> string \<Rightarrow> string + string" where
  "remote_rel basepath target = rel_posix (path_clean basepath) (path_clean target)"

subsection \<open>Directory operations\<close>

definition remote_mkdir :: "'w sftp \<Rightarrow> string \<Rightarrow> filemode \<Rightarrow> 'w \<Rightarrow> goerr option \<times> 'w" where
  "remote_mkdir sc name perm w =
     (let (err, w) = sc_mkdir sc name w in
      if err \<noteq> None then (err, w)
      else if mode_perm perm \<noteq> 0x1FF then sc_chmod sc name perm w
      else (None, w))"

definition remote_rename :: "'w sftp \<Rightarrow> string \<Rightarrow> string \<Rightarrow> 'w \<Rightarrow> goerr option \<times> 'w" where
  "remote_rename sc from dest w =
     (if sc_has_extension sc ''posix-rename@openssh.com'' then sc_posix_rename sc from dest w
      else
        (let (err, w) = sc_rename sc from dest w in
         if err = None then (None, w)
         else
           (let (rerr, w) = sc_remove sc dest w in
            case rerr of
              Some e \<Rightarrow> if \<not> os_is_not_exist e then (Some e, w) else sc_rename sc from dest w
            | None \<Rightarrow> sc_rename sc from dest w)))"

subsection \<open>Files\<close>

text \<open>A remote file is not an \<open>*os.File\<close>.\<close>

definition remote_open :: "'w sftp \<Rightarrow> 'w \<Rightarrow> string \<Rightarrow> goerr + reader" where
  "remote_open sc w name = map_sum id (\<lambda>f. f\<lparr>rd_is_os := False\<rparr>) (sc_open sc w name)"

definition hex_digit :: "nat \<Rightarrow> char" where
  "hex_digit n = ''0123456789abcdef'' ! n"

fun hex_encode :: "bytes \<Rightarrow> string" where
  "hex_encode [] = []"
| "hex_encode (b # bs) = hex_digit (unat (drop_bit 4 b)) # hex_digit (unat (b AND 0xF)) # hex_encode bs"

text \<open>The attempts of \<open>CreateTemp\<close> that are left, out of a hundred.\<close>

fun temp_attempts ::
  "'w sftp \<Rightarrow> string \<Rightarrow> string \<Rightarrow> string \<Rightarrow> nat \<Rightarrow> 'w \<Rightarrow> (goerr + 'w gofile) option \<times> 'w" where
  "temp_attempts sc dir prefix suffix 0 w = (None, w)"
| "temp_attempts sc dir prefix suffix (Suc left) w =
     (case sc_random sc w left of
        Inl e \<Rightarrow> (Some (Inl e), w)
      | Inr buf \<Rightarrow>
          (case sc_open_excl sc (path_join [dir, prefix @ hex_encode buf @ suffix]) w of
             (Inr f, w) \<Rightarrow> (Some (Inr (f\<lparr>fl_is_os := False\<rparr>)), w)
           | (Inl e, w) \<Rightarrow>
               if \<not> os_is_exist e then (Some (Inl e), w) else temp_attempts sc dir prefix suffix left w))"

definition split_pattern :: "string \<Rightarrow> string \<times> string" where
  "split_pattern pattern =
     (case last_index_byte (CHR ''*'') pattern of
        Some i \<Rightarrow> (take i pattern, drop (Suc i) pattern)
      | None \<Rightarrow> (pattern, []))"

definition remote_create_temp ::
  "'w sftp \<Rightarrow> string \<Rightarrow> string \<Rightarrow> string \<Rightarrow> 'w \<Rightarrow> (goerr + 'w gofile) \<times> 'w" where
  "remote_create_temp sc host dir pattern w =
     (let (prefix, suffix) = split_pattern pattern in
      case temp_attempts sc dir prefix suffix 100 w of
        (Some x, w) \<Rightarrow> (x, w)
      | (None, w) \<Rightarrow>
          (Inl (NewErr ''create temp file in %s: too many collisions'' [host @ '':'' @ dir]), w))"

subsection \<open>Capabilities\<close>

text \<open>Unsigned 64-bit arithmetic, then \<open>int64\<close>.\<close>

definition remote_avail :: "'w sftp \<Rightarrow> 'w \<Rightarrow> string \<Rightarrow> int option" where
  "remote_avail sc w dir =
     (case sc_statvfs sc w dir of
        Inl e \<Rightarrow> None
      | Inr (frsize, bsize, bavail) \<Rightarrow>
          (let unit = (if frsize = 0 then bsize else frsize) in Some (wrap64 (uwrap64 (bavail * unit)))))"

definition remote_owner :: "file_info \<Rightarrow> (int \<times> int) option" where
  "remote_owner fi = (case fi_sys fi of SysSftp uid gid \<Rightarrow> Some (uid, gid) | _ \<Rightarrow> None)"

definition remote_fs :: "'w sftp \<Rightarrow> string \<Rightarrow> 'w fs" where
  "remote_fs sc host =
     \<lparr>fs_local = False, fs_host = host, fs_display = (\<lambda>p. host @ '':'' @ p),
      fs_join = (\<lambda>a b. path_join [a, b]), fs_clean = path_clean, fs_dir = path_dir, fs_base = path_base,
      fs_is_abs = path_is_abs, fs_abs = remote_abs sc host, fs_rel = remote_rel, fs_match = path_match,
      fs_sep = ''/'',
      fs_lstat = sc_lstat sc, fs_stat = sc_stat sc, fs_read_dir = sc_read_dir sc,
      fs_readlink = sc_readlink sc, fs_symlink = sc_symlink sc, fs_link = sc_link sc,
      fs_mkdir = remote_mkdir sc, fs_mkdir_all = (\<lambda>p m. sc_mkdir_all sc p),
      fs_remove = sc_remove sc, fs_remove_all = sc_remove_all sc, fs_rename = remote_rename sc,
      fs_chmod = sc_chmod sc, fs_chown = sc_chown sc, fs_chtimes = sc_chtimes sc,
      fs_open = remote_open sc, fs_create_temp = remote_create_temp sc host,
      fs_avail = remote_avail sc, fs_owner = remote_owner, fs_file_id = (\<lambda>fi. None), fs_dev = (\<lambda>fi. None),
      fs_same_file = (\<lambda>a b. False)\<rparr>"

text \<open>\<open>Dial\<close> of a location gives the filesystem of its label.\<close>

definition dial_remote :: "'w sftp \<Rightarrow> location \<Rightarrow> 'w fs" where
  "dial_remote sc loc = remote_fs sc (hostLabel loc)"

subsection \<open>What the client library documents\<close>

text \<open>
  The server's files as a map from names to bytes. Version 3 of the protocol: a rename refuses an existing
  destination and a missing source, and an operation that reports an error has changed nothing; the
  exclusive create fails with \<open>os.ErrExist\<close> only where the name is taken.
\<close>

definition moved :: "('w \<Rightarrow> string \<Rightarrow> bytes option) \<Rightarrow> string \<Rightarrow> string \<Rightarrow> 'w \<Rightarrow> 'w \<Rightarrow> bool" where
  "moved look from dest w w' \<longleftrightarrow> look w from \<noteq> None \<and> look w' = (look w)(from := None, dest := look w from)"

definition server :: "'w sftp \<Rightarrow> ('w \<Rightarrow> string \<Rightarrow> bytes option) \<Rightarrow> bool" where
  "server sc look \<longleftrightarrow>
     (\<forall>from dest w. case sc_posix_rename sc from dest w of
        (None, w') \<Rightarrow> moved look from dest w w' | (Some e, w') \<Rightarrow> look w' = look w) \<and>
     (\<forall>from dest w. case sc_rename sc from dest w of
        (None, w') \<Rightarrow> look w dest = None \<and> moved look from dest w w' | (Some e, w') \<Rightarrow> look w' = look w) \<and>
     (\<forall>p w. case sc_remove sc p w of
        (None, w') \<Rightarrow> look w' = (look w)(p := None) | (Some e, w') \<Rightarrow> look w' = look w) \<and>
     (\<forall>p w. case sc_open_excl sc p w of
        (Inr f, w') \<Rightarrow> look w p = None \<and> look w' = (look w)(p \<mapsto> []) | (Inl e, w') \<Rightarrow> look w' = look w)"

lemma server_posix:
  assumes "server sc look" and "sc_posix_rename sc src dest w = (r, w')"
  shows "if r = None then moved look src dest w w' else look w' = look w"
  using assms(1) [unfolded server_def, THEN conjunct1, THEN spec, of src, THEN spec, of dest, THEN spec, of w] assms(2)
  by (cases r) simp_all

lemma server_rename:
  assumes "server sc look" and "sc_rename sc src dest w = (r, w')"
  shows "if r = None then look w dest = None \<and> moved look src dest w w' else look w' = look w"
  using assms(1) [unfolded server_def, THEN conjunct2, THEN conjunct1, THEN spec, of src, THEN spec, of dest, THEN spec, of w] assms(2)
  by (cases r) simp_all

lemma server_remove:
  assumes "server sc look" and "sc_remove sc p w = (r, w')"
  shows "if r = None then look w' = (look w)(p := None) else look w' = look w"
  using assms(1) [unfolded server_def, THEN conjunct2, THEN conjunct2, THEN conjunct1, THEN spec, of p, THEN spec, of w] assms(2)
  by (cases r) simp_all

lemma server_open_excl:
  assumes "server sc look" and "sc_open_excl sc p w = (r, w')"
  shows "case r of Inr f \<Rightarrow> look w p = None \<and> look w' = (look w)(p \<mapsto> []) | Inl e \<Rightarrow> look w' = look w"
  using assms(1) [unfolded server_def, THEN conjunct2, THEN conjunct2, THEN conjunct2, THEN spec, of p, THEN spec, of w] assms(2)
  by (cases r) simp_all

subsection \<open>Rename and exclusive create\<close>

text \<open>A remote rename that reports success has replaced the destination by the source. One that reports
  an error has changed nothing when the server has the posix-rename extension; without it, the destination
  may have been removed as well, and nothing else.\<close>

lemma remote_rename_replaces:
  assumes srv: "server sc look" and ren: "remote_rename sc src dest w = (r, w')" and ne: "src \<noteq> dest"
  shows "(r = None \<longrightarrow> moved look src dest w w') \<and>
    (r \<noteq> None \<longrightarrow> look w' = look w \<or>
       \<not> sc_has_extension sc ''posix-rename@openssh.com'' \<and> look w' = (look w)(dest := None))"
proof (cases "sc_has_extension sc ''posix-rename@openssh.com''")
  case True
  then show ?thesis using ren server_posix [OF srv, where src = src and dest = dest and w = w and r = r and w' = w'] by (simp add: remote_rename_def split: if_splits)
next
  case False
  obtain e1 w1 where a: "sc_rename sc src dest w = (e1, w1)" by (metis prod.exhaust)
  obtain e2 w2 where b: "sc_remove sc dest w1 = (e2, w2)" by (metis prod.exhaust)
  obtain e3 w3 where c: "sc_rename sc src dest w2 = (e3, w3)" by (metis prod.exhaust)
  note facts = server_rename [OF srv a] server_remove [OF srv b] server_rename [OF srv c]
  show ?thesis using False ren a b c facts ne
    by (auto simp: remote_rename_def moved_def split: if_splits option.splits)
qed

text \<open>A server without the extension refuses to rename a missing source, and by then the destination has
  been removed: a rename that fails has deleted the file it was to replace.\<close>

theorem failed_rename_deletes_destination:
  assumes srv: "server sc look" and ext: "\<not> sc_has_extension sc ''posix-rename@openssh.com''"
    and gone: "look w src = None" and rm: "fst (sc_remove sc dest (snd (sc_rename sc src dest w))) = None"
  shows "\<exists>e w'. remote_rename sc src dest w = (Some e, w') \<and> look w' = (look w)(dest := None)"
proof -
  obtain e1 w1 where a: "sc_rename sc src dest w = (e1, w1)" by (metis prod.exhaust)
  obtain w2 where b: "sc_remove sc dest w1 = (None, w2)" using rm a by (metis prod.collapse snd_conv)
  obtain e3 w3 where c: "sc_rename sc src dest w2 = (e3, w3)" by (metis prod.exhaust)
  note facts = server_rename [OF srv a] server_remove [OF srv b] server_rename [OF srv c]
  then have w1: "e1 \<noteq> None" "look w1 = look w" using gone by (auto simp: moved_def split: if_splits)
  then have w2: "look w2 = (look w)(dest := None)" using facts(2) by simp
  then have "look w2 src = None" using gone by simp
  then have "e3 \<noteq> None" "look w3 = look w2" using facts(3) by (auto simp: moved_def split: if_splits)
  then show ?thesis using ext a b c w1 w2 by (auto simp: remote_rename_def)
qed

text \<open>One new empty file, named after the pattern.\<close>

definition created :: "('w \<Rightarrow> string \<Rightarrow> bytes option) \<Rightarrow> string \<Rightarrow> string \<Rightarrow> string \<Rightarrow> 'w \<Rightarrow> 'w \<Rightarrow> bool" where
  "created look dir prefix suffix w w' \<longleftrightarrow>
     (\<exists>buf. let p = path_join [dir, prefix @ hex_encode buf @ suffix] in look w p = None \<and> look w' = (look w)(p \<mapsto> []))"

lemma created_cong: "look w = look w1 \<Longrightarrow> created look dir prefix suffix w = created look dir prefix suffix w1"
  by (simp add: created_def fun_eq_iff)

lemma temp_attempts_fresh:
  assumes "server sc look" and "temp_attempts sc dir prefix suffix k w = (Some x, w')"
  shows "case x of Inr f \<Rightarrow> created look dir prefix suffix w w' | Inl e \<Rightarrow> look w' = look w"
  using assms(2)
proof (induction k arbitrary: w)
  case (Suc k)
  show ?case
  proof (cases "sc_random sc w k")
    case (Inr buf)
    obtain r w1 where o1: "sc_open_excl sc (path_join [dir, prefix @ hex_encode buf @ suffix]) w = (r, w1)"
      by (metis prod.exhaust)
    note srv = server_open_excl [OF assms(1) o1]
    show ?thesis
    proof (cases r)
      case (Inl e)
      then have same: "look w1 = look w" using srv by simp
      show ?thesis
      proof (cases "os_is_exist e")
        case True
        then have "temp_attempts sc dir prefix suffix k w1 = (Some x, w')" using Suc.prems Inr Inl o1 by simp
        from Suc.IH [OF this] show ?thesis using same created_cong [OF same, of dir prefix suffix] by (cases x) simp_all
      next
        case False
        then have "x = Inl e \<and> w' = w1" using Suc.prems Inr Inl o1 by auto
        then show ?thesis using same by simp
      qed
    qed (use Suc.prems Inr o1 srv in \<open>auto simp: created_def Let_def\<close>)
  qed (use Suc.prems in auto)
qed simp

lemma temp_attempts_spent:
  assumes "server sc look" and "temp_attempts sc dir prefix suffix k w = (None, w')"
  shows "look w' = look w"
  using assms(2)
proof (induction k arbitrary: w)
  case (Suc k)
  show ?case
  proof (cases "sc_random sc w k")
    case (Inr buf)
    obtain r w1 where o1: "sc_open_excl sc (path_join [dir, prefix @ hex_encode buf @ suffix]) w = (r, w1)"
      by (metis prod.exhaust)
    note srv = server_open_excl [OF assms(1) o1]
    show ?thesis using Suc.prems Suc.IH [of w1] Inr o1 srv by (cases r) (auto split: if_splits)
  qed (use Suc.prems in auto)
qed simp

text \<open>A remote temporary file is new. \<open>CreateTemp\<close> either creates one empty file, at a name that was free and has the
  pattern's text around random digits, or reports an error and leaves the server's files as they were.\<close>

lemma remote_temp_is_fresh:
  assumes srv: "server sc look" and ct: "remote_create_temp sc host dir pattern w = (x, w')"
    and pat: "pattern = prefix @ ''*'' @ suffix" "CHR ''*'' \<notin> set suffix"
  shows "case x of Inr f \<Rightarrow> created look dir prefix suffix w w' | Inl e \<Rightarrow> look w' = look w"
proof -
  have sp: "split_pattern pattern = (prefix, suffix)"
    using last_index_byte_append [OF pat(2), of prefix] pat(1) by (simp add: split_pattern_def)
  obtain y w1 where t: "temp_attempts sc dir prefix suffix 100 w = (y, w1)" by (metis prod.exhaust)
  show ?thesis
  proof (cases y)
    case None
    then show ?thesis using ct sp t temp_attempts_spent [OF srv, of dir prefix suffix 100 w w1]
      by (auto simp: remote_create_temp_def)
  next
    case (Some z)
    then show ?thesis using ct sp t temp_attempts_fresh [OF srv, of dir prefix suffix 100 w z w1]
      by (auto simp: remote_create_temp_def)
  qed
qed

end
