(* ===== verification/Prefetch.thy ===== *)
theory Prefetch
  imports Walk CondVar "HOL-Library.Multiset"
begin

text \<open>
  The listing prefetcher, internal/engine/walk.go from \<open>listingWorkerCount\<close> on: a stack of directories to
  list, a map of results by displayed path, and workers that list what is on the stack. The tasks in
  the workers' hands are kept in \<open>pf_reading\<close>. A listing is done at whatever world the disk is in at
  that moment. The workers' waiting loop is a client of the monitor of CondVar.
\<close>

subsection \<open>Sizes\<close>

definition listingWorkerCount :: "int \<Rightarrow> int" where
  "listingWorkerCount procs =
     (let n = 4 * procs; n = (if n < 8 then 8 else n); n = (if n > 32 then 32 else n) in n)"

definition listingPrefetchWorkers :: "int \<Rightarrow> int" where
  "listingPrefetchWorkers procs = (let n = listingWorkerCount procs - 1 in if n < 1 then 1 else n)"

lemma listing_workers_bounds: "7 \<le> listingPrefetchWorkers procs \<and> listingPrefetchWorkers procs \<le> 31"
  by (simp add: listingPrefetchWorkers_def listingWorkerCount_def Let_def)

subsection \<open>State and operations\<close>

record 'w listing_task =
  lt_fs :: "'w fs"
  lt_path :: string
  lt_key :: string

datatype listing_result = Pending | Listed "goerr + file_info list"

record 'w prefetcher =
  pf_stack :: "'w listing_task list"
  pf_results :: "string \<rightharpoonup> listing_result"
  pf_closed :: bool
  pf_reading :: "'w listing_task list"

definition prefetcher_new :: "'w prefetcher" where
  "prefetcher_new = \<lparr>pf_stack = [], pf_results = Map.empty, pf_closed = False, pf_reading = []\<rparr>"

definition schedule :: "'w fs \<Rightarrow> string \<Rightarrow> 'w prefetcher \<Rightarrow> 'w prefetcher" where
  "schedule fsys path p =
     (let key = fs_display fsys path in
      if pf_closed p then p
      else if pf_results p key \<noteq> None then p
      else p\<lparr>pf_results := (pf_results p)(key \<mapsto> Pending),
             pf_stack := pf_stack p @ [\<lparr>lt_fs = fsys, lt_path = path, lt_key = key\<rparr>]\<rparr>)"

text \<open>The waiting pass of a worker: sleep, end, or take the task on top of the stack.\<close>

definition next_task :: "'w prefetcher \<Rightarrow> 'w prefetcher pass" where
  "next_task p =
     (if pf_stack p = [] \<and> \<not> pf_closed p then Waits p
      else if pf_stack p = [] then Goes p
      else Goes (p\<lparr>pf_stack := butlast (pf_stack p), pf_reading := pf_reading p @ [last (pf_stack p)]\<rparr>))"

text \<open>The listing of the \<open>i\<close>-th task in hand, done at the world \<open>w\<close>.\<close>

definition finish_task :: "nat \<Rightarrow> 'w \<Rightarrow> 'w prefetcher \<Rightarrow> 'w prefetcher" where
  "finish_task i w p =
     (let task = pf_reading p ! i;
          p = p\<lparr>pf_reading := take i (pf_reading p) @ drop (Suc i) (pf_reading p)\<rparr>
      in case pf_results p (lt_key task) of
           Some _ \<Rightarrow> p\<lparr>pf_results := (pf_results p)(lt_key task \<mapsto> Listed (fs_read_dir (lt_fs task) w (lt_path task)))\<rparr>
         | None \<Rightarrow> p)"

datatype taken = NotScheduled | Listing "goerr + file_info list" | MustWait

text \<open>\<open>take\<close>; when the listing and the cancellation are both there, Go's select may choose either.\<close>

definition take_listing :: "bool \<Rightarrow> bool \<Rightarrow> 'w fs \<Rightarrow> string \<Rightarrow> 'w prefetcher \<Rightarrow> taken \<times> 'w prefetcher" where
  "take_listing stopped choose_stop fsys path p =
     (let key = fs_display fsys path in
      case pf_results p key of
        None \<Rightarrow> (NotScheduled, p)
      | Some Pending \<Rightarrow> if stopped then (NotScheduled, p) else (MustWait, p)
      | Some (Listed x) \<Rightarrow>
          if stopped \<and> choose_stop then (NotScheduled, p)
          else (Listing x, p\<lparr>pf_results := (pf_results p)(key := None)\<rparr>))"

definition close_prefetch :: "'w prefetcher \<Rightarrow> 'w prefetcher" where
  "close_prefetch p = p\<lparr>pf_closed := True, pf_stack := []\<rparr>"

definition drop_results :: "'w prefetcher \<Rightarrow> 'w prefetcher" where
  "drop_results p = p\<lparr>pf_results := Map.empty\<rparr>"

text \<open>\<open>prefetchDir\<close>: what the walk schedules ahead of itself.\<close>

definition prefetchDir ::
  "('w, 'd) ctx \<Rightarrow> 'w src_root \<Rightarrow> string \<Rightarrow> file_info \<Rightarrow> 'w runner \<Rightarrow> 'w prefetcher \<Rightarrow> 'w prefetcher" where
  "prefetchDir cx rt srcDir fi r p =
     (if \<not> is_dir (fi_mode fi) \<or> halted cx r then p
      else
        (let path = fs_join (sr_fs rt) srcDir (fi_name fi) in
         if excluded cx rt path True then p
         else if other_device cx rt fi r then p
         else schedule (sr_fs rt) path p))"

subsection \<open>The workers as a monitor\<close>

definition prefetch_client :: "'w prefetcher client" where
  "prefetch_client =
     \<lparr>cl_pass = next_task, cl_signal_in = (\<lambda>p p'. \<exists>fsys path. p' = schedule fsys path p),
      cl_signal_after = (\<lambda>p p'. False), cl_cast_in = (\<lambda>p p'. False),
      cl_cast_after = (\<lambda>p p'. p' = close_prefetch p),
      cl_quiet = (\<lambda>p p'. (\<exists>i < length (pf_reading p). \<exists>w. p' = finish_task i w p) \<or>
        (\<exists>c cc fsys path. p' = snd (take_listing c cc fsys path p)) \<or>
        pf_closed p \<and> p' = drop_results p)\<rparr>"

lemma prefetch_client_simps [simp]:
  "cl_pass prefetch_client = next_task" "\<not> cl_signal_after prefetch_client p p'" "\<not> cl_cast_in prefetch_client p p'"
  "cl_signal_in prefetch_client p p' = (\<exists>fsys path. p' = schedule fsys path p)"
  "cl_cast_after prefetch_client p p' = (p' = close_prefetch p)"
  "cl_quiet prefetch_client p p' = ((\<exists>i < length (pf_reading p). \<exists>w. p' = finish_task i w p) \<or>
     (\<exists>c cc fsys path. p' = snd (take_listing c cc fsys path p)) \<or> pf_closed p \<and> p' = drop_results p)"
  by (simp_all add: prefetch_client_def)

text \<open>Every task on the stack or in a worker's hand is awaited by a pending result of its own, every
  pending result has its task until the close, and every finished one is a listing of its path.\<close>

definition tasks :: "'w prefetcher \<Rightarrow> 'w listing_task list" where
  "tasks p = pf_stack p @ pf_reading p"

definition prefetch_inv :: "'w prefetcher \<Rightarrow> bool" where
  "prefetch_inv (p :: 'w prefetcher) \<longleftrightarrow>
     (\<forall>t \<in> set (tasks p). lt_key t = fs_display (lt_fs t) (lt_path t)) \<and>
     (\<not> pf_closed p \<longrightarrow>
        distinct (map lt_key (tasks p)) \<and> (\<forall>key. pf_results p key = Some Pending \<longleftrightarrow> key \<in> lt_key ` set (tasks p))) \<and>
     (\<forall>key x. pf_results p key = Some (Listed x) \<longrightarrow>
        (\<exists>(fsys :: 'w fs) w path. key = fs_display fsys path \<and> x = fs_read_dir fsys w path))"

lemma schedule_cases:
  obtains (none) "schedule fsys path p = p"
  | (added) "\<not> pf_closed p" "pf_results p (fs_display fsys path) = None"
      "schedule fsys path p = p\<lparr>pf_results := (pf_results p)(fs_display fsys path \<mapsto> Pending),
         pf_stack := pf_stack p @ [\<lparr>lt_fs = fsys, lt_path = path, lt_key = fs_display fsys path\<rparr>]\<rparr>"
  unfolding schedule_def Let_def by (cases "pf_closed p \<or> pf_results p (fs_display fsys path) \<noteq> None") auto

lemma schedule_inv:
  assumes "prefetch_inv p"
  shows "prefetch_inv (schedule fsys path p)"
proof (cases rule: schedule_cases [of fsys path p])
  case added
  have "fs_display fsys path \<notin> lt_key ` set (tasks p)"
    using assms added(1,2) unfolding prefetch_inv_def by (metis option.distinct(1))
  then show ?thesis using assms added unfolding prefetch_inv_def tasks_def by auto
qed (use assms in simp)

lemma tasks_mset_facts:
  assumes "mset (tasks p) = mset (tasks p')"
  shows "set (tasks p) = set (tasks p')" "distinct (map lt_key (tasks p)) = distinct (map lt_key (tasks p'))"
  using assms mset_eq_imp_distinct_iff [of "map lt_key (tasks p)" "map lt_key (tasks p')"]
  by (auto dest: mset_eq_setD)

lemma next_task_inv:
  assumes "prefetch_inv p" and "next_task p = Goes p'"
  shows "prefetch_inv p'"
proof (cases "pf_stack p = []")
  case True
  then show ?thesis using assms by (auto simp: next_task_def split: if_splits)
next
  case False
  then obtain ts t where s: "pf_stack p = ts @ [t]" by (metis rev_exhaust)
  then have p': "p' = p\<lparr>pf_stack := ts, pf_reading := pf_reading p @ [t]\<rparr>"
    using assms(2) by (simp add: next_task_def)
  have "mset (tasks p') = mset (tasks p)" using s p' by (simp add: tasks_def)
  from tasks_mset_facts [OF this] show ?thesis using assms(1) p' by (simp add: prefetch_inv_def)
qed

lemma finish_task_inv:
  assumes inv: "prefetch_inv p" and i: "i < length (pf_reading p)"
  shows "prefetch_inv (finish_task i w p)"
proof -
  let ?t = "pf_reading p ! i" and ?rest = "take i (pf_reading p) @ drop (Suc i) (pf_reading p)"
  let ?p = "p\<lparr>pf_reading := ?rest\<rparr>" and ?x = "Listed (fs_read_dir (lt_fs (pf_reading p ! i)) w (lt_path (pf_reading p ! i)))"
  have "mset (pf_reading p) = add_mset ?t (mset ?rest)"
    using arg_cong [OF id_take_nth_drop [OF i], of mset] by simp
  then have m: "mset (tasks p) = mset (?t # tasks ?p)" by (simp add: tasks_def)
  have sets: "set (tasks p) = insert ?t (set (tasks ?p))" using mset_eq_setD [OF m] by simp
  have "mset (map lt_key (tasks p)) = mset (map lt_key (?t # tasks ?p))" using m by (metis mset_map)
  then have "distinct (map lt_key (tasks p)) = distinct (map lt_key (?t # tasks ?p))"
    by (rule mset_eq_imp_distinct_iff)
  then have dist: "\<not> pf_closed p \<Longrightarrow> distinct (map lt_key (tasks ?p)) \<and> lt_key ?t \<notin> lt_key ` set (tasks ?p)"
    using inv by (auto simp: prefetch_inv_def)
  have key: "lt_key ?t = fs_display (lt_fs ?t) (lt_path ?t)" using inv sets by (simp add: prefetch_inv_def)
  show ?thesis
  proof (cases "pf_results p (lt_key ?t)")
    case None
    then have "finish_task i w p = ?p" by (simp add: finish_task_def Let_def)
    moreover have "pf_closed p" using None inv sets unfolding prefetch_inv_def by (metis image_insert insertI1 option.distinct(1))
    ultimately show ?thesis using inv sets by (simp add: prefetch_inv_def)
  next
    case (Some y)
    let ?q = "?p\<lparr>pf_results := (pf_results p)(lt_key ?t \<mapsto> ?x)\<rparr>"
    have q: "finish_task i w p = ?q" using Some by (simp add: finish_task_def Let_def)
    have tq: "tasks ?q = tasks ?p" by (simp add: tasks_def)
    have "\<exists>(fsys :: 'a fs) w path. k = fs_display fsys path \<and> z = fs_read_dir fsys w path" if "pf_results ?q k = Some (Listed z)" for k z
    proof (cases "k = lt_key ?t")
      case True
      then have "z = fs_read_dir (lt_fs ?t) w (lt_path ?t)" using that by simp
      then show ?thesis using True key by blast
    qed (use that inv in \<open>simp add: prefetch_inv_def\<close>)
    moreover have "pf_results ?q k = Some Pending \<longleftrightarrow> k \<in> lt_key ` set (tasks ?q)" if "\<not> pf_closed p" for k
      using that dist [OF that] inv sets unfolding prefetch_inv_def tq by (cases "k = lt_key ?t") auto
    ultimately show ?thesis using inv sets dist unfolding q prefetch_inv_def tq by auto
  qed
qed

lemma take_listing_inv: "prefetch_inv p \<Longrightarrow> prefetch_inv (snd (take_listing c cc fsys path p))"
proof -
  assume inv: "prefetch_inv p"
  have "prefetch_inv (p\<lparr>pf_results := (pf_results p)(k := None)\<rparr>)" if "pf_results p k = Some (Listed x)" for k x
  proof -
    have "tasks (p\<lparr>pf_results := (pf_results p)(k := None)\<rparr>) = tasks p" by (simp add: tasks_def)
    moreover have "k \<notin> lt_key ` set (tasks p)" if "\<not> pf_closed p"
      using inv that \<open>pf_results p k = Some (Listed x)\<close> unfolding prefetch_inv_def
      by (metis listing_result.distinct(1) option.inject)
    ultimately show ?thesis using inv unfolding prefetch_inv_def by auto
  qed
  then show ?thesis using inv
    by (auto simp: take_listing_def Let_def split: option.split listing_result.split)
qed

lemma close_prefetch_inv: "prefetch_inv p \<Longrightarrow> prefetch_inv (close_prefetch p)"
  unfolding prefetch_inv_def close_prefetch_def tasks_def by auto

lemma drop_results_inv: "prefetch_inv p \<Longrightarrow> pf_closed p \<Longrightarrow> prefetch_inv (drop_results p)"
  by (simp add: prefetch_inv_def drop_results_def tasks_def)

interpretation prefetch: cond_var prefetch_client prefetch_inv "\<lambda>p. int (length (pf_stack p))" pf_closed
proof
  fix p p' :: "'w prefetcher"
  assume inv: "prefetch_inv p"
  show "prefetch_inv p' \<and> int (length (pf_stack p')) \<le> 0 \<and> \<not> pf_closed p'" if "cl_pass prefetch_client p = Waits p'"
    using that inv by (auto simp: next_task_def split: if_splits)
  show "prefetch_inv p' \<and> (\<not> pf_closed p \<longrightarrow> \<not> pf_closed p' \<and> int (length (pf_stack p')) \<le> int (length (pf_stack p)) - 1)"
    if "cl_pass prefetch_client p = Goes p'"
  proof -
    from that have g: "next_task p = Goes p'" by simp
    then have "\<not> pf_closed p \<longrightarrow> \<not> pf_closed p' \<and> length (pf_stack p) = Suc (length (pf_stack p'))"
      by (auto simp: next_task_def split: if_splits)
    then show ?thesis using next_task_inv [OF inv g] by auto
  qed
  show "prefetch_inv p' \<and> (\<not> pf_closed p \<longrightarrow> \<not> pf_closed p' \<and> int (length (pf_stack p')) \<le> int (length (pf_stack p)) + 1)"
    if sg: "cl_signal_in prefetch_client p p' \<or> cl_signal_after prefetch_client p p'"
  proof -
    from sg obtain fsys path where "p' = schedule fsys path p" by auto
    then show ?thesis using schedule_inv [OF inv, of fsys path]
      by (cases rule: schedule_cases [of fsys path p]) simp_all
  qed
  show "prefetch_inv p' \<and> (\<not> pf_closed p \<longrightarrow> \<not> pf_closed p' \<and> int (length (pf_stack p')) \<le> int (length (pf_stack p)))"
    if "cl_quiet prefetch_client p p'"
  proof -
    have "pf_closed (finish_task i w p) = pf_closed p" "pf_stack (finish_task i w p) = pf_stack p" for i w
      by (simp_all add: finish_task_def Let_def split: option.split)
    moreover have "pf_closed (snd (take_listing c cc fsys path p)) = pf_closed p"
      "pf_stack (snd (take_listing c cc fsys path p)) = pf_stack p" for c cc fsys path
      by (simp_all add: take_listing_def Let_def split: option.split listing_result.split)
    ultimately show ?thesis
      using that finish_task_inv [OF inv] take_listing_inv [OF inv] drop_results_inv [OF inv] by auto
  qed
  show "prefetch_inv p'" if "cl_cast_in prefetch_client p p' \<or> cl_cast_after prefetch_client p p'"
    using that close_prefetch_inv [OF inv] by simp
qed

subsection \<open>What the prefetcher guarantees\<close>

text \<open>The prefetcher never makes the walk wait for nothing, and hands out only listings of the
  directory asked for. In every interleaving, when \<open>take\<close> must wait before the close, the directory's
  task is on the stack or in a worker's hand, and if it is on the stack while a worker sleeps, a wake-up
  is on its way; and a listing handed out was read from a path that displays as the one asked for.\<close>

lemma prefetch_take_is_served:
  fixes m :: "'w prefetcher monitor"
  assumes "mon_reach prefetch_client prefetcher_new m" and "\<not> pf_closed (mo_state m)"
  shows "case fst (take_listing c cc fsys path (mo_state m)) of
      MustWait \<Rightarrow> fs_display fsys path \<in> lt_key ` set (tasks (mo_state m)) \<and>
        (pf_stack (mo_state m) = [] \<or> mo_asleep m = {} \<or> mo_woken m \<noteq> {} \<or> 0 < mo_signals m \<or> 0 < mo_casts m)
    | Listing x \<Rightarrow> \<exists>(fsys' :: 'w fs) w path'. fs_display fsys' path' = fs_display fsys path \<and> x = fs_read_dir fsys' w path'
    | NotScheduled \<Rightarrow> True"
proof -
  have new: "prefetch_inv prefetcher_new" by (simp add: prefetch_inv_def prefetcher_new_def tasks_def)
  have inv: "prefetch_inv (mo_state m)" using prefetch.reach_no_lost [OF assms(1) new] by (simp add: prefetch.no_lost_def)
  have live: "pf_stack (mo_state m) = [] \<or> mo_asleep m = {} \<or> mo_woken m \<noteq> {} \<or> 0 < mo_signals m \<or> 0 < mo_casts m"
    using prefetch.never_stranded [OF assms(1) new] by fastforce
  show ?thesis
  proof (cases "pf_results (mo_state m) (fs_display fsys path)")
    case None
    then show ?thesis by (simp add: take_listing_def)
  next
    case (Some y)
    have pend: "y = Pending \<Longrightarrow> fs_display fsys path \<in> lt_key ` set (tasks (mo_state m))"
      using inv assms(2) Some by (simp add: prefetch_inv_def)
    have lst: "y = Listed x \<Longrightarrow> \<exists>(fsys' :: 'w fs) w path'. fs_display fsys path = fs_display fsys' path' \<and>
        x = fs_read_dir fsys' w path'" for x
      using inv Some by (simp add: prefetch_inv_def)
    show ?thesis
    proof (cases y)
      case Pending
      then show ?thesis using Some pend live by (simp add: take_listing_def)
    next
      case (Listed x)
      then show ?thesis using Some lst [OF Listed] by (simp add: take_listing_def) metis
    qed
  qed
qed

text \<open>The prefetcher lists only what the walk will list. A directory that \<open>prefetchDir\<close> schedules is a
  directory that no pattern excludes and that is not on another device under \<open>--one-file-system\<close>.\<close>

lemma prefetch_only_walked:
  assumes "prefetchDir cx rt srcDir fi r p \<noteq> p"
  shows "is_dir (fi_mode fi) \<and> \<not> halted cx r \<and> \<not> excluded cx rt (fs_join (sr_fs rt) srcDir (fi_name fi)) True \<and>
    \<not> other_device cx rt fi r"
  using assms by (auto simp: prefetchDir_def Let_def split: if_splits)

end
