(* ===== verification/RemoteSpec.thy ===== *)
theory RemoteSpec
  imports Remote Prefetch DemoRun
begin

text \<open>
  What a rename and a temporary file over SFTP leave on the server, evaluated on a server that holds a map
  of files, and the moves between two ports of one host. The listing prefetcher at work comes last.
\<close>

subsection \<open>A server in memory\<close>

type_synonym files = "string \<Rightarrow> bytes option"

definition refused :: "string \<Rightarrow> string \<Rightarrow> 'e \<Rightarrow> goerr" where
  "refused op p e = PathErr op p (Errno EPERM)"

definition dead_file :: "string \<Rightarrow> 'w gofile" where
  "dead_file p = \<lparr>fl_is_os = True, fl_name = p, fl_write = (\<lambda>b w. ((0, Some (Errno EPERM)), w)),
     fl_write_at = (\<lambda>b off w. (Some (Errno EPERM), w)), fl_truncate = (\<lambda>n w. (Some (Errno EPERM), w)),
     fl_sync = (\<lambda>w. (None, w)), fl_chmod = (\<lambda>m w. (None, w)), fl_close = (\<lambda>w. (None, w))\<rparr>"

definition rename_files :: "string \<Rightarrow> string \<Rightarrow> files \<Rightarrow> goerr option \<times> files" where
  "rename_files src dest w =
     (case w src of None \<Rightarrow> (Some (Errno ENOENT), w) | Some b \<Rightarrow> (None, w(src := None, dest := Some b)))"

definition file_server :: "bool \<Rightarrow> files sftp" where
  "file_server posix = \<lparr>sc_has_extension = (\<lambda>x. posix), sc_getwd = Inr ''/home'',
     sc_lstat = (\<lambda>w p. Inl (PathErr ''lstat'' p (Errno ENOENT))), sc_stat = (\<lambda>w p. Inl (PathErr ''stat'' p (Errno ENOENT))),
     sc_read_dir = (\<lambda>w p. Inr []), sc_readlink = (\<lambda>w p. Inl (Errno EINVAL)),
     sc_symlink = (\<lambda>a b w. (Some (Errno EPERM), w)), sc_link = (\<lambda>a b w. (Some (Errno EPERM), w)),
     sc_mkdir = (\<lambda>p w. (None, w)), sc_mkdir_all = (\<lambda>p w. (None, w)),
     sc_remove = (\<lambda>p w. if w p = None then (Some (Errno ENOENT), w) else (None, w(p := None))),
     sc_remove_all = (\<lambda>p w. (None, w(p := None))),
     sc_rename = (\<lambda>src dest w. if w dest \<noteq> None then (Some (Errno EEXIST), w) else rename_files src dest w),
     sc_posix_rename = rename_files,
     sc_chmod = (\<lambda>p m w. (None, w)), sc_chown = (\<lambda>p u g w. (None, w)), sc_chtimes = (\<lambda>p a m w. (None, w)),
     sc_open = (\<lambda>w p. Inl (Errno ENOENT)),
     sc_open_excl = (\<lambda>p w. if w p \<noteq> None then (Inl (Errno EEXIST), w) else (Inr (dead_file p), w(p \<mapsto> []))),
     sc_statvfs = (\<lambda>w p. Inr (4096, 4096, 10)), sc_random = (\<lambda>w k. Inr (replicate 8 (of_nat k)))\<rparr>"

lemma file_server: "server (file_server posix) (\<lambda>w. w)"
  by (auto simp: server_def file_server_def rename_files_def moved_def fun_eq_iff split: option.splits)

lemma file_server_simps [simp]: "sc_has_extension (file_server posix) x = posix"
  by (simp add: file_server_def)

abbreviation two_files :: files where
  "two_files \<equiv> [''/a'' \<mapsto> [1], ''/b'' \<mapsto> [2]]"

theorem remote_rename_replaces_witness:
  "snd (remote_rename (file_server False) ''/a'' ''/b'' two_files) = [''/b'' \<mapsto> [1]]"
proof -
  have "remote_rename (file_server False) ''/a'' ''/b'' two_files =
      (None, snd (remote_rename (file_server False) ''/a'' ''/b'' two_files))"
    by (simp add: remote_rename_def file_server_def rename_files_def)
  from remote_rename_replaces [OF file_server this] show ?thesis
    by (simp add: moved_def fun_eq_iff)
qed

text \<open>The rename of a missing file over an existing one.\<close>

theorem failed_rename_deletes_destination_witness:
  "\<exists>e w'. remote_rename (file_server False) ''/c'' ''/b'' two_files = (Some e, w') \<and> w' ''/b'' = None"
proof -
  have "fst (sc_remove (file_server False) ''/b'' (snd (sc_rename (file_server False) ''/c'' ''/b'' two_files))) = None"
    by (simp add: file_server_def)
  from failed_rename_deletes_destination [OF file_server _ _ this] show ?thesis by fastforce
qed

theorem remote_temp_is_fresh_witness:
  "\<exists>f w'. remote_create_temp (file_server True) ''h'' ''/d'' ''.tmp-*'' two_files = (Inr f, w') \<and>
     created (\<lambda>w. w) ''/d'' ''.tmp-'' [] two_files w'"
proof -
  let ?p = "path_join [''/d'', ''.tmp-'' @ hex_encode (replicate 8 (99 :: 8 word)) @ []]"
  have p: "?p = ''/d/.tmp-6363636363636363''" by code_simp
  then have free: "two_files ?p = None" by simp
  have sp: "split_pattern ''.tmp-*'' = (''.tmp-'', [])" by code_simp
  have "remote_create_temp (file_server True) ''h'' ''/d'' ''.tmp-*'' two_files =
      (Inr ((dead_file ?p)\<lparr>fl_is_os := False\<rparr>), two_files(?p \<mapsto> []))"
  proof -
    have "temp_attempts (file_server True) ''/d'' ''.tmp-'' [] (Suc 99) two_files =
        (Some (Inr ((dead_file ?p)\<lparr>fl_is_os := False\<rparr>)), two_files(?p \<mapsto> []))"
      by (subst temp_attempts.simps) (use free in \<open>simp add: file_server_def\<close>)
    then show ?thesis by (simp add: remote_create_temp_def sp)
  qed
  from remote_temp_is_fresh [OF file_server this, of "''.tmp-''" "[]"] this show ?thesis by auto
qed

subsection \<open>Two ports of one host\<close>

text \<open>The port is left out of the comparison of hosts. Two locations that differ in the port alone are
  two connections, yet they count as the same host; with \<open>--move\<close> the source path is renamed on the
  destination's server, and the source that was named is neither copied nor touched.\<close>

lemma other_port_moves_wrong_file:
  assumes host: "lo_user a = lo_user b" "lo_host a = lo_host b" and port: "lo_port a \<noteq> lo_port b"
    and dfs: "cx_dfs cx = dial_remote sb b" and o': "op_move (cx_opts cx)" "\<not> op_dry_run (cx_opts cx)"
      "op_exclude (cx_opts cx) = []" "op_include (cx_opts cx) = []" "\<not> op_one_fs (cx_opts cx)" "\<not> op_no_hardlinks (cx_opts cx)"
    and absent: "sc_lstat sb (rn_world r) dst = Inl e" "err_is e (Sentinel ErrNotExist)"
    and ren: "remote_rename sb src dst (rn_world r) = (None, w')"
  shows "ConnKey a \<noteq> ConnKey b \<and>
    (\<exists>r'. renameRoot cx (dial_remote sa a) src dst fi r = (True, r') \<and> rn_world r' = w' \<and> rn_renamed r' = rn_renamed r + 1)"
proof -
  have same: "same_host (dial_remote sa a) (dial_remote sb b)"
    using host by (simp add: same_host_def dial_remote_def remote_fs_def hostLabel_def)
  have "may_rename cx (dial_remote sa a) dst fi (rn_world r)"
    using same o' absent by (simp add: may_rename_def Let_def dfs) (simp add: dial_remote_def remote_fs_def)
  moreover have "fs_rename (cx_dfs cx) = remote_rename sb" by (simp add: dfs dial_remote_def remote_fs_def)
  ultimately have "\<exists>r'. renameRoot cx (dial_remote sa a) src dst fi r = (True, r') \<and> rn_world r' = w' \<and>
      rn_renamed r' = rn_renamed r + 1"
    using ren by (simp add: renameRoot_def item_def stdout_line_def Let_def)
  moreover have "ConnKey a \<noteq> ConnKey b" using host port by (simp add: ConnKey_def)
  ultimately show ?thesis by blast
qed

definition port_cx :: "(files, unit) ctx" where
  "port_cx = \<lparr>cx_opts = base_opts\<lparr>op_move := True\<rparr>,
     cx_dfs = dial_remote (file_server True) \<lparr>lo_user = [], lo_host = ''h'', lo_port = ''23'', lo_path = ''/b'',
       lo_remote = True, lo_prefix = ''h:''\<rparr>,
     cx_target_dir = ''/'', cx_target_file = [], cx_resolve = (\<lambda>p. Inl (Errno ENOENT)), cx_env = plain_env,
     cx_hash = (\<lambda>b. ()), cx_eval_symlinks = (\<lambda>w p. Inr p), cx_interrupt = (\<lambda>_. False)\<rparr>"

theorem other_port_moves_wrong_file_witness:
  "\<exists>r'. renameRoot port_cx (dial_remote (file_server False) \<lparr>lo_user = [], lo_host = ''h'', lo_port = ''22'', lo_path = ''/a'',
       lo_remote = True, lo_prefix = ''h:''\<rparr>) ''/a'' ''/b'' (mem_info demo ''/a'' 1) (new_runner [''/a'' \<mapsto> [1]]) = (True, r') \<and>
     rn_world r' = [''/b'' \<mapsto> [1]]"
proof -
  let ?b = "\<lparr>lo_user = [], lo_host = ''h'', lo_port = ''23'', lo_path = ''/b'', lo_remote = True, lo_prefix = ''h:''\<rparr>"
  have "remote_rename (file_server True) ''/a'' ''/b'' (rn_world (new_runner [''/a'' \<mapsto> [1]])) = (None, [''/b'' \<mapsto> [1]])"
    by (simp add: remote_rename_def file_server_def rename_files_def new_runner_def fun_eq_iff)
  moreover have "err_is (PathErr ''lstat'' ''/b'' (Errno ENOENT)) (Sentinel ErrNotExist)" by code_simp
  ultimately show ?thesis
    using other_port_moves_wrong_file [where b = ?b and cx = port_cx and sb = "file_server True" and dst = "''/b''"
      and r = "new_runner [''/a'' \<mapsto> [1]]" and e = "PathErr ''lstat'' ''/b'' (Errno ENOENT)"
      and a = "?b\<lparr>lo_port := ''22'', lo_path := ''/a''\<rparr>"]
    by (fastforce simp: port_cx_def base_opts_def file_server_def)
qed

subsection \<open>A listing that is awaited\<close>

theorem prefetch_take_is_served_witness:
  "let p = schedule mem_fs ''/s'' prefetcher_new in
   fst (take_listing False False mem_fs ''/s'' p) = MustWait \<and> ''/s'' \<in> lt_key ` set (tasks p)"
proof -
  let ?p = "schedule mem_fs ''/s'' prefetcher_new"
  have "mon_step prefetch_client (idle prefetcher_new) (idle ?p)"
    unfolding idle_def by (rule mon_step.signal_none) auto
  then have reach: "mon_reach prefetch_client prefetcher_new (idle ?p)" by (rule mon_reach.step [OF mon_reach.start])
  have d: "fs_display mem_fs ''/s'' = ''/s''" by (simp add: local_fs_def)
  have mw: "fst (take_listing False False mem_fs ''/s'' ?p) = MustWait" "\<not> pf_closed ?p"
    by (simp_all add: schedule_def take_listing_def prefetcher_new_def Let_def)
  have st: "mo_state (idle ?p) = ?p" by (simp only: idle_def monitor.simps)
  have "\<not> pf_closed (mo_state (idle ?p))" using mw(2) by (rule subst [OF st [symmetric]])
  from prefetch_take_is_served [OF reach this, where c = False and cc = False and fsys = mem_fs and path = "''/s''", unfolded st mw(1) taken.case d]
  show ?thesis using mw(1) by (simp only: Let_def)
qed

end
