(* ===== verification/Extents.thy ===== *)
theory Extents
  imports Fsx
begin

text \<open>
  The extent-aware copy, internal/fsx/extents.go and extents_linux.go: an index of where shared source
  extents landed on the destination, and a copy that clones a segment from there instead of writing its
  bytes again. Destination files are shared by reference, so they live in a list (\<open>dd_refs\<close>) and a
  record names one by its place. The ordered tree (google/btree) and the system calls are parameters;
  what the other workers do to the world and the index between two polls of a wait is \<open>eo_others\<close>. Loops that
  depend on answers of the kernel or of other workers carry fuel, \<open>None\<close> when it is used up.
\<close>

subsection \<open>The index\<close>

record extent_loc =
  el_phys :: int
  el_length :: int
  el_off :: int
  el_ref :: nat

text \<open>A destination file: the duplicated descriptor while it is a temporary file, then the path.\<close>

record dest_ref =
  dr_fd :: "int option"
  dr_path :: string
  dr_dev :: int
  dr_ino :: int
  dr_dead :: bool

record claim =
  km_id :: nat
  km_dev :: int
  km_phys :: int
  km_length :: int

record 'b dedup =
  dd_by_dev :: "int \<Rightarrow> 'b option"
  dd_inflight :: "claim list"
  dd_can_clone :: "int \<Rightarrow> bool option"
  dd_cloned :: int
  dd_refs :: "dest_ref list"
  dd_next_claim :: nat

text \<open>The tree: empty, \<open>ReplaceOrInsert\<close>, and the items \<open>DescendLessOrEqual\<close> offers, in its order.\<close>

record 'b btree =
  bt_new :: 'b
  bt_insert :: "extent_loc \<Rightarrow> 'b \<Rightarrow> 'b"
  bt_down :: "extent_loc \<Rightarrow> 'b \<Rightarrow> extent_loc list"

definition dedup_new :: "'b dedup" where
  "dedup_new = \<lparr>dd_by_dev = Map.empty, dd_inflight = [], dd_can_clone = Map.empty, dd_cloned = 0,
     dd_refs = [], dd_next_claim = 0\<rparr>"

record file_dedup =
  fd_src_dev :: int
  fd_ref :: "nat option"
  fd_recs :: "extent_loc list"

definition findDepth :: nat where
  "findDepth = 8"

definition covers :: "'b dedup \<Rightarrow> int \<Rightarrow> int \<Rightarrow> extent_loc \<Rightarrow> bool" where
  "covers d phys len r \<longleftrightarrow>
     wrap64 (el_phys r + el_length r) \<ge> wrap64 (phys + len) \<and> \<not> dr_dead (dd_refs d ! el_ref r)"

text \<open>The callback of the scan; \<open>n\<close> counts the misses.\<close>

fun find_scan :: "'b dedup \<Rightarrow> int \<Rightarrow> int \<Rightarrow> nat \<Rightarrow> extent_loc list \<Rightarrow> extent_loc option" where
  "find_scan d phys len n [] = None"
| "find_scan d phys len n (r # rs) =
     (if covers d phys len r then Some r
      else if Suc n < findDepth then find_scan d phys len (Suc n) rs
      else None)"

definition find_loc :: "'b btree \<Rightarrow> 'b dedup \<Rightarrow> 'b \<Rightarrow> int \<Rightarrow> int \<Rightarrow> (extent_loc \<times> int) option" where
  "find_loc bt d t phys len =
     (case find_scan d phys len 0
            (bt_down bt \<lparr>el_phys = phys, el_length = max_int64, el_off = 0, el_ref = 0\<rparr> t) of
        None \<Rightarrow> None
      | Some hit \<Rightarrow> Some (hit, wrap64 (phys - el_phys hit)))"

datatype acquired = Found extent_loc int | Busy claim | Mine claim

definition acquire_extent :: "'b btree \<Rightarrow> int \<Rightarrow> int \<Rightarrow> int \<Rightarrow> 'b dedup \<Rightarrow> acquired \<times> 'b dedup" where
  "acquire_extent bt dev phys len d =
     (case (case dd_by_dev d dev of None \<Rightarrow> None | Some t \<Rightarrow> find_loc bt d t phys len) of
        Some (loc, delta) \<Rightarrow> (Found loc delta, d)
      | None \<Rightarrow>
          (case List.find (\<lambda>c. km_dev c = dev \<and> km_phys c \<le> phys \<and>
                  wrap64 (phys + len) \<le> wrap64 (km_phys c + km_length c)) (dd_inflight d) of
             Some c \<Rightarrow> (Busy c, d)
           | None \<Rightarrow>
               (let c = \<lparr>km_id = dd_next_claim d, km_dev = dev, km_phys = phys, km_length = len\<rparr> in
                (Mine c, d\<lparr>dd_inflight := dd_inflight d @ [c], dd_next_claim := Suc (dd_next_claim d)\<rparr>))))"

definition insert_locked :: "'b btree \<Rightarrow> int \<Rightarrow> extent_loc \<Rightarrow> 'b dedup \<Rightarrow> 'b dedup" where
  "insert_locked bt dev loc d =
     (let t = (case dd_by_dev d dev of None \<Rightarrow> bt_new bt | Some t \<Rightarrow> t) in
      d\<lparr>dd_by_dev := (dd_by_dev d)(dev \<mapsto> bt_insert bt loc t)\<rparr>)"

text \<open>Closing \<open>c.done\<close> is leaving \<open>dd_inflight\<close>: the ids are never used again.\<close>

fun drop_claim :: "nat \<Rightarrow> claim list \<Rightarrow> claim list" where
  "drop_claim i [] = []"
| "drop_claim i (c # cs) = (if km_id c = i then cs else c # drop_claim i cs)"

definition release_claim :: "'b btree \<Rightarrow> claim \<Rightarrow> extent_loc option \<Rightarrow> 'b dedup \<Rightarrow> 'b dedup" where
  "release_claim bt c loc d =
     (let d = (case loc of Some l \<Rightarrow> insert_locked bt (km_dev c) l d | None \<Rightarrow> d) in
      d\<lparr>dd_inflight := drop_claim (km_id c) (dd_inflight d)\<rparr>)"

subsection \<open>The kernel\<close>

text \<open>A raw extent of \<open>FIEMAP\<close> has unsigned 64-bit fields.\<close>

record raw_extent =
  rx_logical :: int
  rx_physical :: int
  rx_length :: int
  rx_flags :: "32 word"

text \<open>
  The system calls. \<open>eo_stat\<close> of the source answers device, size and modification time; \<open>eo_fstat\<close> of a
  descriptor device and inode; \<open>eo_fiemap\<close> one \<open>FIEMAP\<close> request; \<open>eo_clone\<close> is
  \<open>FICLONERANGE\<close> (destination, source, source offset, length, destination offset). \<open>eo_tick\<close> says whether a
  select in which both channels are ready takes the ticker's.
\<close>

record ('w, 'b) extent_os =
  eo_fd :: "'w gofile \<Rightarrow> int"
  eo_stat :: "'w \<Rightarrow> reader \<Rightarrow> (int \<times> int \<times> int) option"
  eo_fstat :: "'w \<Rightarrow> int \<Rightarrow> (int \<times> int) option"
  eo_fiemap :: "'w \<Rightarrow> reader \<Rightarrow> int \<Rightarrow> int \<Rightarrow> errno + raw_extent list"
  eo_dup :: "int \<Rightarrow> 'w \<Rightarrow> (errno + int) \<times> 'w"
  eo_open :: "string \<Rightarrow> 'w \<Rightarrow> (goerr + int) \<times> 'w"
  eo_close :: "int \<Rightarrow> 'w \<Rightarrow> 'w"
  eo_clone :: "int \<Rightarrow> int \<Rightarrow> int \<Rightarrow> int \<Rightarrow> int \<Rightarrow> 'w \<Rightarrow> goerr option \<times> 'w"
  eo_others :: "nat \<Rightarrow> 'w \<times> 'b dedup \<Rightarrow> 'w \<times> 'b dedup"
  eo_tick :: "nat \<Rightarrow> bool"

text \<open>What one worker's extent-aware copy threads.\<close>

record ('w, 'b) xst =
  xs_cst :: "'w cst"
  xs_dedup :: "'b dedup"
  xs_file :: file_dedup

abbreviation xs_world :: "('w, 'b) xst \<Rightarrow> 'w" where
  "xs_world x \<equiv> cs_world (xs_cst x)"

definition set_world :: "'w \<Rightarrow> ('w, 'b) xst \<Rightarrow> ('w, 'b) xst" where
  "set_world w x = x\<lparr>xs_cst := (xs_cst x)\<lparr>cs_world := w\<rparr>\<rparr>"

definition upd_ref :: "nat \<Rightarrow> (dest_ref \<Rightarrow> dest_ref) \<Rightarrow> 'b dedup \<Rightarrow> 'b dedup" where
  "upd_ref i g d = d\<lparr>dd_refs := (dd_refs d)[i := g (dd_refs d ! i)]\<rparr>"

subsection \<open>A destination file's life\<close>

text \<open>\<open>with\<close> around a range clone, and the clone: the bytes come from the descriptor, or from the path if it still
  names the file that was written.\<close>

definition same_inode :: "('w, 'b) extent_os \<Rightarrow> 'w \<Rightarrow> int \<Rightarrow> int \<Rightarrow> int \<Rightarrow> bool" where
  "same_inode eo w h dev ino \<longleftrightarrow> eo_fstat eo w h = Some (dev, ino)"

definition with_ref ::
  "('w, 'b) extent_os \<Rightarrow> dest_ref \<Rightarrow> (int \<Rightarrow> 'w \<Rightarrow> goerr option \<times> 'w) \<Rightarrow> 'w \<Rightarrow> goerr option \<times> 'w" where
  "with_ref eo r fn w =
     (if dr_dead r then (Some (Sentinel ErrNoSource), w)
      else
        (case dr_fd r of
           Some h \<Rightarrow> fn h w
         | None \<Rightarrow>
             if dr_path r = [] then (Some (Sentinel ErrNoSource), w)
             else
               (case eo_open eo (dr_path r) w of
                  (Inl e, w) \<Rightarrow> (Some e, w)
                | (Inr h, w) \<Rightarrow>
                    if \<not> same_inode eo w h (dr_dev r) (dr_ino r)
                    then (Some (Sentinel ErrNoSource), eo_close eo h w)
                    else (let (err, w) = fn h w in (err, eo_close eo h w)))))"

text \<open>\<open>closeLocked\<close> of a reference.\<close>

definition close_ref :: "('w, 'b) extent_os \<Rightarrow> nat \<Rightarrow> ('w, 'b) xst \<Rightarrow> ('w, 'b) xst" where
  "close_ref eo i x =
     (case dr_fd (dd_refs (xs_dedup x) ! i) of
        Some h \<Rightarrow> (set_world (eo_close eo h (xs_world x)) x)
                    \<lparr>xs_dedup := upd_ref i (\<lambda>r. r\<lparr>dr_fd := None\<rparr>) (xs_dedup x)\<rparr>
      | None \<Rightarrow> x)"

definition commit :: "('w, 'b) extent_os \<Rightarrow> string \<Rightarrow> ('w, 'b) xst \<Rightarrow> ('w, 'b) xst" where
  "commit eo path x =
     (case fd_ref (xs_file x) of
        None \<Rightarrow> x
      | Some i \<Rightarrow> close_ref eo i (x\<lparr>xs_dedup := upd_ref i (\<lambda>r. r\<lparr>dr_path := path\<rparr>) (xs_dedup x)\<rparr>))"

definition kill :: "('w, 'b) extent_os \<Rightarrow> ('w, 'b) xst \<Rightarrow> ('w, 'b) xst" where
  "kill eo x =
     (case fd_ref (xs_file x) of
        None \<Rightarrow> x
      | Some i \<Rightarrow>
          (close_ref eo i (x\<lparr>xs_dedup := upd_ref i (\<lambda>r. r\<lparr>dr_dead := True\<rparr>) (xs_dedup x)\<rparr>))
            \<lparr>xs_file := (xs_file x)\<lparr>fd_ref := None, fd_recs := []\<rparr>\<rparr>)"

subsection \<open>Extents and the plan\<close>

record extent =
  ex_logical :: int
  ex_physical :: int
  ex_length :: int
  ex_flags :: "32 word"

definition fiemapExtentLast :: "32 word" where
  "fiemapExtentLast = 0x1"

definition fiemapExtentShared :: "32 word" where
  "fiemapExtentShared = 0x2000"

definition fiemapExtentUnusable :: "32 word" where
  "fiemapExtentUnusable = 0x2 OR 0x4 OR 0x8 OR 0x80 OR 0x100 OR 0x200 OR 0x400 OR 0x800"

definition shareable :: "extent \<Rightarrow> bool" where
  "shareable e \<longleftrightarrow> ex_flags e AND fiemapExtentShared \<noteq> 0 \<and> ex_flags e AND fiemapExtentUnusable = 0"

definition to_extent :: "raw_extent \<Rightarrow> extent" where
  "to_extent x = \<lparr>ex_logical = wrap64 (rx_logical x), ex_physical = wrap64 (rx_physical x),
     ex_length = wrap64 (rx_length x), ex_flags = rx_flags x\<rparr>"

text \<open>The extents of one answer, up to one flagged as the last.\<close>

fun take_batch :: "raw_extent list \<Rightarrow> extent list \<Rightarrow> extent list \<times> bool" where
  "take_batch [] out = (out, False)"
| "take_batch (x # xs) out =
     (if rx_flags x AND fiemapExtentLast \<noteq> 0 then (out @ [to_extent x], True)
      else take_batch xs (out @ [to_extent x]))"

fun fiemap_loop ::
  "nat \<Rightarrow> ('w, 'b) extent_os \<Rightarrow> 'w \<Rightarrow> reader \<Rightarrow> int \<Rightarrow> int \<Rightarrow> extent list \<Rightarrow> (goerr + extent list) option" where
  "fiemap_loop 0 eo w src pos end' out = (if pos < end' then None else Some (Inr out))"
| "fiemap_loop (Suc k) eo w src pos end' out =
     (if \<not> pos < end' then Some (Inr out)
      else
        (case eo_fiemap eo w src pos (uwrap64 (end' - pos)) of
           Inl e \<Rightarrow> Some (Inl (Errno e))
         | Inr batch \<Rightarrow>
             if batch = [] then Some (Inr out)
             else
               (let (out, last') = take_batch batch out; x = last batch in
                if last' then Some (Inr out)
                else fiemap_loop k eo w src (uwrap64 (rx_logical x + rx_length x)) end' out)))"

definition fiemap ::
  "nat \<Rightarrow> ('w, 'b) extent_os \<Rightarrow> 'w \<Rightarrow> reader \<Rightarrow> int \<Rightarrow> int \<Rightarrow> (goerr + extent list) option" where
  "fiemap k eo w src start len =
     fiemap_loop k eo w src (uwrap64 start) (uwrap64 (uwrap64 start + uwrap64 len)) []"

record segment =
  sg_off :: int
  sg_length :: int
  sg_phys :: int
  sg_shared :: bool

definition plain_segment :: "int \<Rightarrow> int \<Rightarrow> segment" where
  "plain_segment off len = \<lparr>sg_off = off, sg_length = len, sg_phys = 0, sg_shared = False\<rparr>"

definition ext_end :: "extent \<Rightarrow> int" where
  "ext_end e = wrap64 (ex_logical e + ex_length e)"

fun plan_loop :: "extent list \<Rightarrow> int \<Rightarrow> int \<Rightarrow> segment list" where
  "plan_loop [] size' pos = (if pos < size' then [plain_segment pos (size' - pos)] else [])"
| "plan_loop (e # es) size' pos =
     (let lo = max (ex_logical e) pos; hi = min (ext_end e) size' in
      if hi \<le> lo \<or> \<not> shareable e then plan_loop es size' pos
      else
        (if lo > pos then [plain_segment pos (lo - pos)] else []) @
        [\<lparr>sg_off = lo, sg_length = hi - lo, sg_phys = wrap64 (ex_physical e + wrap64 (lo - ex_logical e)),
          sg_shared = True\<rparr>] @
        plan_loop es size' hi)"

definition planSegments :: "extent list \<Rightarrow> int \<Rightarrow> segment list" where
  "planSegments exts size' = plan_loop exts size' 0"

definition anyShared :: "segment list \<Rightarrow> bool" where
  "anyShared segs = list_ex sg_shared segs"

text \<open>Does the extent that holds all of the segment place it where the plan says.\<close>

fun mapped :: "extent list \<Rightarrow> segment \<Rightarrow> bool" where
  "mapped [] s = False"
| "mapped (e # es) s =
     (if ex_logical e \<le> sg_off s \<and> wrap64 (sg_off s + sg_length s) \<le> ext_end e
      then shareable e \<and> wrap64 (ex_physical e + wrap64 (sg_off s - ex_logical e)) = sg_phys s
      else mapped es s)"

subsection \<open>Copying\<close>

fun copyRange ::
  "nat \<Rightarrow> 'w gofile \<Rightarrow> reader \<Rightarrow> int \<Rightarrow> int \<Rightarrow> copy_opts \<Rightarrow> 'w cst \<Rightarrow> (goerr option \<times> 'w cst) option" where
  "copyRange 0 dst src off len o' s = (if len > 0 then None else Some (None, s))"
| "copyRange (Suc k) dst src off len o' s =
     (if \<not> len > 0 then Some (None, s)
      else if canceled o' s then Some (err_canceled, polled s)
      else
        (let s = polled s;
             (p, rerr) = rd_at src off (nat (min (int (buf_size o')) len));
             (werr, s) = (if p \<noteq> [] then on_world (writeNonZero dst p off) s else (None, s))
         in if werr \<noteq> None then Some (werr, s)
            else
              (let (off, len, s) =
                     (if p \<noteq> [] then (off + int (length p), len - int (length p), progress (int (length p)) s)
                      else (off, len, s))
               in if rerr = Some (Sentinel IoEOF) \<and> len > 0 then Some (Some (Sentinel ErrSourceChanged), s)
                  else if rerr \<noteq> None \<and> rerr \<noteq> Some (Sentinel IoEOF) then Some (rerr, s)
                  else copyRange k dst src off len o' s)))"

text \<open>\<open>copyRange\<close> on the worker's state.\<close>

definition copy_range_x ::
  "nat \<Rightarrow> 'w gofile \<Rightarrow> reader \<Rightarrow> segment \<Rightarrow> copy_opts \<Rightarrow> ('w, 'b) xst \<Rightarrow> (goerr option \<times> ('w, 'b) xst) option" where
  "copy_range_x k dst src s o' x =
     map_option (map_prod id (\<lambda>c. x\<lparr>xs_cst := c\<rparr>)) (copyRange k dst src (sg_off s) (sg_length s) o' (xs_cst x))"

definition cloneFrom ::
  "('w, 'b) extent_os \<Rightarrow> 'w gofile \<Rightarrow> extent_loc \<Rightarrow> int \<Rightarrow> segment \<Rightarrow> ('w, 'b) xst \<Rightarrow> goerr option \<times> ('w, 'b) xst" where
  "cloneFrom eo dst loc delta s x =
     (let (err, w) = with_ref eo (dd_refs (xs_dedup x) ! el_ref loc)
            (\<lambda>from. eo_clone eo (eo_fd eo dst) from (wrap64 (el_off loc + delta)) (sg_length s) (sg_off s))
            (xs_world x)
      in (err, set_world w x))"

definition record_seg ::
  "nat \<Rightarrow> ('w, 'b) extent_os \<Rightarrow> reader \<Rightarrow> segment \<Rightarrow> ('w, 'b) xst \<Rightarrow> (extent_loc option \<times> ('w, 'b) xst) option" where
  "record_seg k eo src s x =
     (case fiemap k eo (xs_world x) src (sg_off s) (sg_length s) of
        None \<Rightarrow> None
      | Some (Inl e) \<Rightarrow> Some (None, x)
      | Some (Inr exts) \<Rightarrow>
          if \<not> mapped exts s then Some (None, x)
          else
            (let l = \<lparr>el_phys = sg_phys s, el_length = sg_length s, el_off = sg_off s,
                      el_ref = the (fd_ref (xs_file x))\<rparr>
             in Some (Some l, x\<lparr>xs_file := (xs_file x)\<lparr>fd_recs := fd_recs (xs_file x) @ [l]\<rparr>\<rparr>)))"

text \<open>The rounds of \<open>wait\<close>: what the others do, then the select.\<close>

definition others_step :: "('w, 'b) extent_os \<Rightarrow> nat \<Rightarrow> ('w, 'b) xst \<Rightarrow> ('w, 'b) xst" where
  "others_step eo k x =
     (let (w, d) = eo_others eo k (xs_world x, xs_dedup x) in (set_world w x)\<lparr>xs_dedup := d\<rparr>)"

fun wait_claim ::
  "nat \<Rightarrow> ('w, 'b) extent_os \<Rightarrow> nat \<Rightarrow> copy_opts \<Rightarrow> ('w, 'b) xst \<Rightarrow> (bool \<times> ('w, 'b) xst) option" where
  "wait_claim 0 eo i o' x = None"
| "wait_claim (Suc k) eo i o' x =
     (let x = others_step eo k x; ended = (i \<notin> km_id ` set (dd_inflight (xs_dedup x))) in
      if ended \<and> \<not> eo_tick eo k then Some (True, x)
      else if canceled o' (xs_cst x) then Some (False, x\<lparr>xs_cst := polled (xs_cst x)\<rparr>)
      else wait_claim k eo i o' (x\<lparr>xs_cst := polled (xs_cst x)\<rparr>))"

text \<open>One shared segment: whether it was cloned, or the error.\<close>

definition copy_found ::
  "nat \<Rightarrow> ('w, 'b) extent_os \<Rightarrow> 'b btree \<Rightarrow> 'w gofile \<Rightarrow> reader \<Rightarrow> segment \<Rightarrow> copy_opts \<Rightarrow> extent_loc \<Rightarrow> int \<Rightarrow>
     ('w, 'b) xst \<Rightarrow> ((goerr + bool) \<times> ('w, 'b) xst) option" where
  "copy_found k eo bt dst src s o' loc delta x =
     (let (cerr, y) =
            (if dr_dev (dd_refs (xs_dedup x) ! el_ref loc) = dr_dev (dd_refs (xs_dedup x) ! the (fd_ref (xs_file x)))
             then cloneFrom eo dst loc delta s x else (Some (Sentinel ErrNoSource), x))
      in if cerr = None then Some (Inr True, y)
         else
           (case copy_range_x k dst src s o' y of
              None \<Rightarrow> None
            | Some (Some e, y) \<Rightarrow> Some (Inl e, y)
            | Some (None, y) \<Rightarrow>
                (case record_seg k eo src s y of
                   None \<Rightarrow> None
                 | Some (None, y) \<Rightarrow> Some (Inr False, y)
                 | Some (Some l, y) \<Rightarrow>
                     Some (Inr False,
                       y\<lparr>xs_dedup := insert_locked bt (fd_src_dev (xs_file y)) l (xs_dedup y)\<rparr>))))"

definition copy_mine ::
  "nat \<Rightarrow> ('w, 'b) extent_os \<Rightarrow> 'b btree \<Rightarrow> 'w gofile \<Rightarrow> reader \<Rightarrow> segment \<Rightarrow> copy_opts \<Rightarrow> claim \<Rightarrow>
     ('w, 'b) xst \<Rightarrow> ((goerr + bool) \<times> ('w, 'b) xst) option" where
  "copy_mine k eo bt dst src s o' c x =
     (case copy_range_x k dst src s o' x of
        None \<Rightarrow> None
      | Some (Some e, y) \<Rightarrow> Some (Inl e, y\<lparr>xs_dedup := release_claim bt c None (xs_dedup y)\<rparr>)
      | Some (None, y) \<Rightarrow>
          (case record_seg k eo src s y of
             None \<Rightarrow> None
           | Some (l, y) \<Rightarrow> Some (Inr False, y\<lparr>xs_dedup := release_claim bt c l (xs_dedup y)\<rparr>)))"

fun copyShared ::
  "nat \<Rightarrow> nat \<Rightarrow> ('w, 'b) extent_os \<Rightarrow> 'b btree \<Rightarrow> 'w gofile \<Rightarrow> reader \<Rightarrow> segment \<Rightarrow> copy_opts \<Rightarrow>
     ('w, 'b) xst \<Rightarrow> ((goerr + bool) \<times> ('w, 'b) xst) option" where
  "copyShared 0 k eo bt dst src s o' x = None"
| "copyShared (Suc n) k eo bt dst src s o' x =
     (let (a, d) = acquire_extent bt (fd_src_dev (xs_file x)) (sg_phys s) (sg_length s) (xs_dedup x);
          x = x\<lparr>xs_dedup := d\<rparr>
      in case a of
           Found loc delta \<Rightarrow> copy_found k eo bt dst src s o' loc delta x
         | Busy c \<Rightarrow>
             (case wait_claim k eo (km_id c) o' x of
                None \<Rightarrow> None
              | Some (False, x) \<Rightarrow> Some (Inl (Sentinel ErrCanceled), x)
              | Some (True, x) \<Rightarrow> copyShared n k eo bt dst src s o' x)
         | Mine c \<Rightarrow> copy_mine k eo bt dst src s o' c x)"

fun copy_segments ::
  "nat \<Rightarrow> ('w, 'b) extent_os \<Rightarrow> 'b btree \<Rightarrow> 'w gofile \<Rightarrow> reader \<Rightarrow> copy_opts \<Rightarrow> segment list \<Rightarrow> segment list \<Rightarrow>
     ('w, 'b) xst \<Rightarrow> ((goerr + segment list) \<times> ('w, 'b) xst) option" where
  "copy_segments k eo bt dst src o' [] cloned x = Some (Inr cloned, x)"
| "copy_segments k eo bt dst src o' (s # ss) cloned x =
     (if canceled o' (xs_cst x) then Some (Inl (Sentinel ErrCanceled), x\<lparr>xs_cst := polled (xs_cst x)\<rparr>)
      else
        (let x = x\<lparr>xs_cst := polled (xs_cst x)\<rparr> in
         if \<not> sg_shared s
         then
           (case copy_range_x k dst src s o' x of
              None \<Rightarrow> None
            | Some (Some e, x) \<Rightarrow> Some (Inl e, x)
            | Some (None, x) \<Rightarrow> copy_segments k eo bt dst src o' ss cloned x)
         else
           (case copyShared k k eo bt dst src s o' x of
              None \<Rightarrow> None
            | Some (Inl e, x) \<Rightarrow> Some (Inl e, x)
            | Some (Inr ok, x) \<Rightarrow>
                (if ok
                 then copy_segments k eo bt dst src o' ss (cloned @ [s])
                        (x\<lparr>xs_cst := progress (sg_length s) (xs_cst x)\<rparr>)
                 else copy_segments k eo bt dst src o' ss cloned x))))"

definition unchanged ::
  "nat \<Rightarrow> ('w, 'b) extent_os \<Rightarrow> 'w \<Rightarrow> reader \<Rightarrow> int \<Rightarrow> int \<Rightarrow> segment list \<Rightarrow> bool option" where
  "unchanged k eo w src size' mtim segs =
     (case eo_stat eo w src of
        None \<Rightarrow> Some False
      | Some (dev, sz, mt) \<Rightarrow>
          if sz \<noteq> size' \<or> mt \<noteq> mtim then Some False
          else if segs = [] then Some True
          else
            (case fiemap k eo w src 0 size' of
               None \<Rightarrow> None
             | Some (Inl e) \<Rightarrow> Some False
             | Some (Inr exts) \<Rightarrow> Some (list_all (mapped exts) segs)))"

definition cloneProbe ::
  "int \<Rightarrow> ('w \<Rightarrow> bool \<times> 'w) \<Rightarrow> ('w, 'b) xst \<Rightarrow> bool \<times> ('w, 'b) xst" where
  "cloneProbe dev probe x =
     (case dd_can_clone (xs_dedup x) dev of
        Some ok \<Rightarrow> (ok, x)
      | None \<Rightarrow>
          (let (ok, w) = probe (xs_world x); d = xs_dedup x in
           (ok, (set_world w x)\<lparr>xs_dedup := d\<lparr>dd_can_clone := (dd_can_clone d)(dev \<mapsto> ok)\<rparr>\<rparr>)))"

definition probeClone :: "('w, 'b) extent_os \<Rightarrow> 'w gofile \<Rightarrow> 'w \<Rightarrow> bool \<times> 'w" where
  "probeClone eo f w = (let (err, w) = eo_clone eo (eo_fd eo f) (eo_fd eo f) 0 0 0 w in (err = None, w))"

text \<open>The end of \<open>copyDedup\<close>: the truncation, the check of the source, the count of cloned bytes.\<close>

definition finish_dedup ::
  "nat \<Rightarrow> ('w, 'b) extent_os \<Rightarrow> 'w gofile \<Rightarrow> reader \<Rightarrow> int \<Rightarrow> int \<Rightarrow> segment list \<Rightarrow> ('w, 'b) xst \<Rightarrow>
     ((int \<times> bool \<times> goerr option) \<times> ('w, 'b) xst) option" where
  "finish_dedup k eo dst src size' mtim cloned x =
     (let (terr, w) = fl_truncate dst size' (xs_world x); x = set_world w x in
      if terr \<noteq> None then Some ((0, True, terr), x)
      else
        (case unchanged k eo w src size' mtim cloned of
           None \<Rightarrow> None
         | Some False \<Rightarrow> Some ((0, True, Some (Sentinel ErrSourceChanged)), x)
         | Some True \<Rightarrow>
             Some ((size', True, None),
               x\<lparr>xs_dedup := (xs_dedup x)\<lparr>dd_cloned := dd_cloned (xs_dedup x) + sum_list (map sg_length cloned)\<rparr>\<rparr>)))"

text \<open>From the duplicated descriptor on.\<close>

definition copy_planned ::
  "nat \<Rightarrow> ('w, 'b) extent_os \<Rightarrow> 'b btree \<Rightarrow> 'w gofile \<Rightarrow> reader \<Rightarrow> int \<Rightarrow> copy_opts \<Rightarrow> int \<Rightarrow> int \<Rightarrow> int \<Rightarrow> int \<Rightarrow>
     segment list \<Rightarrow> int \<Rightarrow> ('w, 'b) xst \<Rightarrow> ((int \<times> bool \<times> goerr option) \<times> ('w, 'b) xst) option" where
  "copy_planned k eo bt dst src size' o' sdev mtim ddev dino segs h x =
     (let d = xs_dedup x;
          r = \<lparr>dr_fd = Some h, dr_path = [], dr_dev = ddev, dr_ino = dino, dr_dead = False\<rparr>;
          x = x\<lparr>xs_dedup := d\<lparr>dd_refs := dd_refs d @ [r]\<rparr>,
                xs_file := (xs_file x)\<lparr>fd_src_dev := sdev, fd_ref := Some (length (dd_refs d))\<rparr>\<rparr>
      in case copy_segments k eo bt dst src o' segs [] x of
           None \<Rightarrow> None
         | Some (Inl e, x) \<Rightarrow> Some ((0, True, Some e), x)
         | Some (Inr cloned, x) \<Rightarrow> finish_dedup k eo dst src size' mtim cloned x)"

text \<open>\<open>copyDedup\<close>; \<open>on\<close> says that the options carry an index.\<close>

definition copyDedup ::
  "nat \<Rightarrow> ('w, 'b) extent_os \<Rightarrow> 'b btree \<Rightarrow> bool \<Rightarrow> 'w gofile \<Rightarrow> reader \<Rightarrow> int \<Rightarrow> copy_opts \<Rightarrow> ('w, 'b) xst \<Rightarrow>
     ((int \<times> bool \<times> goerr option) \<times> ('w, 'b) xst) option" where
  "copyDedup k eo bt on dst src size' o' x =
     (if \<not> on then Some ((0, False, None), x)
      else
        (case (eo_stat eo (xs_world x) src, eo_fstat eo (xs_world x) (eo_fd eo dst)) of
           (Some (sdev, _, mtim), Some (ddev, dino)) \<Rightarrow>
             (let (ok, x) = cloneProbe ddev (probeClone eo dst) x in
              if \<not> ok then Some ((0, False, None), x)
              else
                (case fiemap k eo (xs_world x) src 0 size' of
                   None \<Rightarrow> None
                 | Some (Inl e) \<Rightarrow> Some ((0, False, None), x)
                 | Some (Inr exts) \<Rightarrow>
                     (let segs = planSegments exts size' in
                      if \<not> anyShared segs then Some ((0, False, None), x)
                      else
                        (case eo_dup eo (eo_fd eo dst) (xs_world x) of
                           (Inl e, w) \<Rightarrow> Some ((0, False, None), set_world w x)
                         | (Inr h, w) \<Rightarrow>
                             copy_planned k eo bt dst src size' o' sdev mtim ddev dino segs h (set_world w x)))))
         | _ \<Rightarrow> Some ((0, False, None), x)))"

end
