(* ===== verification/ExtentPlan.thy ===== *)
theory ExtentPlan
  imports Extents Publish
begin

text \<open>
  The plan of an extent-aware copy (internal/fsx/extents_linux.go): its segments tile the file. Then what the records of an
  index claim about the bytes on a destination, and what a source whose extents tell the truth is.
\<close>

subsection \<open>The plan\<close>

fun tiles :: "int \<Rightarrow> segment list \<Rightarrow> int \<Rightarrow> bool" where
  "tiles pos [] end' \<longleftrightarrow> pos = end'"
| "tiles pos (s # ss) end' \<longleftrightarrow> sg_off s = pos \<and> 0 < sg_length s \<and> tiles (pos + sg_length s) ss end'"

definition placed :: "extent list \<Rightarrow> segment \<Rightarrow> bool" where
  "placed exts s \<longleftrightarrow> (sg_shared s \<longrightarrow> (\<exists>e \<in> set exts. shareable e \<and> ex_logical e \<le> sg_off s \<and>
     sg_off s + sg_length s \<le> ext_end e \<and> sg_phys s = wrap64 (ex_physical e + wrap64 (sg_off s - ex_logical e))))"

lemma tiles_append: "tiles a (xs @ ys) c \<longleftrightarrow> (\<exists>b. tiles a xs b \<and> tiles b ys c)"
  by (induction xs arbitrary: a) auto

lemma tiles_le: "tiles a ss b \<Longrightarrow> a \<le> b"
  by (induction ss arbitrary: a) fastforce+

lemma tiles_in: "tiles a ss b \<Longrightarrow> s \<in> set ss \<Longrightarrow> a \<le> sg_off s \<and> 0 < sg_length s \<and> sg_off s + sg_length s \<le> b"
proof (induction ss arbitrary: a)
  case (Cons t ss)
  then show ?case using tiles_le [of "a + sg_length t" ss b] by (auto, fastforce)
qed simp

lemma plan_loop_tiles: "pos \<le> size' \<Longrightarrow> tiles pos (plan_loop exts size' pos) size'"
proof (induction exts size' pos rule: plan_loop.induct)
  case (2 e es size' pos)
  let ?lo = "max (ex_logical e) pos" and ?hi = "min (ext_end e) size'"
  show ?case
  proof (cases "?hi \<le> ?lo \<or> \<not> shareable e")
    case True
    then show ?thesis using 2(1) [OF refl refl] 2(3) by simp
  next
    case False
    then have "tiles ?hi (plan_loop es size' ?hi) size'" using 2(2) [OF refl refl] by simp
    then show ?thesis using False by (auto simp: Let_def plain_segment_def)
  qed
qed (simp add: plain_segment_def)

lemma plan_loop_placed: "s \<in> set (plan_loop exts size' pos) \<Longrightarrow> placed exts s"
proof (induction exts size' pos rule: plan_loop.induct)
  case (1 size' pos)
  then show ?case by (auto simp: placed_def plain_segment_def split: if_splits)
next
  case (2 e es size' pos)
  let ?lo = "max (ex_logical e) pos" and ?hi = "min (ext_end e) size'"
  have more: "placed (e # es) s" if "placed es s" using that by (auto simp: placed_def)
  show ?case
  proof (cases "?hi \<le> ?lo \<or> \<not> shareable e")
    case True
    then show ?thesis using 2(1) [OF refl refl] 2(3) more by simp
  next
    case False
    then show ?thesis using 2(2) [OF refl refl] 2(3) more
      by (auto simp: Let_def placed_def plain_segment_def split: if_splits)
  qed
qed

text \<open>C23: The plan covers the file exactly. Whatever extents the kernel reports (overlapping, unordered, of
  negative or wrapped length), the segments of \<open>planSegments\<close> follow each other without gap or
  overlap from 0 to the size, and each shared segment lies in a reported shareable extent with the
  address that extent gives it.\<close>

theorem plan_covers_file:
  assumes "0 \<le> size'"
  shows "tiles 0 (planSegments exts size') size' \<and> (\<forall>s \<in> set (planSegments exts size'). placed exts s)"
  using plan_loop_tiles [OF assms, of exts] plan_loop_placed unfolding planSegments_def by blast

theorem plan_covers_file_witness:
  "tiles 0 (planSegments [\<lparr>ex_logical = 4096, ex_physical = 65536, ex_length = 8192, ex_flags = 0x2000\<rparr>] 10000) 10000"
  using plan_covers_file [of 10000] by simp

subsection \<open>Bytes of a file, zeros behind its end\<close>

definition byte_at :: "bytes \<Rightarrow> int \<Rightarrow> 8 word" where
  "byte_at c j = (if nat j < length c then c ! nat j else 0)"

lemma byte_at_padded: "length c \<le> n \<Longrightarrow> 0 \<le> j \<Longrightarrow> j < int n \<Longrightarrow> byte_at c j = padded n c ! nat j"
  by (auto simp: byte_at_def padded_def nth_append)

lemma byte_at_in: "0 \<le> j \<Longrightarrow> j < int (length c) \<Longrightarrow> byte_at c j = c ! nat j"
  by (simp add: byte_at_def nat_less_iff)

text \<open>The same bytes below a position.\<close>

definition same_below :: "int \<Rightarrow> bytes \<Rightarrow> bytes \<Rightarrow> bool" where
  "same_below pos c c' \<longleftrightarrow> (\<forall>j. 0 \<le> j \<and> j < pos \<longrightarrow> byte_at c' j = byte_at c j)"

lemma same_below_refl [simp]: "same_below pos c c"
  by (simp add: same_below_def)

lemma same_below_trans: "same_below pos a b \<Longrightarrow> same_below pos b c \<Longrightarrow> same_below pos a c"
  by (simp add: same_below_def)

lemma same_below_mono: "same_below p a b \<Longrightarrow> q \<le> p \<Longrightarrow> same_below q a b"
  by (simp add: same_below_def)

text \<open>A file written up to \<open>pos\<close>, up to the zeros that need no writing.\<close>

definition written :: "bytes \<Rightarrow> nat \<Rightarrow> bytes \<Rightarrow> bool" where
  "written data pos c \<longleftrightarrow> pos \<le> length data \<and> length c \<le> pos \<and> padded pos c = take pos data"

lemma written_byte: "written data pos c \<Longrightarrow> 0 \<le> j \<Longrightarrow> j < int pos \<Longrightarrow> byte_at c j = data ! nat j"
  using byte_at_padded [of c pos j] by (simp add: written_def)

lemma written_same_below:
  assumes "written data pos c" and "written data pos' c'" and "pos \<le> pos'"
  shows "same_below (int pos) c c'"
  using written_byte [OF assms(1)] written_byte [OF assms(2)] assms(3) by (simp add: same_below_def)

subsection \<open>What a record claims\<close>

text \<open>\<open>disk dev a\<close> is the byte at a physical address of a source device; \<open>c\<close> gives the contents behind a device and inode.\<close>

definition holds :: "(int \<times> int \<Rightarrow> bytes) \<Rightarrow> (int \<Rightarrow> int \<Rightarrow> 8 word) \<Rightarrow> int \<Rightarrow> dest_ref \<Rightarrow> extent_loc \<Rightarrow> bool" where
  "holds c disk dev r l \<longleftrightarrow>
     0 \<le> el_phys l \<and> 0 < el_length l \<and> el_phys l + el_length l < 2 ^ 63 \<and>
     0 \<le> el_off l \<and> el_off l + el_length l < 2 ^ 63 \<and>
     (\<not> dr_dead r \<longrightarrow> (\<forall>i. 0 \<le> i \<and> i < el_length l \<longrightarrow>
        byte_at (c (dr_dev r, dr_ino r)) (el_off l + i) = disk dev (el_phys l + i)))"

text \<open>The documented part of the tree: a set of items, grown by insertions, and a descent from a pivot.\<close>

definition tree_contract :: "'b btree \<Rightarrow> ('b \<Rightarrow> extent_loc set) \<Rightarrow> bool" where
  "tree_contract bt items \<longleftrightarrow> items (bt_new bt) = {} \<and>
     (\<forall>l t. items (bt_insert bt l t) \<subseteq> insert l (items t)) \<and>
     (\<forall>p t. set (bt_down bt p t) \<subseteq> items t \<and> (\<forall>l \<in> set (bt_down bt p t). el_phys l \<le> el_phys p))"

text \<open>The records of an index.\<close>

definition recorded :: "('b \<Rightarrow> extent_loc set) \<Rightarrow> 'b dedup \<Rightarrow> int \<Rightarrow> extent_loc \<Rightarrow> bool" where
  "recorded items d dev l \<longleftrightarrow> (\<exists>t. dd_by_dev d dev = Some t \<and> l \<in> items t)"

definition index_good ::
  "('b \<Rightarrow> extent_loc set) \<Rightarrow> (int \<Rightarrow> int \<Rightarrow> 8 word) \<Rightarrow> (int \<times> int \<Rightarrow> bytes) \<Rightarrow> (int \<Rightarrow> (int \<times> int) option) \<Rightarrow> 'b dedup \<Rightarrow> bool" where
  "index_good items disk c st d \<longleftrightarrow>
     (\<forall>dev l. recorded items d dev l \<longrightarrow> el_ref l < length (dd_refs d) \<and> holds c disk dev (dd_refs d ! el_ref l) l) \<and>
     (\<forall>r \<in> set (dd_refs d). \<not> dr_dead r \<longrightarrow> (\<forall>h. dr_fd r = Some h \<longrightarrow> st h = Some (dr_dev r, dr_ino r)))"

text \<open>Every live record of an inode lies below a position.\<close>

definition fits :: "('b \<Rightarrow> extent_loc set) \<Rightarrow> 'b dedup \<Rightarrow> int \<times> int \<Rightarrow> int \<Rightarrow> bool" where
  "fits items d inode lim \<longleftrightarrow> (\<forall>dev l. recorded items d dev l \<and> \<not> dr_dead (dd_refs d ! el_ref l) \<and>
     (dr_dev (dd_refs d ! el_ref l), dr_ino (dd_refs d ! el_ref l)) = inode \<longrightarrow> el_off l + el_length l \<le> lim)"

lemma fits_mono: "fits items d inode lim \<Longrightarrow> lim \<le> lim' \<Longrightarrow> fits items d inode lim'"
  by (fastforce simp: fits_def)

text \<open>A source whose device is quiescent: its bytes, and extents that tell the truth about them.\<close>

definition true_extent :: "(int \<Rightarrow> int \<Rightarrow> 8 word) \<Rightarrow> int \<Rightarrow> bytes \<Rightarrow> extent \<Rightarrow> bool" where
  "true_extent disk sdev data e \<longleftrightarrow>
     0 \<le> ex_logical e \<and> 0 \<le> ex_physical e \<and> 0 \<le> ex_length e \<and> ex_logical e + ex_length e < 2 ^ 63 \<and>
     ex_physical e + ex_length e < 2 ^ 63 \<and>
     (\<forall>i. 0 \<le> i \<and> i < ex_length e \<and> ex_logical e + i < int (length data) \<longrightarrow>
        data ! nat (ex_logical e + i) = disk sdev (ex_physical e + i))"

definition true_extents :: "(int \<Rightarrow> int \<Rightarrow> 8 word) \<Rightarrow> int \<Rightarrow> bytes \<Rightarrow> extent list \<Rightarrow> bool" where
  "true_extents disk sdev data exts \<longleftrightarrow> (\<forall>e \<in> set exts. shareable e \<longrightarrow> true_extent disk sdev data e)"

definition truthful ::
  "('w, 'b) extent_os \<Rightarrow> (int \<Rightarrow> int \<Rightarrow> 8 word) \<Rightarrow> reader \<Rightarrow> int \<Rightarrow> bytes \<Rightarrow> bool" where
  "truthful eo disk src sdev data \<longleftrightarrow>
     (\<forall>off n. 0 \<le> off \<longrightarrow> (\<exists>m \<le> n. fst (rd_at src off n) = take m (drop (nat off) data))) \<and>
     (\<forall>w. \<exists>mt. eo_stat eo w src = Some (sdev, int (length data), mt)) \<and>
     (\<forall>w start len xs. eo_fiemap eo w src start len = Inr xs \<longrightarrow> true_extents disk sdev data (map to_extent xs))"

lemma truthful_reads: "truthful eo disk src sdev data \<Longrightarrow> 0 \<le> off \<Longrightarrow>
    \<exists>m \<le> n. fst (rd_at src off n) = take m (drop (nat off) data)"
  by (simp add: truthful_def)

lemma truthful_stat: "truthful eo disk src sdev data \<Longrightarrow> \<exists>mt. eo_stat eo w src = Some (sdev, int (length data), mt)"
  by (simp add: truthful_def)

lemma truthful_fiemap: "truthful eo disk src sdev data \<Longrightarrow> eo_fiemap eo w src start len = Inr xs \<Longrightarrow>
    true_extents disk sdev data (map to_extent xs)"
  by (simp add: truthful_def)

text \<open>A shared segment's physical range holds its bytes.\<close>

definition true_segment :: "(int \<Rightarrow> int \<Rightarrow> 8 word) \<Rightarrow> int \<Rightarrow> bytes \<Rightarrow> segment \<Rightarrow> bool" where
  "true_segment disk sdev data s \<longleftrightarrow> 0 \<le> sg_phys s \<and> sg_phys s + sg_length s < 2 ^ 63 \<and>
     (\<forall>i. 0 \<le> i \<and> i < sg_length s \<longrightarrow> data ! nat (sg_off s + i) = disk sdev (sg_phys s + i))"

lemma true_extents_append [simp]: "true_extents disk sdev data (xs @ ys) \<longleftrightarrow>
    true_extents disk sdev data xs \<and> true_extents disk sdev data ys"
  by (auto simp: true_extents_def)

lemma take_batch_true:
  "true_extents disk sdev data (map to_extent xs) \<Longrightarrow> true_extents disk sdev data out \<Longrightarrow>
    true_extents disk sdev data (fst (take_batch xs out))"
  by (induction xs out rule: take_batch.induct) (auto simp: true_extents_def)

lemma fiemap_loop_true:
  assumes t: "truthful eo disk src sdev data"
  shows "true_extents disk sdev data out \<Longrightarrow> fiemap_loop k eo w src pos end' out = Some (Inr exts) \<Longrightarrow>
    true_extents disk sdev data exts"
proof (induction k arbitrary: pos out)
  case 0
  then show ?case by (auto split: if_splits)
next
  case (Suc k)
  show ?case
  proof (cases "pos < end'")
    case True
    then obtain xs where xs: "eo_fiemap eo w src pos (uwrap64 (end' - pos)) = Inr xs"
      using Suc.prems(2) by (auto split: sum.splits)
    obtain out' b where tb: "take_batch xs out = (out', b)" by fastforce
    have "true_extents disk sdev data out'"
      using take_batch_true [OF truthful_fiemap [OF t xs] Suc.prems(1)] tb by simp
    then show ?thesis using Suc True xs tb by (auto simp: Let_def split: if_splits)
  qed (use Suc.prems in simp)
qed

lemma fiemap_true:
  "truthful eo disk src sdev data \<Longrightarrow> fiemap k eo w src start len = Some (Inr exts) \<Longrightarrow> true_extents disk sdev data exts"
  using fiemap_loop_true [of eo disk src sdev data "[]"] by (simp add: fiemap_def true_extents_def)

text \<open>In the range of addresses no sum of a plan wraps around.\<close>

lemma true_extent_end: "true_extent disk sdev data e \<Longrightarrow> ext_end e = ex_logical e + ex_length e"
  by (simp add: ext_end_def true_extent_def wrap64_id)

lemma true_extent_phys:
  "true_extent disk sdev data e \<Longrightarrow> ex_logical e \<le> off \<Longrightarrow> off \<le> ex_logical e + ex_length e \<Longrightarrow>
    wrap64 (ex_physical e + wrap64 (off - ex_logical e)) = ex_physical e + (off - ex_logical e)"
  by (simp add: true_extent_def wrap64_id)

lemma extent_gives_segment:
  assumes e: "true_extent disk sdev data e" and le: "ex_logical e \<le> sg_off s" "sg_off s + sg_length s \<le> ext_end e"
    and len: "0 < sg_length s" "sg_off s + sg_length s \<le> int (length data)"
    and phys: "sg_phys s = wrap64 (ex_physical e + wrap64 (sg_off s - ex_logical e))"
  shows "true_segment disk sdev data s"
proof -
  let ?k = "sg_off s - ex_logical e"
  have ph: "sg_phys s = ex_physical e + ?k" and k: "0 \<le> ?k" "?k + sg_length s \<le> ex_length e"
    using phys true_extent_phys [OF e le(1)] true_extent_end [OF e] le len by auto
  have "data ! nat (sg_off s + i) = disk sdev (sg_phys s + i)" if "0 \<le> i" "i < sg_length s" for i
  proof -
    have "\<forall>i. 0 \<le> i \<and> i < ex_length e \<and> ex_logical e + i < int (length data) \<longrightarrow>
        data ! nat (ex_logical e + i) = disk sdev (ex_physical e + i)" using e by (simp add: true_extent_def)
    from this [rule_format, of "?k + i"] show ?thesis using k that len ph by (simp add: add.assoc)
  qed
  moreover have "0 \<le> sg_phys s \<and> sg_phys s + sg_length s < 2 ^ 63"
    using e ph k by (simp add: true_extent_def)
  ultimately show ?thesis by (simp add: true_segment_def)
qed

lemma placed_true:
  assumes "true_extents disk sdev data exts" and "placed exts s" and "sg_shared s"
    and "0 < sg_length s" and "sg_off s + sg_length s \<le> int (length data)"
  shows "true_segment disk sdev data s"
  using assms extent_gives_segment [of disk sdev data _ s] by (auto simp: placed_def true_extents_def)

lemma mapped_true:
  assumes "true_extents disk sdev data exts" and "mapped exts s" and "0 \<le> sg_off s" and "0 < sg_length s"
    and "sg_off s + sg_length s \<le> int (length data)" and "int (length data) < 2 ^ 63"
  shows "true_segment disk sdev data s"
  using assms
proof (induction exts s rule: mapped.induct)
  case (2 e es s)
  have w: "wrap64 (sg_off s + sg_length s) = sg_off s + sg_length s" using 2 by (intro wrap64_id) auto
  show ?case
  proof (cases "ex_logical e \<le> sg_off s \<and> wrap64 (sg_off s + sg_length s) \<le> ext_end e")
    case True
    then show ?thesis using 2 w extent_gives_segment [of disk sdev data e s] by (auto simp: true_extents_def)
  next
    case False
    then show ?thesis using 2 by (auto simp: true_extents_def)
  qed
qed simp

end
