(* ===== verification/ExtentClone.thy ===== *)
theory ExtentClone
  imports ExtentPlan
begin

text \<open>
  The contract of a kernel that clones ranges, as the locale \<open>clone_fs\<close>, and the invariants of an extent-aware copy: every live
  record of the index names a destination range that holds the bytes of its source extent, and the file of a worker holds
  the source up to where it is. Reading, writing and cloning a range, and recording one, keep both.
\<close>

subsection \<open>The contract of the kernel\<close>

text \<open>A step that changes no contents: open files stay open, descriptors keep their files.\<close>

definition still ::
  "('w \<Rightarrow> int \<times> int \<Rightarrow> bytes) \<Rightarrow> ('w \<Rightarrow> int \<Rightarrow> (int \<times> int) option) \<Rightarrow> ('w gofile \<Rightarrow> 'w \<Rightarrow> bool) \<Rightarrow> 'w \<Rightarrow> 'w \<Rightarrow> bool" where
  "still cont st owned w w' \<longleftrightarrow> cont w' = cont w \<and> (\<forall>f. owned f w \<longrightarrow> owned f w') \<and>
     (\<forall>h i. st w h = Some i \<longrightarrow> st w' h = Some i)"

text \<open>What the other workers leave alone: the invariant of the index, and everything about the file with this inode.\<close>

definition polite ::
  "('w, 'b) extent_os \<Rightarrow> ('w \<Rightarrow> int \<times> int \<Rightarrow> bytes) \<Rightarrow> ('w gofile \<Rightarrow> 'w \<Rightarrow> bool) \<Rightarrow> ('b \<Rightarrow> extent_loc set) \<Rightarrow>
     (int \<Rightarrow> int \<Rightarrow> 8 word) \<Rightarrow> 'w gofile \<Rightarrow> int \<times> int \<Rightarrow> bool" where
  "polite eo cont owned items disk f inode \<longleftrightarrow>
     (\<forall>k w d w' d'. eo_others eo k (w, d) = (w', d') \<and> index_good items disk (cont w) (eo_fstat eo w) d \<and> owned f w \<longrightarrow>
        index_good items disk (cont w') (eo_fstat eo w') d' \<and> owned f w' \<and> cont w' inode = cont w inode \<and>
        (\<forall>lim. fits items d inode lim \<longrightarrow> fits items d' inode lim) \<and>
        (\<forall>i < length (dd_refs d). \<not> dr_dead (dd_refs d ! i) \<and> (dr_dev (dd_refs d ! i), dr_ino (dd_refs d ! i)) = inode \<longrightarrow>
           i < length (dd_refs d') \<and> dd_refs d' ! i = dd_refs d ! i))"

text \<open>
  \<open>cont\<close> gives the contents by device and inode, \<open>ino f\<close> the inode of an open temporary file. A range
  clone that succeeds copies bytes of the source file that exist; one that fails has changed nothing; the probe on an
  empty file changes nothing.
\<close>

locale clone_fs = sparse_fs dfs en obs owned
  for dfs :: "'w fs" and en :: "'w env" and obs :: "'w \<Rightarrow> contents list"
    and owned :: "'w gofile \<Rightarrow> 'w \<Rightarrow> bool" +
  fixes eo :: "('w, 'b) extent_os" and cont :: "'w \<Rightarrow> int \<times> int \<Rightarrow> bytes" and ino :: "'w gofile \<Rightarrow> int \<times> int"
  assumes cont_obs: "owned f w \<Longrightarrow> hd (obs w) (fl_name f) = Some (cont w (ino f))"
    and fstat_owned: "owned f w \<Longrightarrow> eo_fstat eo w (eo_fd eo f) = Some (ino f)"
    and write_at_frame: "owned f w \<Longrightarrow> 0 \<le> off \<Longrightarrow> fl_write_at f b off w = (r, w') \<Longrightarrow>
        (\<forall>i. i \<noteq> ino f \<longrightarrow> cont w' i = cont w i) \<and> eo_fstat eo w' = eo_fstat eo w \<and>
        same_below off (cont w (ino f)) (cont w' (ino f))"
    and truncate_frame: "owned f w \<Longrightarrow> 0 \<le> off \<Longrightarrow> fl_truncate f off w = (r, w') \<Longrightarrow>
        (\<forall>i. i \<noteq> ino f \<longrightarrow> cont w' i = cont w i) \<and> eo_fstat eo w' = eo_fstat eo w \<and>
        same_below off (cont w (ino f)) (cont w' (ino f))"
    and dup_law: "owned f w \<Longrightarrow> eo_dup eo (eo_fd eo f) w = (dr, w') \<Longrightarrow>
        still cont (eo_fstat eo) owned w w' \<and> (\<forall>h. dr = Inr h \<longrightarrow> eo_fstat eo w' h = Some (ino f))"
    and open_law: "eo_open eo p w = (od, w1) \<Longrightarrow> still cont (eo_fstat eo) owned w w1 \<and>
        (\<forall>h w2. od = Inr h \<and> eo_fstat eo w2 = eo_fstat eo w1 \<longrightarrow> cont (eo_close eo h w2) = cont w2 \<and>
           (\<forall>f. owned f w2 \<longrightarrow> owned f (eo_close eo h w2)) \<and>
           (\<forall>h' i. eo_fstat eo w h' = Some i \<longrightarrow> eo_fstat eo (eo_close eo h w2) h' = Some i))"
    and clone_law: "owned f w \<Longrightarrow> eo_fstat eo w h = Some i \<Longrightarrow> 0 \<le> a \<Longrightarrow> 0 < n \<Longrightarrow>
        int (length (cont w (ino f))) \<le> at' \<Longrightarrow> eo_clone eo (eo_fd eo f) h a n at' w = (r, w') \<Longrightarrow>
        owned f w' \<and> eo_fstat eo w' = eo_fstat eo w \<and> (\<forall>j. j \<noteq> ino f \<longrightarrow> cont w' j = cont w j) \<and>
        (r \<noteq> None \<longrightarrow> cont w' (ino f) = cont w (ino f)) \<and>
        (r = None \<longrightarrow> a + n \<le> int (length (cont w i)) \<and>
           cont w' (ino f) = padded (nat at') (cont w (ino f)) @ slice (nat a) (nat (a + n)) (cont w i))"
    and probe_law: "owned f w \<Longrightarrow> cont w (ino f) = [] \<Longrightarrow> eo_clone eo (eo_fd eo f) (eo_fd eo f) 0 0 0 w = (r, w') \<Longrightarrow>
        still cont (eo_fstat eo) owned w w'"
begin

text \<open>What a worker does to its own file: other files and all descriptors stay, and so do the bytes below \<open>lim\<close>.\<close>

definition own_step :: "'w gofile \<Rightarrow> int \<Rightarrow> 'w \<Rightarrow> 'w \<Rightarrow> bool" where
  "own_step f lim w w' \<longleftrightarrow> owned f w' \<and> (\<forall>j. j \<noteq> ino f \<longrightarrow> cont w' j = cont w j) \<and>
     (\<forall>h i. eo_fstat eo w h = Some i \<longrightarrow> eo_fstat eo w' h = Some i) \<and>
     same_below lim (cont w (ino f)) (cont w' (ino f))"

lemma own_step_refl: "owned f w \<Longrightarrow> own_step f lim w w"
  by (simp add: own_step_def)

lemma own_step_trans: "own_step f lim a b \<Longrightarrow> own_step f lim b c \<Longrightarrow> own_step f lim a c"
  by (auto simp: own_step_def intro: same_below_trans)

lemma own_step_mono: "own_step f lim w w' \<Longrightarrow> lim' \<le> lim \<Longrightarrow> own_step f lim' w w'"
  by (auto simp: own_step_def intro: same_below_mono)

lemma own_step_owned: "own_step f lim w w' \<Longrightarrow> owned f w'"
  by (simp add: own_step_def)

lemma write_at_step:
  "owned f w \<Longrightarrow> 0 \<le> off \<Longrightarrow> fl_write_at f b off w = (r, w') \<Longrightarrow> own_step f off w w'"
  using write_at_frame [of f w off b r w'] touches_owned [OF write_at, of f w b off] by (auto simp: own_step_def)

lemma wnz_loop_step_frame:
  "owned f w \<Longrightarrow> 0 \<le> off \<Longrightarrow> wnz_loop f p off i run w = (r, w') \<Longrightarrow> own_step f off w w'"
proof (induction i run w rule: wnz_induct [of p])
  case (fin i run w)
  show ?case
  proof (cases run)
    case None
    then show ?thesis using fin by (simp add: wnz_loop_end own_step_refl)
  next
    case (Some q)
    then have "fl_write_at f (drop q p) (off + int q) w = (r, w')" using fin by (simp add: wnz_loop_end)
    then show ?thesis using own_step_mono [OF write_at_step, of f w "off + int q"] fin(2,3) by simp
  qed
next
  case (step i run w)
  show ?case
  proof (cases "wnz_run p i run")
    case None
    then show ?thesis using step by (simp add: wnz_loop_step)
  next
    case (Some q)
    obtain e w1 where wr: "fl_write_at f (slice q i p) (off + int q) w = (e, w1)" by fastforce
    have s1: "own_step f off w w1"
      using own_step_mono [OF write_at_step [OF step(3) _ wr]] step(4) by simp
    show ?thesis
    proof (cases "wnz_zero p i \<and> e = None")
      case True
      then have "wnz_loop f p off (i + sparseBlock) None w1 = (r, w')" using step(1,5) Some wr by (simp add: wnz_loop_step)
      from step(2) [OF own_step_owned [OF s1] step(4) this] s1 show ?thesis by (blast intro: own_step_trans)
    next
      case False
      then show ?thesis using step Some wr s1 by (auto simp: wnz_loop_step split: if_splits)
    qed
  qed
qed

lemma writeNonZero_step: "owned f w \<Longrightarrow> 0 \<le> off \<Longrightarrow> writeNonZero f p off w = (r, w') \<Longrightarrow> own_step f off w w'"
  unfolding writeNonZero_def by (rule wnz_loop_step_frame)

text \<open>The file holds the data up to \<open>pos\<close>.\<close>

definition file_at :: "'w gofile \<Rightarrow> bytes \<Rightarrow> nat \<Rightarrow> 'w \<Rightarrow> bool" where
  "file_at f data pos w \<longleftrightarrow> owned f w \<and> written data pos (cont w (ino f))"

lemma file_at_owned: "file_at f data pos w \<Longrightarrow> owned f w"
  by (simp add: file_at_def)

lemma writeNonZero_file_at:
  assumes fa: "file_at f data pos w" and p: "p = take (length p) (drop pos data)"
    and wr: "writeNonZero f p (int pos) w = (None, w')"
  shows "file_at f data (pos + length p) w'"
proof -
  let ?pre = "take pos data"
  have w: "owned f w" "pos \<le> length data" "length (cont w (ino f)) \<le> pos" "padded pos (cont w (ino f)) = ?pre"
    using fa by (auto simp: file_at_def written_def)
  have lp: "length ?pre = pos" using w(2) by simp
  have len: "pos + length p \<le> length data" using arg_cong [OF p, of length] w(2) by simp
  have "owned f w' \<and> (\<exists>c. hd (obs w') (fl_name f) = Some c \<and> length c \<le> length (?pre @ p) \<and>
      padded (length (?pre @ p)) c = ?pre @ p)"
    by (rule writeNonZero_writes [OF w(1) cont_obs [OF w(1)]]) (use w lp wr in simp_all)
  then have o': "owned f w'" and "length (cont w' (ino f)) \<le> pos + length p"
    "padded (pos + length p) (cont w' (ino f)) = ?pre @ p" using cont_obs lp by auto
  moreover have "?pre @ p = take (pos + length p) data" using p by (simp add: take_add)
  ultimately show ?thesis using len by (simp add: file_at_def written_def)
qed

lemma on_world_eq: "on_world g s = (r, s') \<Longrightarrow> g (cs_world s) = (r, cs_world s')"
  by (auto simp: on_world_def split: prod.splits)

text \<open>\<open>copyRange\<close> from where the file ends.\<close>

lemma copyRange_file_at:
  assumes t: "truthful eo disk src sdev data"
  shows "file_at f data pos (cs_world s) \<Longrightarrow> int pos + len \<le> int (length data) \<Longrightarrow>
    copyRange k f src (int pos) len co s = Some (r, s') \<Longrightarrow>
    own_step f (int pos) (cs_world s) (cs_world s') \<and>
    (r = None \<longrightarrow> file_at f data (pos + nat len) (cs_world s'))"
proof (induction k arbitrary: pos len s)
  case 0
  then show ?case using own_step_refl [OF file_at_owned [OF 0(1)]] by (auto split: if_splits)
next
  case (Suc k)
  note refl' = own_step_refl [OF file_at_owned [OF Suc.prems(1)], of "int pos"]
  show ?case
  proof (cases "len > 0 \<and> \<not> canceled co s")
    case False
    then show ?thesis using Suc.prems refl' by (auto split: if_splits)
  next
    case True
    obtain p rerr where rd: "rd_at src (int pos) (nat (min (int (buf_size co)) len)) = (p, rerr)" by fastforce
    obtain m where m: "m \<le> nat (min (int (buf_size co)) len)" "p = take m (drop pos data)"
      using truthful_reads [OF t, of "int pos" "nat (min (int (buf_size co)) len)"] rd by auto
    have "length p \<le> m" "int m \<le> len" using m True by auto
    then have pl: "p = take (length p) (drop pos data)" "int (length p) \<le> len" using m(2) by (auto simp: min_def)
    obtain werr s1 where wr: "(if p \<noteq> [] then on_world (writeNonZero f p (int pos)) (polled s) else (None, polled s)) = (werr, s1)"
      by (metis prod.exhaust)
    have st1: "own_step f (int pos) (cs_world s) (cs_world s1)"
    proof (cases "p = []")
      case False
      then have "writeNonZero f p (int pos) (cs_world s) = (werr, cs_world s1)" using wr on_world_eq by fastforce
      then show ?thesis by (rule writeNonZero_step [OF file_at_owned [OF Suc.prems(1)], rotated]) simp
    qed (use wr refl' in auto)
    show ?thesis
    proof (cases werr)
      case (Some e)
      then show ?thesis using Suc.prems(3) True rd wr st1 by (auto simp: Let_def)
    next
      case None
      have fa: "file_at f data (pos + length p) (cs_world s1)"
      proof (cases "p = []")
        case False
        then have "writeNonZero f p (int pos) (cs_world s) = (None, cs_world s1)" using wr on_world_eq None by fastforce
        then show ?thesis by (rule writeNonZero_file_at [OF Suc.prems(1) pl(1)])
      qed (use wr Suc.prems(1) in auto)
      let ?s2 = "if p \<noteq> [] then progress (int (length p)) s1 else s1"
      have w2: "cs_world ?s2 = cs_world s1" by simp
      show ?thesis
      proof (cases "rerr = Some (Sentinel IoEOF) \<and> len - int (length p) > 0 \<or> rerr \<noteq> None \<and> rerr \<noteq> Some (Sentinel IoEOF)")
        case True
        then show ?thesis using Suc.prems(3) \<open>len > 0 \<and> \<not> canceled co s\<close> rd wr st1 None
          by (auto simp: Let_def split: if_splits)
      next
        case False
        then have cr: "copyRange k f src (int (pos + length p)) (len - int (length p)) co ?s2 = Some (r, s')"
          using Suc.prems(3) True rd wr None by (cases "p = []") (simp_all add: Let_def, auto split: if_splits)
        from Suc.IH [OF _ _ this] fa w2 pl(2) Suc.prems(2)
        have ih: "own_step f (int (pos + length p)) (cs_world s1) (cs_world s')"
          "r = None \<longrightarrow> file_at f data (pos + length p + nat (len - int (length p))) (cs_world s')" by auto
        have "pos + length p + nat (len - int (length p)) = pos + nat len" using pl(2) by simp
        then show ?thesis using ih(2) own_step_trans [OF st1 own_step_mono [OF ih(1)]] by (simp only:)
      qed
    qed
  qed
qed

abbreviation good :: "('b \<Rightarrow> extent_loc set) \<Rightarrow> (int \<Rightarrow> int \<Rightarrow> 8 word) \<Rightarrow> 'w \<Rightarrow> 'b dedup \<Rightarrow> bool" where
  "good items disk w d \<equiv> index_good items disk (cont w) (eo_fstat eo w) d"

lemma good_ref: "good items disk w d \<Longrightarrow> recorded items d dev l \<Longrightarrow>
    el_ref l < length (dd_refs d) \<and> holds (cont w) disk dev (dd_refs d ! el_ref l) l"
  by (simp add: index_good_def)

lemma good_own_step:
  assumes g: "good items disk w d" and st: "own_step f lim w w'" and fit: "fits items d (ino f) lim"
  shows "good items disk w' d"
  unfolding index_good_def
proof (intro conjI allI impI ballI)
  fix dev l assume rec: "recorded items d dev l"
  let ?r = "dd_refs d ! el_ref l"
  show "el_ref l < length (dd_refs d)" using good_ref [OF g rec] by simp
  have h: "holds (cont w) disk dev ?r l" using good_ref [OF g rec] by simp
  show "holds (cont w') disk dev ?r l"
  proof (cases "dr_dead ?r")
    case True
    then show ?thesis using h by (simp add: holds_def)
  next
    case False
    have "byte_at (cont w' (dr_dev ?r, dr_ino ?r)) (el_off l + i) = byte_at (cont w (dr_dev ?r, dr_ino ?r)) (el_off l + i)"
      if "0 \<le> i" "i < el_length l" for i
    proof (cases "(dr_dev ?r, dr_ino ?r) = ino f")
      case True
      then have "el_off l + el_length l \<le> lim" using fit rec False by (auto simp: fits_def)
      moreover have "0 \<le> el_off l" using h by (simp add: holds_def)
      ultimately show ?thesis using st that True by (auto simp: own_step_def same_below_def)
    next
      case False
      then show ?thesis using st by (simp add: own_step_def)
    qed
    then show ?thesis using h by (simp add: holds_def)
  qed
next
  fix r h assume "r \<in> set (dd_refs d)" "\<not> dr_dead r" "dr_fd r = Some h"
  then show "eo_fstat eo w' h = Some (dr_dev r, dr_ino r)" using g st by (auto simp: index_good_def own_step_def)
qed

text \<open>The worker in the middle of its file: the index is good, the file is written up to \<open>pos\<close>, and so far every live
  record of its inode lies below \<open>pos\<close>.\<close>

definition writing ::
  "('b \<Rightarrow> extent_loc set) \<Rightarrow> (int \<Rightarrow> int \<Rightarrow> 8 word) \<Rightarrow> int \<Rightarrow> bytes \<Rightarrow> 'w gofile \<Rightarrow> nat \<Rightarrow> ('w, 'b) xst \<Rightarrow> bool" where
  "writing items disk sdev data f pos x \<longleftrightarrow>
     good items disk (xs_world x) (xs_dedup x) \<and> file_at f data pos (xs_world x) \<and>
     fits items (xs_dedup x) (ino f) (int pos) \<and> fd_src_dev (xs_file x) = sdev \<and>
     (\<exists>i. fd_ref (xs_file x) = Some i \<and> i < length (dd_refs (xs_dedup x)) \<and> \<not> dr_dead (dd_refs (xs_dedup x) ! i) \<and>
        (dr_dev (dd_refs (xs_dedup x) ! i), dr_ino (dd_refs (xs_dedup x) ! i)) = ino f)"

lemma writing_good: "writing items disk sdev data f pos x \<Longrightarrow> good items disk (xs_world x) (xs_dedup x)"
  by (simp add: writing_def)

lemma writing_cong:
  "xs_world y = xs_world x \<Longrightarrow> dd_refs (xs_dedup y) = dd_refs (xs_dedup x) \<Longrightarrow>
   dd_by_dev (xs_dedup y) = dd_by_dev (xs_dedup x) \<Longrightarrow> fd_ref (xs_file y) = fd_ref (xs_file x) \<Longrightarrow>
   fd_src_dev (xs_file y) = fd_src_dev (xs_file x) \<Longrightarrow>
   writing items disk sdev data f pos y = writing items disk sdev data f pos x"
  by (simp add: writing_def index_good_def fits_def recorded_def)

lemma good_cong:
  "dd_refs d' = dd_refs d \<Longrightarrow> dd_by_dev d' = dd_by_dev d \<Longrightarrow> good items disk w d' = good items disk w d"
  by (simp add: index_good_def recorded_def)

text \<open>A step of the worker's own that brings its file from \<open>pos\<close> to \<open>pos'\<close>.\<close>

lemma writing_step:
  assumes w: "writing items disk sdev data f pos x" and st: "own_step f (int pos) (xs_world x) (xs_world y)"
    and fa: "file_at f data pos' (xs_world y)" "pos \<le> pos'"
    and same: "xs_dedup y = xs_dedup x" "xs_file y = xs_file x"
  shows "writing items disk sdev data f pos' y"
  using w good_own_step [OF writing_good [OF w] st] fa fits_mono [of items "xs_dedup x" "ino f" "int pos" "int pos'"] same
  by (auto simp: writing_def)

lemma copy_range_x_writing:
  assumes t: "truthful eo disk src sdev data" and w: "writing items disk sdev data f pos x"
    and s: "sg_off s = int pos" "0 < sg_length s" "sg_off s + sg_length s \<le> int (length data)"
    and cr: "copy_range_x k f src s co x = Some (r, y)"
  shows "good items disk (xs_world y) (xs_dedup y) \<and> xs_dedup y = xs_dedup x \<and> xs_file y = xs_file x \<and>
    (r = None \<longrightarrow> writing items disk sdev data f (pos + nat (sg_length s)) y)"
proof -
  obtain c where c: "copyRange k f src (int pos) (sg_length s) co (xs_cst x) = Some (r, c)" "y = x\<lparr>xs_cst := c\<rparr>"
    using cr s(1) by (auto simp: copy_range_x_def)
  have "file_at f data pos (xs_world x)" using w by (simp add: writing_def)
  from copyRange_file_at [OF t this _ c(1)] s
  have st: "own_step f (int pos) (xs_world x) (xs_world y)"
    and fa: "r = None \<longrightarrow> file_at f data (pos + nat (sg_length s)) (xs_world y)" using c(2) by auto
  have "good items disk (xs_world y) (xs_dedup x)"
    using good_own_step [OF writing_good [OF w] st] w by (simp add: writing_def)
  then show ?thesis using writing_step [OF w st _ _ , of "pos + nat (sg_length s)"] fa c(2) by auto
qed

subsection \<open>A clone\<close>

lemma padded_append_below: "int (length c) \<le> b \<Longrightarrow> same_below b c (padded (nat b) c @ xs)"
  by (auto simp: same_below_def byte_at_def padded_def nth_append)

lemma clone_step:
  assumes ow: "owned f w" and st: "eo_fstat eo w h = Some i" and a: "0 \<le> a" "0 < n"
    and b: "int (length (cont w (ino f))) \<le> b" and cl: "eo_clone eo (eo_fd eo f) h a n b w = (err, w')"
  shows "own_step f b w w' \<and> eo_fstat eo w' = eo_fstat eo w \<and>
    (err \<noteq> None \<longrightarrow> cont w' (ino f) = cont w (ino f)) \<and>
    (err = None \<longrightarrow> a + n \<le> int (length (cont w i)) \<and>
       cont w' (ino f) = padded (nat b) (cont w (ino f)) @ slice (nat a) (nat (a + n)) (cont w i))"
  using clone_law [OF ow st a b cl] padded_append_below [OF b] by (cases err) (auto simp: own_step_def)

lemma with_ref_clone:
  assumes g: "good items disk w d" and r: "r \<in> set (dd_refs d)" "\<not> dr_dead r" and ow: "owned f w"
    and a: "0 \<le> a" "0 < n" and b: "int (length (cont w (ino f))) \<le> b"
    and wr: "with_ref eo r (\<lambda>h. eo_clone eo (eo_fd eo f) h a n b) w = (err, w')"
  shows "own_step f b w w' \<and> (err \<noteq> None \<longrightarrow> cont w' (ino f) = cont w (ino f)) \<and>
    (err = None \<longrightarrow> a + n \<le> int (length (cont w (dr_dev r, dr_ino r))) \<and> cont w' (ino f) =
       padded (nat b) (cont w (ino f)) @ slice (nat a) (nat (a + n)) (cont w (dr_dev r, dr_ino r)))"
proof (cases "dr_fd r")
  case (Some h)
  then have "eo_fstat eo w h = Some (dr_dev r, dr_ino r)" using g r by (auto simp: index_good_def)
  moreover have "eo_clone eo (eo_fd eo f) h a n b w = (err, w')" using wr r(2) Some by (simp add: with_ref_def)
  ultimately show ?thesis using clone_step [OF ow _ a b] by blast
next
  case None
  show ?thesis
  proof (cases "dr_path r = []")
    case True
    then show ?thesis using wr r(2) None own_step_refl [OF ow] by (auto simp: with_ref_def)
  next
    case False
    obtain o' w1 where op: "eo_open eo (dr_path r) w = (o', w1)" by fastforce
    have still1: "still cont (eo_fstat eo) owned w w1" using open_law [OF op] by blast
    have s1: "own_step f b w w1" "cont w1 = cont w" "owned f w1"
      using still1 ow by (auto simp: still_def own_step_def)
    show ?thesis
    proof (cases o')
      case (Inl e)
      then show ?thesis using wr r(2) None False op s1 by (auto simp: with_ref_def)
    next
      case (Inr h)
      have close: "own_step f b w (eo_close eo h w2) \<and> cont (eo_close eo h w2) = cont w2"
        if "own_step f b w1 w2" "eo_fstat eo w2 = eo_fstat eo w1" for w2
      proof -
        have cl: "cont (eo_close eo h w2) = cont w2" "\<And>f. owned f w2 \<Longrightarrow> owned f (eo_close eo h w2)"
          "\<And>h' i. eo_fstat eo w h' = Some i \<Longrightarrow> eo_fstat eo (eo_close eo h w2) h' = Some i"
          using open_law [OF op] Inr that(2) by blast+
        then show ?thesis using that(1) s1(2) by (simp add: own_step_def)
      qed
      show ?thesis
      proof (cases "same_inode eo w1 h (dr_dev r) (dr_ino r)")
        case False
        then have "err \<noteq> None" "w' = eo_close eo h w1"
          using wr r(2) None \<open>dr_path r \<noteq> []\<close> op Inr by (auto simp: with_ref_def)
        then show ?thesis using close [OF own_step_refl [OF s1(3)] refl] s1(2) by auto
      next
        case True
        obtain e w2 where cl: "eo_clone eo (eo_fd eo f) h a n b w1 = (e, w2)" by fastforce
        have res: "err = e" "w' = eo_close eo h w2"
          using wr r(2) None \<open>dr_path r \<noteq> []\<close> op Inr True cl by (auto simp: with_ref_def)
        have "eo_fstat eo w1 h = Some (dr_dev r, dr_ino r)" using True by (simp add: same_inode_def)
        from clone_step [OF s1(3) this a _ cl] b s1(2)
        have c: "own_step f b w1 w2 \<and> eo_fstat eo w2 = eo_fstat eo w1 \<and>
            (e \<noteq> None \<longrightarrow> cont w2 (ino f) = cont w (ino f)) \<and>
            (e = None \<longrightarrow> a + n \<le> int (length (cont w (dr_dev r, dr_ino r))) \<and> cont w2 (ino f) =
               padded (nat b) (cont w (ino f)) @ slice (nat a) (nat (a + n)) (cont w (dr_dev r, dr_ino r)))"
          by simp
        then show ?thesis using close [of w2] res by simp
      qed
    qed
  qed
qed

text \<open>A record that covers the segment supplies its bytes.\<close>

lemma cloned_bytes:
  assumes h: "holds c disk sdev r l" and live: "\<not> dr_dead r" and seg: "true_segment disk sdev data s"
    and pos: "sg_off s = int pos" "sg_off s + sg_length s \<le> int (length data)" "0 < sg_length s"
    and in': "el_phys l \<le> sg_phys s" "sg_phys s + sg_length s \<le> el_phys l + el_length l"
    and a: "a = el_off l + (sg_phys s - el_phys l)" "a + sg_length s \<le> int (length (c (dr_dev r, dr_ino r)))"
  shows "slice (nat a) (nat (a + sg_length s)) (c (dr_dev r, dr_ino r)) = take (nat (sg_length s)) (drop pos data)"
proof (rule nth_equalityI)
  let ?c = "c (dr_dev r, dr_ino r)"
  have a0: "0 \<le> a" using h in' a by (simp add: holds_def)
  have n: "nat (a + sg_length s) = nat a + nat (sg_length s)" using a0 pos(3) by simp
  show "length (slice (nat a) (nat (a + sg_length s)) ?c) = length (take (nat (sg_length s)) (drop pos data))"
    using a0 a(2) pos by (simp add: slice_def n)
  fix i assume i: "i < length (slice (nat a) (nat (a + sg_length s)) ?c)"
  then have i': "i < nat (sg_length s)" "nat a + i < length ?c" by (auto simp: slice_def n)
  have "slice (nat a) (nat (a + sg_length s)) ?c ! i = byte_at ?c (a + int i)"
    using i' a0 by (simp add: slice_def n byte_at_def nat_add_distrib)
  also have "\<dots> = disk sdev (el_phys l + (sg_phys s - el_phys l + int i))"
  proof -
    have "\<forall>i. 0 \<le> i \<and> i < el_length l \<longrightarrow> byte_at ?c (el_off l + i) = disk sdev (el_phys l + i)"
      using h live by (simp add: holds_def)
    from this [rule_format, of "sg_phys s - el_phys l + int i"] show ?thesis using in' i' a(1) by (simp add: add.assoc)
  qed
  also have "\<dots> = data ! nat (sg_off s + int i)"
  proof -
    have "\<forall>i. 0 \<le> i \<and> i < sg_length s \<longrightarrow> data ! nat (sg_off s + i) = disk sdev (sg_phys s + i)"
      using seg by (simp add: true_segment_def)
    from this [rule_format, of "int i"] show ?thesis using i' by (simp add: algebra_simps)
  qed
  also have "\<dots> = take (nat (sg_length s)) (drop pos data) ! i"
    using i' pos by (simp add: nat_add_distrib)
  finally show "slice (nat a) (nat (a + sg_length s)) ?c ! i = take (nat (sg_length s)) (drop pos data) ! i" .
qed

subsection \<open>The index\<close>

lemma insert_refs [simp]: "dd_refs (insert_locked bt dev l d) = dd_refs d"
  by (simp add: insert_locked_def Let_def)

lemma insert_recorded:
  "tree_contract bt items \<Longrightarrow> recorded items (insert_locked bt dev l d) dev' l' \<Longrightarrow>
    recorded items d dev' l' \<or> dev' = dev \<and> l' = l"
  by (auto simp: tree_contract_def recorded_def insert_locked_def Let_def split: if_splits option.splits)

lemma find_scan_Some: "find_scan d phys len n rs = Some r \<Longrightarrow> r \<in> set rs \<and> covers d phys len r"
  by (induction d phys len n rs rule: find_scan.induct) (auto split: if_splits)

lemma acquire_refs:
  "acquire_extent bt dev phys len d = (a, d') \<Longrightarrow> dd_refs d' = dd_refs d \<and> dd_by_dev d' = dd_by_dev d"
  by (auto simp: acquire_extent_def Let_def split: option.splits prod.splits)

lemma acquire_Found:
  assumes "tree_contract bt items" and "acquire_extent bt dev phys len d = (Found loc delta, d')"
  shows "recorded items d dev loc \<and> el_phys loc \<le> phys \<and> covers d phys len loc \<and> delta = wrap64 (phys - el_phys loc)"
proof -
  obtain t where t: "dd_by_dev d dev = Some t" "find_loc bt d t phys len = Some (loc, delta)"
    using assms(2) by (auto simp: acquire_extent_def Let_def split: option.splits prod.splits)
  then have "find_scan d phys len 0 (bt_down bt \<lparr>el_phys = phys, el_length = max_int64, el_off = 0, el_ref = 0\<rparr> t) = Some loc"
    "delta = wrap64 (phys - el_phys loc)" by (auto simp: find_loc_def split: option.splits)
  moreover from find_scan_Some [OF this(1)] have "loc \<in> items t \<and> el_phys loc \<le> phys \<and> covers d phys len loc"
    using assms(1) by (force simp: tree_contract_def)
  ultimately show ?thesis using t(1) by (auto simp: recorded_def)
qed

lemma record_seg_ok:
  assumes t: "truthful eo disk src sdev data" and rs: "record_seg k eo src s x = Some (lo, y)"
    and s: "0 \<le> sg_off s" "0 < sg_length s" "sg_off s + sg_length s \<le> int (length data)" "int (length data) < 2 ^ 63"
  shows "xs_world y = xs_world x \<and> xs_dedup y = xs_dedup x \<and> fd_ref (xs_file y) = fd_ref (xs_file x) \<and>
    fd_src_dev (xs_file y) = fd_src_dev (xs_file x) \<and>
    (\<forall>l. lo = Some l \<longrightarrow> true_segment disk sdev data s \<and>
       l = \<lparr>el_phys = sg_phys s, el_length = sg_length s, el_off = sg_off s, el_ref = the (fd_ref (xs_file x))\<rparr>)"
proof -
  obtain res where fm: "fiemap k eo (xs_world x) src (sg_off s) (sg_length s) = Some res"
    using rs by (auto simp: record_seg_def split: option.splits)
  show ?thesis
  proof (cases res)
    case (Inr exts)
    then have "true_extents disk sdev data exts" using fiemap_true [OF t] fm by blast
    then show ?thesis using rs fm Inr mapped_true [of disk sdev data exts s] s
      by (auto simp: record_seg_def Let_def split: if_splits)
  qed (use rs fm in \<open>auto simp: record_seg_def\<close>)
qed

text \<open>Recording the segment just written.\<close>

lemma record_writing:
  assumes tc: "tree_contract bt items" and w: "writing items disk sdev data f (pos + nat (sg_length s)) x"
    and seg: "true_segment disk sdev data s"
    and s: "sg_off s = int pos" "0 < sg_length s" "int (length data) < 2 ^ 63"
    and l: "l = \<lparr>el_phys = sg_phys s, el_length = sg_length s, el_off = sg_off s, el_ref = the (fd_ref (xs_file x))\<rparr>"
  shows "writing items disk sdev data f (pos + nat (sg_length s)) (x\<lparr>xs_dedup := insert_locked bt sdev l (xs_dedup x)\<rparr>)"
proof -
  let ?d = "xs_dedup x" and ?w = "xs_world x" and ?d' = "insert_locked bt sdev l (xs_dedup x)"
  obtain i where i: "fd_ref (xs_file x) = Some i" "i < length (dd_refs ?d)" "\<not> dr_dead (dd_refs ?d ! i)"
    "(dr_dev (dd_refs ?d ! i), dr_ino (dd_refs ?d ! i)) = ino f" using w by (auto simp: writing_def)
  have fa: "file_at f data (pos + nat (sg_length s)) ?w" using w by (simp add: writing_def)
  then have wr: "written data (pos + nat (sg_length s)) (cont ?w (ino f))" "pos + nat (sg_length s) \<le> length data"
    by (auto simp: file_at_def written_def)
  have b: "byte_at (cont ?w (ino f)) (int pos + j) = disk sdev (sg_phys s + j)" if "0 \<le> j" "j < sg_length s" for j
    using written_byte [OF wr(1), of "int pos + j"] seg that s(1) by (simp add: true_segment_def)
  have "int pos + sg_length s < 2 ^ 63" using wr(2) s by linarith
  then have hl: "holds (cont ?w) disk sdev (dd_refs ?d ! i) l"
    using b i(4) seg s l by (simp add: holds_def true_segment_def)
  have g: "good items disk ?w ?d" using w by (simp add: writing_def)
  have "good items disk ?w ?d'"
    unfolding index_good_def
  proof (intro conjI allI impI ballI)
    fix dev l' assume "recorded items ?d' dev l'"
    then consider "recorded items ?d dev l'" | "dev = sdev" "l' = l" using insert_recorded [OF tc] by blast
    then have "el_ref l' < length (dd_refs ?d) \<and> holds (cont ?w) disk dev (dd_refs ?d ! el_ref l') l'"
      by cases (use good_ref [OF g] hl i l in auto)
    then show "el_ref l' < length (dd_refs ?d')" "holds (cont ?w) disk dev (dd_refs ?d' ! el_ref l') l'" by simp_all
  next
    fix r h assume "r \<in> set (dd_refs ?d')" "\<not> dr_dead r" "dr_fd r = Some h"
    then show "eo_fstat eo ?w h = Some (dr_dev r, dr_ino r)" using g by (auto simp: index_good_def)
  qed
  moreover have "fits items ?d' (ino f) (int (pos + nat (sg_length s)))"
    unfolding fits_def
  proof (intro allI impI)
    fix dev l' assume a: "recorded items ?d' dev l' \<and> \<not> dr_dead (dd_refs ?d' ! el_ref l') \<and>
      (dr_dev (dd_refs ?d' ! el_ref l'), dr_ino (dd_refs ?d' ! el_ref l')) = ino f"
    then consider "recorded items ?d dev l'" | "l' = l" using insert_recorded [OF tc] by blast
    then show "el_off l' + el_length l' \<le> int (pos + nat (sg_length s))"
    proof cases
      case 1
      then show ?thesis using w a by (auto simp: writing_def fits_def)
    next
      case 2
      then show ?thesis using l s by simp
    qed
  qed
  ultimately show ?thesis using w by (simp add: writing_def)
qed

end

end
