(* ===== verification/ExtentSpec.thy ===== *)
theory ExtentSpec
  imports ExtentClone
begin

text \<open>
  The extent-aware copy is exact: a shared segment, the list of segments, and the whole file, under the contract and with the
  invariants of ExtentClone.
\<close>

context clone_fs
begin

subsection \<open>One shared segment\<close>

lemma set_world_simps [simp]: "xs_world (set_world w x) = w" "xs_dedup (set_world w x) = xs_dedup x"
  "xs_file (set_world w x) = xs_file x"
  by (simp_all add: set_world_def)

text \<open>The clone of a found record: the segment is there, or nothing has changed.\<close>

lemma cloneFrom_writing:
  assumes tc: "tree_contract bt items" and w: "writing items disk sdev data f pos x"
    and seg: "true_segment disk sdev data s"
    and s: "sg_off s = int pos" "0 < sg_length s" "sg_off s + sg_length s \<le> int (length data)" "int (length data) < 2 ^ 63"
    and ac: "acquire_extent bt sdev (sg_phys s) (sg_length s) (xs_dedup x) = (Found loc delta, d')"
    and cf: "cloneFrom eo f loc delta s x = (err, y)"
  shows "xs_dedup y = xs_dedup x \<and> xs_file y = xs_file x \<and>
    writing items disk sdev data f (if err = None then pos + nat (sg_length s) else pos) y"
proof -
  let ?d = "xs_dedup x" and ?w = "xs_world x" and ?r = "dd_refs (xs_dedup x) ! el_ref loc" and ?n = "nat (sg_length s)"
  have g: "good items disk ?w ?d" using w by (simp add: writing_def)
  note af = acquire_Found [OF tc ac]
  have rec: "recorded items ?d sdev loc" using af by blast
  note gr = good_ref [OF g rec]
  have live: "\<not> dr_dead ?r" using af by (simp add: covers_def)
  have h: "holds (cont ?w) disk sdev ?r loc" using gr by blast
  have ph: "0 \<le> sg_phys s" "sg_phys s + sg_length s < 2 ^ 63" using seg by (auto simp: true_segment_def)
  have hb: "0 \<le> el_phys loc" "el_phys loc + el_length loc < 2 ^ 63" "0 \<le> el_off loc" "el_off loc + el_length loc < 2 ^ 63"
    "0 < el_length loc" using h by (auto simp: holds_def)
  have le: "el_phys loc \<le> sg_phys s" "sg_phys s + sg_length s \<le> el_phys loc + el_length loc"
    using af ph hb s(2) by (auto simp: covers_def wrap64_id)
  have dl: "delta = sg_phys s - el_phys loc" using af ph hb le s(2) by (simp add: wrap64_id)
  let ?a = "el_off loc + delta"
  have a: "0 \<le> ?a" "wrap64 ?a = ?a" using hb le dl s(2) by (simp_all add: wrap64_id)
  have fa: "file_at f data pos ?w" using w by (simp add: writing_def)
  have ow: "owned f ?w" and wr: "written data pos (cont ?w (ino f))" using fa by (auto simp: file_at_def)
  have cl: "int (length (cont ?w (ino f))) \<le> int pos" using wr by (simp add: written_def)
  have rin: "?r \<in> set (dd_refs ?d)" using gr by simp
  have y: "y = set_world (xs_world y) x" and call: "with_ref eo ?r (\<lambda>h. eo_clone eo (eo_fd eo f) h ?a (sg_length s) (int pos)) ?w = (err, xs_world y)"
    using cf a(2) s(1) by (auto simp: cloneFrom_def split: prod.splits)
  have res: "own_step f (int pos) ?w (xs_world y)" "err \<noteq> None \<longrightarrow> cont (xs_world y) (ino f) = cont ?w (ino f)"
    "err = None \<longrightarrow> ?a + sg_length s \<le> int (length (cont ?w (dr_dev ?r, dr_ino ?r))) \<and> cont (xs_world y) (ino f) =
       padded pos (cont ?w (ino f)) @ slice (nat ?a) (nat (?a + sg_length s)) (cont ?w (dr_dev ?r, dr_ino ?r))"
    using with_ref_clone [OF g rin live ow a(1) s(2) cl call] by auto
  have fin: "file_at f data (if err = None then pos + ?n else pos) (xs_world y)"
  proof (cases err)
    case None
    then have "cont (xs_world y) (ino f) = take pos data @ take ?n (drop pos data)"
      using res(3) cloned_bytes [OF h live seg s(1,3,2) le _ , of ?a] wr dl by (simp add: written_def)
    then have c: "cont (xs_world y) (ino f) = take (pos + ?n) data" by (simp add: take_add)
    have "pos + ?n \<le> length data" using s by linarith
    then show ?thesis using c own_step_owned [OF res(1)] None by (simp add: file_at_def written_def padded_def)
  next
    case (Some e)
    then show ?thesis using res(1,2) wr by (auto simp: file_at_def own_step_def)
  qed
  have "xs_dedup y = xs_dedup x" "xs_file y = xs_file x" using y by (metis set_world_simps)+
  then show ?thesis using writing_step [OF w res(1) fin] by simp
qed

text \<open>Writing the segment, then looking again whether it may be recorded.\<close>

lemma copy_and_record:
  assumes t: "truthful eo disk src sdev data" and w: "writing items disk sdev data f pos x"
    and s: "sg_off s = int pos" "0 < sg_length s" "sg_off s + sg_length s \<le> int (length data)" "int (length data) < 2 ^ 63"
    and cr: "copy_range_x k f src s co x = Some (None, y)" and rs: "record_seg k eo src s y = Some (lo, z)"
  shows "writing items disk sdev data f (pos + nat (sg_length s)) z \<and> xs_dedup z = xs_dedup x \<and>
    fd_src_dev (xs_file z) = sdev \<and>
    (\<forall>l. lo = Some l \<longrightarrow> true_segment disk sdev data s \<and>
       l = \<lparr>el_phys = sg_phys s, el_length = sg_length s, el_off = sg_off s, el_ref = the (fd_ref (xs_file z))\<rparr>)"
proof -
  have y: "writing items disk sdev data f (pos + nat (sg_length s)) y" "xs_dedup y = xs_dedup x"
    using copy_range_x_writing [OF t w s(1-3) cr] by auto
  have z: "xs_world z = xs_world y" "xs_dedup z = xs_dedup y" "fd_ref (xs_file z) = fd_ref (xs_file y)"
    "fd_src_dev (xs_file z) = fd_src_dev (xs_file y)"
    "\<forall>l. lo = Some l \<longrightarrow> true_segment disk sdev data s \<and>
       l = \<lparr>el_phys = sg_phys s, el_length = sg_length s, el_off = sg_off s, el_ref = the (fd_ref (xs_file y))\<rparr>"
    using record_seg_ok [OF t rs _ s(2,3,4)] s(1) by auto
  have "writing items disk sdev data f (pos + nat (sg_length s)) z"
    using y(1) writing_cong [of z y items disk sdev data f] z by simp
  then show ?thesis using y z by (auto simp: writing_def)
qed

text \<open>What a shared segment, or the whole list of them, leaves: the file further on, or an error with a good index.\<close>

definition outcome ::
  "('b \<Rightarrow> extent_loc set) \<Rightarrow> (int \<Rightarrow> int \<Rightarrow> 8 word) \<Rightarrow> int \<Rightarrow> bytes \<Rightarrow> 'w gofile \<Rightarrow> nat \<Rightarrow> goerr + 'a \<Rightarrow> ('w, 'b) xst \<Rightarrow> bool" where
  "outcome items disk sdev data f pos res y \<longleftrightarrow>
     good items disk (xs_world y) (xs_dedup y) \<and> (\<forall>v. res = Inr v \<longrightarrow> writing items disk sdev data f pos y)"

lemma outcome_Inr: "writing items disk sdev data f pos y \<Longrightarrow> outcome items disk sdev data f pos res y"
  by (simp add: outcome_def writing_good)

lemma copy_found_outcome:
  assumes tc: "tree_contract bt items" and t: "truthful eo disk src sdev data"
    and w: "writing items disk sdev data f pos x" and seg: "true_segment disk sdev data s"
    and s: "sg_off s = int pos" "0 < sg_length s" "sg_off s + sg_length s \<le> int (length data)" "int (length data) < 2 ^ 63"
    and ac: "acquire_extent bt sdev (sg_phys s) (sg_length s) (xs_dedup x) = (Found loc delta, d')"
    and cf: "copy_found k eo bt f src s co loc delta x = Some (res, y)"
  shows "outcome items disk sdev data f (pos + nat (sg_length s)) res y"
proof -
  obtain cerr x1 where c: "(if dr_dev (dd_refs (xs_dedup x) ! el_ref loc) = dr_dev (dd_refs (xs_dedup x) ! the (fd_ref (xs_file x)))
      then cloneFrom eo f loc delta s x else (Some (Sentinel ErrNoSource), x)) = (cerr, x1)" by fastforce
  have x1: "writing items disk sdev data f (if cerr = None then pos + nat (sg_length s) else pos) x1"
    using c cloneFrom_writing [OF tc w seg s ac, of cerr x1] w by (auto split: if_splits)
  show ?thesis
  proof (cases cerr)
    case None
    then show ?thesis using cf c x1 by (auto simp: copy_found_def intro: outcome_Inr)
  next
    case (Some e)
    then have w1: "writing items disk sdev data f pos x1" using x1 by simp
    obtain r y1 where cr: "copy_range_x k f src s co x1 = Some (r, y1)"
      using cf c Some by (cases "copy_range_x k f src s co x1") (auto simp: copy_found_def)
    show ?thesis
    proof (cases r)
      case (Some e)
      then show ?thesis using cf c \<open>cerr = Some _\<close> cr copy_range_x_writing [OF t w1 s(1-3) cr]
        by (auto simp: copy_found_def outcome_def)
    next
      case None
      obtain lo z where rs: "record_seg k eo src s y1 = Some (lo, z)"
        using cf c \<open>cerr = Some _\<close> cr None by (cases "record_seg k eo src s y1") (auto simp: copy_found_def)
      note cr' = cr [unfolded None]
      note z = copy_and_record [OF t w1 s cr' rs]
      show ?thesis
      proof (cases lo)
        case None
        then show ?thesis using cf c \<open>cerr = Some _\<close> cr' rs z by (auto simp: copy_found_def intro: outcome_Inr)
      next
        case (Some l)
        then have "writing items disk sdev data f (pos + nat (sg_length s)) (z\<lparr>xs_dedup := insert_locked bt sdev l (xs_dedup z)\<rparr>)"
          using record_writing [OF tc _ _ s(1,2,4)] z by blast
        then show ?thesis using cf c \<open>cerr = Some _\<close> cr' rs Some z by (auto simp: copy_found_def intro: outcome_Inr)
      qed
    qed
  qed
qed

lemma release_writing:
  "writing items disk sdev data f pos (z\<lparr>xs_dedup := d\<rparr>) \<Longrightarrow> dd_refs d' = dd_refs d \<Longrightarrow> dd_by_dev d' = dd_by_dev d \<Longrightarrow>
    writing items disk sdev data f pos (z\<lparr>xs_dedup := d'\<rparr>)"
  using writing_cong [of "z\<lparr>xs_dedup := d'\<rparr>" "z\<lparr>xs_dedup := d\<rparr>"] by simp

lemma copy_mine_outcome:
  assumes tc: "tree_contract bt items" and t: "truthful eo disk src sdev data"
    and w: "writing items disk sdev data f pos x"
    and s: "sg_off s = int pos" "0 < sg_length s" "sg_off s + sg_length s \<le> int (length data)" "int (length data) < 2 ^ 63"
    and c: "km_dev c = sdev" and cm: "copy_mine k eo bt f src s co c x = Some (res, y)"
  shows "outcome items disk sdev data f (pos + nat (sg_length s)) res y"
proof -
  obtain r y1 where cr: "copy_range_x k f src s co x = Some (r, y1)"
    using cm by (cases "copy_range_x k f src s co x") (auto simp: copy_mine_def)
  show ?thesis
  proof (cases r)
    case (Some e)
    have "good items disk (xs_world y1) (xs_dedup y1)" using copy_range_x_writing [OF t w s(1-3) cr] by blast
    moreover have "res = Inl e" "y = y1\<lparr>xs_dedup := release_claim bt c None (xs_dedup y1)\<rparr>"
      using cm cr Some by (auto simp: copy_mine_def)
    ultimately show ?thesis by (simp add: outcome_def release_claim_def Let_def index_good_def recorded_def)
  next
    case None
    obtain lo z where rs: "record_seg k eo src s y1 = Some (lo, z)"
      using cm cr None by (cases "record_seg k eo src s y1") (auto simp: copy_mine_def)
    note z = copy_and_record [OF t w s cr [unfolded None] rs]
    have y: "res = Inr False" "y = z\<lparr>xs_dedup := release_claim bt c lo (xs_dedup z)\<rparr>"
      using cm cr None rs by (auto simp: copy_mine_def)
    let ?d = "case lo of Some l \<Rightarrow> insert_locked bt sdev l (xs_dedup z) | None \<Rightarrow> xs_dedup z"
    have "writing items disk sdev data f (pos + nat (sg_length s)) (z\<lparr>xs_dedup := ?d\<rparr>)"
    proof (cases lo)
      case (Some l)
      then have "writing items disk sdev data f (pos + nat (sg_length s)) (z\<lparr>xs_dedup := insert_locked bt sdev l (xs_dedup z)\<rparr>)"
        using record_writing [OF tc _ _ s(1,2,4)] z by blast
      then show ?thesis by (simp add: Some)
    next
      case None
      then show ?thesis using z writing_cong [of "z\<lparr>xs_dedup := xs_dedup z\<rparr>" z] by simp
    qed
    then have "writing items disk sdev data f (pos + nat (sg_length s)) y"
      unfolding y(2) by (rule release_writing) (cases lo; simp add: release_claim_def Let_def c)+
    then show ?thesis by (rule outcome_Inr)
  qed
qed

subsection \<open>The whole file\<close>

lemma others_writing:
  assumes pol: "polite eo cont owned items disk f (ino f)" and w: "writing items disk sdev data f pos x"
  shows "writing items disk sdev data f pos (others_step eo k x)"
proof -
  obtain w' d' where o': "eo_others eo k (xs_world x, xs_dedup x) = (w', d')" by fastforce
  have gd: "good items disk (xs_world x) (xs_dedup x)" and ow: "owned f (xs_world x)"
    using w by (auto simp: writing_def file_at_def)
  have r: "good items disk w' d'" "owned f w'" "cont w' (ino f) = cont (xs_world x) (ino f)"
    "\<forall>lim. fits items (xs_dedup x) (ino f) lim \<longrightarrow> fits items d' (ino f) lim"
    "\<forall>i < length (dd_refs (xs_dedup x)). \<not> dr_dead (dd_refs (xs_dedup x) ! i) \<and>
       (dr_dev (dd_refs (xs_dedup x) ! i), dr_ino (dd_refs (xs_dedup x) ! i)) = ino f \<longrightarrow>
       i < length (dd_refs d') \<and> dd_refs d' ! i = dd_refs (xs_dedup x) ! i"
    using pol [unfolded polite_def, rule_format, of k "xs_world x" "xs_dedup x" w' d'] o' gd ow by blast+
  have "others_step eo k x = (set_world w' x)\<lparr>xs_dedup := d'\<rparr>" by (simp add: others_step_def o')
  then show ?thesis using w r unfolding writing_def file_at_def by auto
qed

lemma wait_writing:
  assumes "polite eo cont owned items disk f (ino f)"
  shows "writing items disk sdev data f pos x \<Longrightarrow> wait_claim k eo i co x = Some (b, y) \<Longrightarrow>
    writing items disk sdev data f pos y"
proof (induction k arbitrary: x)
  case (Suc k)
  let ?x = "others_step eo k x"
  have w: "writing items disk sdev data f pos ?x" using others_writing [OF assms Suc.prems(1)] .
  have p: "writing items disk sdev data f pos (?x\<lparr>xs_cst := polled (xs_cst ?x)\<rparr>)"
    using w writing_cong [of "?x\<lparr>xs_cst := polled (xs_cst ?x)\<rparr>" ?x] by simp
  show ?case using Suc.prems(2) Suc.IH [OF p] w p by (auto simp: Let_def split: if_splits)
qed simp

lemma copyShared_outcome:
  assumes tc: "tree_contract bt items" and t: "truthful eo disk src sdev data" and pol: "polite eo cont owned items disk f (ino f)"
    and seg: "true_segment disk sdev data s"
    and s: "sg_off s = int pos" "0 < sg_length s" "sg_off s + sg_length s \<le> int (length data)" "int (length data) < 2 ^ 63"
  shows "writing items disk sdev data f pos x \<Longrightarrow> copyShared n k eo bt f src s co x = Some (res, y) \<Longrightarrow>
    outcome items disk sdev data f (pos + nat (sg_length s)) res y"
proof (induction n arbitrary: x)
  case (Suc n)
  have dev: "fd_src_dev (xs_file x) = sdev" using Suc.prems(1) by (simp add: writing_def)
  obtain a d where ac: "acquire_extent bt sdev (sg_phys s) (sg_length s) (xs_dedup x) = (a, d)" by fastforce
  let ?x = "x\<lparr>xs_dedup := d\<rparr>"
  have same: "dd_refs d = dd_refs (xs_dedup x)" "dd_by_dev d = dd_by_dev (xs_dedup x)" using acquire_refs [OF ac] by auto
  have w: "writing items disk sdev data f pos ?x" using Suc.prems(1) writing_cong [of ?x x] same by simp
  show ?case
  proof (cases a)
    case (Found loc delta)
    then have "d = xs_dedup x" using ac by (auto simp: acquire_extent_def Let_def split: option.splits prod.splits)
    then have "acquire_extent bt sdev (sg_phys s) (sg_length s) (xs_dedup ?x) = (Found loc delta, d)" using ac Found by simp
    moreover have "copy_found k eo bt f src s co loc delta ?x = Some (res, y)" using Suc.prems(2) ac Found dev by simp
    ultimately show ?thesis by (rule copy_found_outcome [OF tc t w seg s])
  next
    case (Busy c)
    then obtain b x' where wt: "wait_claim k eo (km_id c) co ?x = Some (b, x')"
      using Suc.prems(2) ac dev by (cases "wait_claim k eo (km_id c) co ?x") auto
    have w': "writing items disk sdev data f pos x'" using wait_writing [OF pol w wt] .
    show ?thesis
    proof (cases b)
      case True
      then show ?thesis using Suc.IH [OF w'] Suc.prems(2) ac Busy wt dev by simp
    next
      case False
      then show ?thesis using writing_good [OF w'] Suc.prems(2) ac Busy wt dev by (auto simp: outcome_def)
    qed
  next
    case (Mine c)
    then have "km_dev c = sdev" using ac by (auto simp: acquire_extent_def Let_def split: option.splits prod.splits)
    moreover have "copy_mine k eo bt f src s co c ?x = Some (res, y)" using Suc.prems(2) ac Mine dev by simp
    ultimately show ?thesis by (rule copy_mine_outcome [OF tc t w s])
  qed
qed simp

lemma copy_segments_outcome:
  assumes tc: "tree_contract bt items" and t: "truthful eo disk src sdev data" and pol: "polite eo cont owned items disk f (ino f)"
    and len: "int (length data) < 2 ^ 63"
  shows "tiles (int pos) segs (int (length data)) \<Longrightarrow> \<forall>s \<in> set segs. sg_shared s \<longrightarrow> true_segment disk sdev data s \<Longrightarrow>
    writing items disk sdev data f pos x \<Longrightarrow> copy_segments k eo bt f src co segs cloned x = Some (res, y) \<Longrightarrow>
    outcome items disk sdev data f (length data) res y"
proof (induction segs arbitrary: pos x cloned)
  case Nil
  then show ?case by (auto intro: outcome_Inr)
next
  case (Cons s ss)
  have s: "sg_off s = int pos" "0 < sg_length s" and rest: "tiles (int (pos + nat (sg_length s))) ss (int (length data))"
    using Cons.prems(1) by auto
  have le: "sg_off s + sg_length s \<le> int (length data)" using tiles_le [OF rest] s by simp
  let ?x = "x\<lparr>xs_cst := polled (xs_cst x)\<rparr>" and ?pos = "pos + nat (sg_length s)"
  have w: "writing items disk sdev data f pos ?x" using Cons.prems(3) writing_cong [of ?x x] by simp
  have more: "\<forall>s \<in> set ss. sg_shared s \<longrightarrow> true_segment disk sdev data s" using Cons.prems(2) by simp
  show ?case
  proof (cases "canceled co (xs_cst x)")
    case True
    then show ?thesis using Cons.prems(4) writing_good [OF w] by (auto simp: outcome_def)
  next
    case nc: False
    show ?thesis
    proof (cases "sg_shared s")
      case False
      then obtain r y1 where cr: "copy_range_x k f src s co ?x = Some (r, y1)"
        using Cons.prems(4) nc by (cases "copy_range_x k f src s co ?x") auto
      note cw = copy_range_x_writing [OF t w s le cr]
      show ?thesis
      proof (cases r)
        case None
        then show ?thesis using Cons.IH [OF rest more] cw Cons.prems(4) nc False cr by auto
      next
        case (Some e)
        then show ?thesis using cw Cons.prems(4) nc False cr by (auto simp: outcome_def)
      qed
    next
      case True
      then obtain r y1 where cs: "copyShared k k eo bt f src s co ?x = Some (r, y1)"
        using Cons.prems(4) nc by (cases "copyShared k k eo bt f src s co ?x") auto
      have seg: "true_segment disk sdev data s" using Cons.prems(2) True by simp
      note oc = copyShared_outcome [OF tc t pol seg s le len w cs]
      show ?thesis
      proof (cases r)
        case (Inl e)
        then show ?thesis using oc Cons.prems(4) nc True cs by (auto simp: outcome_def)
      next
        case (Inr ok)
        then have w1: "writing items disk sdev data f ?pos y1" using oc by (simp add: outcome_def)
        let ?y = "y1\<lparr>xs_cst := progress (sg_length s) (xs_cst y1)\<rparr>"
        have w2: "writing items disk sdev data f ?pos ?y" using w1 writing_cong [of ?y y1] by simp
        show ?thesis
        proof (cases ok)
          case True
          then show ?thesis using Cons.IH [OF rest more w2] Inr Cons.prems(4) nc \<open>sg_shared s\<close> cs by auto
        next
          case False
          then show ?thesis using Cons.IH [OF rest more w1] Inr Cons.prems(4) nc \<open>sg_shared s\<close> cs by auto
        qed
      qed
    qed
  qed
qed

text \<open>The truncation and the last look at the source.\<close>

lemma finish_dedup_exact:
  assumes w: "writing items disk sdev data f (length data) x"
    and fd: "finish_dedup k eo f src (int (length data)) mt cloned x = Some ((n, ok, err), y)"
  shows "ok \<and> good items disk (xs_world y) (xs_dedup y) \<and>
    (err = None \<longrightarrow> n = int (length data) \<and> cont (xs_world y) (ino f) = data)"
proof -
  obtain terr w1 where tr: "fl_truncate f (int (length data)) (xs_world x) = (terr, w1)" by fastforce
  have fa: "file_at f data (length data) (xs_world x)" and g: "good items disk (xs_world x) (xs_dedup x)"
    and ft: "fits items (xs_dedup x) (ino f) (int (length data))" using w by (auto simp: writing_def)
  have ow: "owned f (xs_world x)" using fa by (simp add: file_at_def)
  have "owned f w1" using touches_owned [OF truncate [OF ow]] tr by (metis snd_conv)
  then have st: "own_step f (int (length data)) (xs_world x) w1"
    using truncate_frame [OF ow _ tr] by (simp add: own_step_def)
  have g1: "good items disk w1 (xs_dedup x)" by (rule good_own_step [OF g st ft])
  have c: "cont w1 (ino f) = data" if "terr = None"
  proof -
    have "length (cont (xs_world x) (ino f)) \<le> length data" "padded (length data) (cont (xs_world x) (ino f)) = data"
      using fa by (auto simp: file_at_def written_def)
    then show ?thesis
      using truncate_sets [OF ow cont_obs [OF ow], of "length data" w1] tr that cont_obs [OF \<open>owned f w1\<close>] by simp
  qed
  have gc: "good items disk w1 ((xs_dedup x)\<lparr>dd_cloned := m\<rparr>)" for m
    using g1 by (simp add: index_good_def recorded_def)
  show ?thesis
  proof (cases "terr = None")
    case True
    then show ?thesis using fd tr g1 gc c
      by (auto simp: finish_dedup_def Let_def split: option.splits bool.splits)
  next
    case False
    then show ?thesis using fd tr g1 by (auto simp: finish_dedup_def Let_def)
  qed
qed

text \<open>The start: a new reference that no record names.\<close>

lemma planned_writing:
  assumes g: "good items disk (xs_world x) (xs_dedup x)" and ow: "owned f (xs_world x)"
    and e: "cont (xs_world x) (ino f) = []" and h: "eo_fstat eo (xs_world x) h = Some (ino f)"
    and fresh: "\<forall>r \<in> set (dd_refs (xs_dedup x)). dr_dead r \<or> (dr_dev r, dr_ino r) \<noteq> ino f"
    and d: "d = (xs_dedup x)\<lparr>dd_refs := dd_refs (xs_dedup x) @ [\<lparr>dr_fd = Some h, dr_path = [], dr_dev = fst (ino f),
        dr_ino = snd (ino f), dr_dead = False\<rparr>]\<rparr>"
  shows "writing items disk sdev data f 0 (x\<lparr>xs_dedup := d,
    xs_file := (xs_file x)\<lparr>fd_src_dev := sdev, fd_ref := Some (length (dd_refs (xs_dedup x)))\<rparr>\<rparr>)"
proof -
  have rec: "recorded items d dev l = recorded items (xs_dedup x) dev l" for dev l by (simp add: recorded_def d)
  have old: "dd_refs d ! el_ref l = dd_refs (xs_dedup x) ! el_ref l \<and> el_ref l < length (dd_refs (xs_dedup x))"
    if "recorded items (xs_dedup x) dev l" for dev l
    using good_ref [OF g that] by (simp add: d nth_append)
  have "good items disk (xs_world x) d"
    unfolding index_good_def rec
  proof (intro conjI allI impI ballI)
    fix dev l assume rl: "recorded items (xs_dedup x) dev l"
    show "el_ref l < length (dd_refs d)" using old [OF rl] by (simp add: d)
    show "holds (cont (xs_world x)) disk dev (dd_refs d ! el_ref l) l" using old [OF rl] good_ref [OF g rl] by simp
  next
    fix r h' assume "r \<in> set (dd_refs d)" "\<not> dr_dead r" "dr_fd r = Some h'"
    then show "eo_fstat eo (xs_world x) h' = Some (dr_dev r, dr_ino r)" using g h by (auto simp: index_good_def d)
  qed
  moreover have "fits items d (ino f) 0"
    unfolding fits_def rec using old fresh nth_mem by fastforce
  ultimately show ?thesis using ow e by (simp add: writing_def file_at_def written_def padded_def d)
qed

lemma good_still:
  "good items disk w d \<Longrightarrow> still cont (eo_fstat eo) owned w w' \<Longrightarrow> good items disk w' d"
  by (fastforce simp: index_good_def still_def)

lemma copyDedup_exact:
  assumes tc: "tree_contract bt items" and t: "truthful eo disk src sdev data" and pol: "polite eo cont owned items disk f (ino f)"
    and len: "int (length data) < 2 ^ 63" and g: "good items disk (xs_world x) (xs_dedup x)"
    and ow: "owned f (xs_world x)" and e: "cont (xs_world x) (ino f) = []"
    and fresh: "\<forall>r \<in> set (dd_refs (xs_dedup x)). dr_dead r \<or> (dr_dev r, dr_ino r) \<noteq> ino f"
    and cd: "copyDedup k eo bt on f src (int (length data)) co x = Some ((n, ok, err), y)"
  shows "good items disk (xs_world y) (xs_dedup y) \<and>
    (ok \<and> err = None \<longrightarrow> n = int (length data) \<and> cont (xs_world y) (ino f) = data) \<and>
    (\<not> ok \<longrightarrow> cont (xs_world y) (ino f) = [])"
proof (cases on)
  case False
  then show ?thesis using cd g e by (auto simp: copyDedup_def)
next
  case True
  obtain mt where st: "eo_stat eo (xs_world x) src = Some (sdev, int (length data), mt)" using truthful_stat [OF t] by blast
  have fs: "eo_fstat eo (xs_world x) (eo_fd eo f) = Some (ino f)" using fstat_owned [OF ow] .
  obtain b x1 where pr: "cloneProbe (fst (ino f)) (probeClone eo f) x = (b, x1)" by fastforce
  have p1: "still cont (eo_fstat eo) owned (xs_world x) (xs_world x1)"
    using pr probe_law [OF ow e]
    by (auto simp: cloneProbe_def probeClone_def Let_def still_def split: option.splits prod.splits)
  have d1: "dd_refs (xs_dedup x1) = dd_refs (xs_dedup x)" "dd_by_dev (xs_dedup x1) = dd_by_dev (xs_dedup x)"
    using pr by (auto simp: cloneProbe_def Let_def split: option.splits prod.splits)
  have g1: "good items disk (xs_world x1) (xs_dedup x1)" using good_still [OF g p1] good_cong [OF d1] by blast
  have s1: "owned f (xs_world x1)" "cont (xs_world x1) (ino f) = []" using p1 ow e by (auto simp: still_def)
  show ?thesis
  proof (cases "b \<and> (\<exists>exts. fiemap k eo (xs_world x1) src 0 (int (length data)) = Some (Inr exts) \<and>
      anyShared (planSegments exts (int (length data))))")
    case False
    then show ?thesis using cd True st fs pr g1 s1 by (cases "ino f") (auto simp: copyDedup_def Let_def split: if_splits option.splits sum.splits)
  next
    case planned: True
    then obtain exts where fm: "fiemap k eo (xs_world x1) src 0 (int (length data)) = Some (Inr exts)"
      "anyShared (planSegments exts (int (length data)))" and b: b by blast
    let ?segs = "planSegments exts (int (length data))"
    obtain hr w where dp: "eo_dup eo (eo_fd eo f) (xs_world x1) = (hr, w)" by fastforce
    have dl: "still cont (eo_fstat eo) owned (xs_world x1) w" "\<forall>h. hr = Inr h \<longrightarrow> eo_fstat eo w h = Some (ino f)"
      using dup_law [OF s1(1) dp] by auto
    have g2: "good items disk w (xs_dedup x1)" "owned f w" "cont w (ino f) = []"
      using good_still [OF g1 dl(1)] dl(1) s1 by (auto simp: still_def)
    show ?thesis
    proof (cases hr)
      case (Inl e)
      then show ?thesis using cd True st fs pr fm b dp g2 by (cases "ino f") (auto simp: copyDedup_def)
    next
      case (Inr h)
      obtain dev i where if': "ino f = (dev, i)" by fastforce
      define d where "d = (xs_dedup x1)\<lparr>dd_refs := dd_refs (xs_dedup x1) @ [\<lparr>dr_fd = Some h, dr_path = [], dr_dev = dev,
        dr_ino = i, dr_dead = False\<rparr>]\<rparr>"
      define z where "z = (set_world w x1)\<lparr>xs_dedup := d, xs_file := (xs_file x1)\<lparr>fd_src_dev := sdev,
        fd_ref := Some (length (dd_refs (xs_dedup x1)))\<rparr>\<rparr>"
      have wr: "writing items disk sdev data f 0 z"
        using planned_writing [of items disk "set_world w x1" f h d sdev data] g2 dl(2) Inr fresh d1 if' by (simp add: z_def d_def)
      have cp: "(case copy_segments k eo bt f src co ?segs [] z of
           None \<Rightarrow> None
         | Some (Inl e, x) \<Rightarrow> Some ((0, True, Some e), x)
         | Some (Inr cloned, x) \<Rightarrow> finish_dedup k eo f src (int (length data)) mt cloned x) = Some ((n, ok, err), y)"
        using cd True st fs pr fm b dp Inr if' by (simp add: copyDedup_def copy_planned_def Let_def z_def d_def)
      then obtain res z1 where cs: "copy_segments k eo bt f src co ?segs [] z = Some (res, z1)"
        by (cases "copy_segments k eo bt f src co ?segs [] z") auto
      have tl: "tiles (int 0) ?segs (int (length data))" using plan_loop_tiles [of 0] by (simp add: planSegments_def)
      have "\<forall>s \<in> set ?segs. sg_shared s \<longrightarrow> true_segment disk sdev data s"
        using placed_true [OF fiemap_true [OF t fm(1)]] plan_loop_placed tiles_in [OF tl] by (auto simp: planSegments_def)
      from copy_segments_outcome [OF tc t pol len tl this wr cs]
      have oc: "outcome items disk sdev data f (length data) res z1" .
      show ?thesis
      proof (cases res)
        case (Inl e)
        then show ?thesis using oc cp cs by (auto simp: outcome_def)
      next
        case (Inr cl)
        then have "writing items disk sdev data f (length data) z1" using oc by (simp add: outcome_def)
        moreover have "finish_dedup k eo f src (int (length data)) mt cl z1 = Some ((n, ok, err), y)" using cp cs Inr by simp
        ultimately show ?thesis using finish_dedup_exact by blast
      qed
    qed
  qed
qed

text \<open>The end of a file's dedup state keeps the index good: a dead reference promises nothing, and a
  published one is told by its inode.\<close>

lemma upd_ref_good:
  assumes "good items disk w d" and "i < length (dd_refs d)" and "g (dd_refs d ! i) = r"
    and "dr_dev r = dr_dev (dd_refs d ! i)" "dr_ino r = dr_ino (dd_refs d ! i)"
    and "\<not> dr_dead r \<longrightarrow> \<not> dr_dead (dd_refs d ! i)"
    and "\<And>h. \<not> dr_dead r \<Longrightarrow> dr_fd r = Some h \<Longrightarrow> dr_fd (dd_refs d ! i) = Some h"
  shows "good items disk w (upd_ref i g d)"
  unfolding index_good_def
proof (intro conjI allI impI ballI)
  fix dev l assume rec: "recorded items (upd_ref i g d) dev l"
  then have rec: "recorded items d dev l" by (simp add: recorded_def upd_ref_def)
  from good_ref [OF assms(1) this] show "el_ref l < length (dd_refs (upd_ref i g d))"
    "holds (cont w) disk dev (dd_refs (upd_ref i g d) ! el_ref l) l"
    using assms(2-6) by (auto simp: upd_ref_def nth_list_update holds_def)
next
  fix r' h assume r': "r' \<in> set (dd_refs (upd_ref i g d))" "\<not> dr_dead r'" "dr_fd r' = Some h"
  then have "r' \<in> set (dd_refs d) \<or> r' = r" using assms(3) by (auto simp: upd_ref_def dest: set_update_subset_insert [THEN subsetD])
  then show "eo_fstat eo w h = Some (dr_dev r', dr_ino r')"
    using assms r' nth_mem [OF assms(2)] unfolding index_good_def by metis
qed

lemma close_ref_good:
  assumes g: "good items disk (xs_world x) (xs_dedup x)" and i: "i < length (dd_refs (xs_dedup x))"
    and cl: "\<And>h. dr_fd (dd_refs (xs_dedup x) ! i) = Some h \<Longrightarrow>
      cont (eo_close eo h (xs_world x)) = cont (xs_world x) \<and>
      (\<forall>h' j. h' \<noteq> h \<and> eo_fstat eo (xs_world x) h' = Some j \<longrightarrow> eo_fstat eo (eo_close eo h (xs_world x)) h' = Some j)"
    and dup: "\<And>j h. j < length (dd_refs (xs_dedup x)) \<Longrightarrow> j \<noteq> i \<Longrightarrow> dr_fd (dd_refs (xs_dedup x) ! i) = Some h \<Longrightarrow>
      dr_fd (dd_refs (xs_dedup x) ! j) \<noteq> Some h"
  shows "good items disk (xs_world (close_ref eo i x)) (xs_dedup (close_ref eo i x))"
proof (cases "dr_fd (dd_refs (xs_dedup x) ! i)")
  case None
  then show ?thesis using g by (simp add: close_ref_def)
next
  case (Some h)
  let ?d = "upd_ref i (\<lambda>r. r\<lparr>dr_fd := None\<rparr>) (xs_dedup x)"
  have gd: "good items disk (xs_world x) ?d" by (rule upd_ref_good [OF g i refl]) simp_all
  have "dr_fd (dd_refs ?d ! j) \<noteq> Some h" if "j < length (dd_refs ?d)" for j
    using dup [OF _ _ Some, of j] i that by (cases "j = i") (simp_all add: upd_ref_def)
  then have "\<forall>r \<in> set (dd_refs ?d). dr_fd r \<noteq> Some h" by (metis in_set_conv_nth)
  then have "good items disk (eo_close eo h (xs_world x)) ?d"
    using gd cl [OF Some] unfolding index_good_def by (metis (no_types, lifting))
  then show ?thesis using Some by (simp add: close_ref_def)
qed

end

subsection \<open>Exactness\<close>

text \<open>C24: The extent-aware copy is exact. Where the kernel keeps its contract, the source is quiescent and no live
  record carries the inode number of the new file, an extent-aware copy that reports success leaves exactly the
  source's bytes in the temporary file, for any index that other workers filled before and fill meanwhile, and at
  any schedule of their claims; on every path, errors and cancellation included, each record of the index still
  names bytes that are where it says. When the pass does not apply, the file is still empty.\<close>

theorem extent_copy_is_exact:
  fixes eo :: "('w, 'b) extent_os"
  assumes kernel: "clone_fs dfs en obs owned eo cont ino" and tree: "tree_contract bt items"
    and source: "truthful eo disk src sdev data" "int (length data) < 2 ^ 63"
    and others: "polite eo cont owned items disk f (ino f)"
    and index: "index_good items disk (cont (xs_world x)) (eo_fstat eo (xs_world x)) (xs_dedup x)"
    and temp: "owned f (xs_world x)" "cont (xs_world x) (ino f) = []"
    and fresh: "\<forall>r \<in> set (dd_refs (xs_dedup x)). dr_dead r \<or> (dr_dev r, dr_ino r) \<noteq> ino f"
    and run: "copyDedup k eo bt on f src (int (length data)) co x = Some ((n, ok, err), y)"
  shows "(ok \<and> err = None \<longrightarrow> n = int (length data) \<and> cont (xs_world y) (ino f) = data) \<and>
    (\<not> ok \<longrightarrow> cont (xs_world y) (ino f) = []) \<and>
    index_good items disk (cont (xs_world y)) (eo_fstat eo (xs_world y)) (xs_dedup y)"
  using clone_fs.copyDedup_exact [OF kernel tree source(1) others source(2) index temp fresh run] by blast

text \<open>The check of the path sees device and inode number only: a file that was given the number of an older one is
  taken for it, whatever its bytes.\<close>

lemma reused_inode_is_trusted:
  assumes "\<not> dr_dead r" and "dr_fd r = None" and "dr_path r \<noteq> []"
    and "eo_open eo (dr_path r) w = (Inr h, w1)" and "eo_fstat eo w1 h = Some (dr_dev r, dr_ino r)"
    and "fn h w1 = (err, w2)"
  shows "with_ref eo r fn w = (err, eo_close eo h w2)"
  using assms by (simp add: with_ref_def same_inode_def)

end
