(* ===== verification/ExtentLoops.thy ===== *)
theory ExtentLoops
  imports ExtentPlan
begin

text \<open>
  The loops of the extent-aware copy end: the fuel they carry in Extents is enough, and a claim is given back.
\<close>

subsection \<open>The loops end\<close>

text \<open>The contract of \<open>io.ReaderAt\<close>: fewer bytes than asked for come with an error.\<close>

definition full_reads :: "reader \<Rightarrow> bool" where
  "full_reads src \<longleftrightarrow> (\<forall>off n. snd (rd_at src off n) = None \<longrightarrow> length (fst (rd_at src off n)) = n)"

lemma copyRange_returns:
  assumes "full_reads src"
  shows "len \<le> int k \<Longrightarrow> copyRange k dst src off len co s \<noteq> None"
proof (induction k arbitrary: off len s)
  case (Suc k)
  obtain p rerr where rd: "rd_at src off (nat (min (int (buf_size co)) len)) = (p, rerr)" by fastforce
  obtain werr s1 where wr: "(if p \<noteq> [] then on_world (writeNonZero dst p off) (polled s) else (None, polled s)) = (werr, s1)"
    by (metis prod.exhaust)
  have bs: "0 < buf_size co" by (simp add: buf_size_def DefaultBufSize_def)
  show ?case
  proof (cases "len > 0 \<and> \<not> canceled co s \<and> werr = None")
    case False
    then show ?thesis using rd wr by (auto simp: Let_def)
  next
    case True
    have "0 < nat (min (int (buf_size co)) len)" using True bs by simp
    then have p: "p \<noteq> [] \<or> rerr \<noteq> None"
      using assms [unfolded full_reads_def, rule_format, of off "nat (min (int (buf_size co)) len)"] rd by (cases rerr) auto
    show ?thesis
    proof (cases "p = []")
      case False
      then have "0 < length p" by simp
      then have "len - int (length p) \<le> int k" using Suc.prems by linarith
      then show ?thesis using Suc.IH True rd wr False by (simp add: Let_def)
    next
      case empty: True
      then show ?thesis using p True rd wr by (cases "rerr = Some (Sentinel IoEOF)") (auto simp: Let_def)
    qed
  qed
qed simp

text \<open>\<open>FIEMAP\<close> makes progress: the extents of one answer reach beyond where it was asked to start.\<close>

definition fiemap_advances :: "('w, 'b) extent_os \<Rightarrow> 'w \<Rightarrow> reader \<Rightarrow> bool" where
  "fiemap_advances eo w src \<longleftrightarrow> (\<forall>pos len xs. eo_fiemap eo w src pos len = Inr xs \<and> xs \<noteq> [] \<longrightarrow>
     pos < uwrap64 (rx_logical (last xs) + rx_length (last xs)))"

lemma fiemap_loop_returns:
  assumes "fiemap_advances eo w src"
  shows "end' - pos \<le> int k \<Longrightarrow> fiemap_loop k eo w src pos end' out \<noteq> None"
proof (induction k arbitrary: pos out)
  case (Suc k)
  show ?case
  proof (cases "pos < end'")
    case True
    show ?thesis
    proof (cases "eo_fiemap eo w src pos (uwrap64 (end' - pos))")
      case (Inr xs)
      have "end' - uwrap64 (rx_logical (last xs) + rx_length (last xs)) \<le> int k" if "xs \<noteq> []"
        using assms Inr that Suc.prems unfolding fiemap_advances_def by force
      then show ?thesis using Suc.IH Inr by (simp add: Let_def split: prod.split)
    qed (use True in simp)
  qed simp
qed simp

text \<open>The loops of the extent-aware copy end. With a reader that keeps the contract of \<open>io.ReaderAt\<close>,
  \<open>copyRange\<close> returns within as many rounds as there are bytes; \<open>fiemap\<close> returns within as many requests, provided
  every answer reaches beyond its start (an answer that does not is asked for again without end).\<close>

lemma extent_loops_return:
  assumes "full_reads src" and "fiemap_advances eo w src" and "0 \<le> off" "0 \<le> len" "off + len < 2 ^ 63"
  shows "copyRange (nat len) dst src off len co s \<noteq> None \<and> fiemap (nat len) eo w src off len \<noteq> None"
proof -
  have "uwrap64 (uwrap64 off + uwrap64 len) - uwrap64 off \<le> int (nat len)" using assms(3-5) by (simp add: uwrap64_id)
  then show ?thesis using copyRange_returns [OF assms(1), of len "nat len"] fiemap_loop_returns [OF assms(2)] assms(4)
    by (simp add: fiemap_def)
qed

text \<open>A claim is given back on every path of the copy that made it.\<close>

lemma drop_claim_ids: "distinct (map km_id cs) \<Longrightarrow> i \<notin> km_id ` set (drop_claim i cs)"
  by (induction i cs rule: drop_claim.induct) auto

lemma claim_is_released:
  assumes "copy_mine k eo bt dst src s co c x = Some (res, y)" and "distinct (map km_id (dd_inflight (xs_dedup x)))"
  shows "km_id c \<notin> km_id ` set (dd_inflight (xs_dedup y))"
proof -
  have il: "dd_inflight (release_claim bt c lo d) = drop_claim (km_id c) (dd_inflight d)" for lo d
    by (simp add: release_claim_def insert_locked_def Let_def split: option.split)
  have cr: "xs_dedup y1 = xs_dedup x" if "copy_range_x k dst src s co x = Some (r, y1)" for r y1
    using that by (auto simp: copy_range_x_def)
  have rs: "xs_dedup z = xs_dedup y1" if "record_seg k eo src s y1 = Some (lo, z)" for lo y1 z
    using that by (auto simp: record_seg_def Let_def split: option.splits sum.splits if_splits)
  have "dd_inflight (xs_dedup y) = drop_claim (km_id c) (dd_inflight (xs_dedup x))" using assms(1)
    by (auto simp: copy_mine_def il dest!: cr rs split: option.splits prod.splits)
  then show ?thesis using drop_claim_ids [OF assms(2)] by (simp only:) simp
qed

end
