(* ===== verification/MemExtents.thy ===== *)
theory MemExtents
  imports ExtentSpec ExtentLoops MemFs "HOL-Library.Countable"
begin

text \<open>
  The kernel of the extent-aware copy on the filesystem in memory: descriptors are numbered names, a range clone
  copies the bytes between two files, and one source with one shared extent is served. The contract of ExtentSpec holds of
  it, and the exactness of the copy is evaluated there.
\<close>

definition name_fd :: "string \<Rightarrow> int" where
  "name_fd p = int (to_nat p)"

definition fd_name :: "int \<Rightarrow> string" where
  "fd_name h = from_nat (nat h)"

lemma fd_name_fd [simp]: "fd_name (name_fd p) = p"
  by (simp add: fd_name_def name_fd_def)

definition mem_cont :: "mem \<Rightarrow> int \<times> int \<Rightarrow> bytes" where
  "mem_cont w i = (if name_fd (fd_name (snd i)) = snd i \<and> fst i = 1
     then (case file_map w (fd_name (snd i)) of Some b \<Rightarrow> b | None \<Rightarrow> []) else [])"

definition mem_ino :: "mem gofile \<Rightarrow> int \<times> int" where
  "mem_ino f = (1, name_fd (fl_name f))"

definition mem_fstat :: "mem \<Rightarrow> int \<Rightarrow> (int \<times> int) option" where
  "mem_fstat w h = (if map_of (mm_names w) (fd_name h) = None then None else Some (1, name_fd (fd_name h)))"

definition mem_clone :: "int \<Rightarrow> int \<Rightarrow> int \<Rightarrow> int \<Rightarrow> int \<Rightarrow> mem \<Rightarrow> goerr option \<times> mem" where
  "mem_clone h from a n b w =
     (let c = mem_cont w (1, name_fd (fd_name from)) in
      if n = 0 then (None, w)
      else if a + n > int (length c) then (Some (Errno EINVAL), w)
      else
        (case map_of (mm_names w) (fd_name h) of
           None \<Rightarrow> (Some (Errno EBADF), w)
         | Some i \<Rightarrow> fl_write_at (mem_file (fd_name h) i) (slice (nat a) (nat (a + n)) c) b w))"

text \<open>One source, held as a single shared extent at address 4096 of device 1.\<close>

definition mem_eo :: "bytes \<Rightarrow> (mem, extent_loc list) extent_os" where
  "mem_eo data = \<lparr>eo_fd = (\<lambda>f. name_fd (fl_name f)), eo_stat = (\<lambda>w r. Some (1, int (length data), 0)), eo_fstat = mem_fstat,
     eo_fiemap = (\<lambda>w r start len. if start \<ge> int (length data) then Inr []
       else Inr [\<lparr>rx_logical = 0, rx_physical = 4096, rx_length = int (length data), rx_flags = 0x2001\<rparr>]),
     eo_dup = (\<lambda>h w. (Inr h, w)),
     eo_open = (\<lambda>p w. (if map_of (mm_names w) p = None then Inl (Errno ENOENT) else Inr (name_fd p), w)),
     eo_close = (\<lambda>h w. w), eo_clone = mem_clone, eo_others = (\<lambda>k s. s), eo_tick = (\<lambda>k. False)\<rparr>"

lemma same_below_put: "0 \<le> off \<Longrightarrow> same_below off d (put_bytes (nat off) b d)"
  by (auto simp: same_below_def byte_at_def put_bytes_def nth_append min_def)

lemma same_below_resize: "0 \<le> off \<Longrightarrow> same_below off d (resize (nat off) d)"
  by (auto simp: same_below_def byte_at_def resize_def nth_append min_def)

text \<open>Changing an owned file's data changes nothing else.\<close>

lemma owned_data_step:
  assumes f: "f = mem_file p i" and h: "map_of (mm_names w) p = Some i"
    "\<And>q. map_of (mm_names w) q = Some i \<Longrightarrow> q = p" "in_kind (mm_inode w i) = IReg d"
  shows "(\<forall>j. j \<noteq> mem_ino f \<longrightarrow> mem_cont (set_inode i (on_data g) w) j = mem_cont w j) \<and>
    mem_fstat (set_inode i (on_data g) w) = mem_fstat w \<and>
    mem_cont (set_inode i (on_data g) w) (mem_ino f) = g (mem_cont w (mem_ino f))"
proof -
  have fm: "file_map (set_inode i (on_data g) w) q = (if q = p then Some (g d) else file_map w q)" for q
  proof (cases "q = p")
    case True
    then show ?thesis using h(1,3) by (simp add: file_map_at kind_data_def on_data_def)
  next
    case False
    then have "map_of (mm_names w) q \<noteq> Some i" using h(2) by blast
    then show ?thesis using False by (auto simp: file_map_at split: option.split)
  qed
  have n: "fl_name f = p" by (simp add: f mem_file_def)
  have "mem_cont (set_inode i (on_data g) w) j = mem_cont w j" if "j \<noteq> mem_ino f" for j
    using that by (cases j) (auto simp: mem_cont_def fm mem_ino_def n)
  moreover have "mem_cont w (mem_ino f) = d" by (simp add: mem_cont_def mem_ino_def n file_map_owned [OF h(1,3)])
  moreover have "mem_cont (set_inode i (on_data g) w) (mem_ino f) = g d" by (simp add: mem_cont_def mem_ino_def n fm)
  moreover have "mem_fstat (set_inode i (on_data g) w) = mem_fstat w" by (simp add: mem_fstat_def fun_eq_iff)
  ultimately show ?thesis by blast
qed

lemma mem_cont_owned: "mem_owned f w \<Longrightarrow> hd (mem_obs w) (fl_name f) = Some (mem_cont w (mem_ino f))"
proof (erule ownedE)
  fix p i d assume "f = mem_file p i" "map_of (mm_names w) p = Some i" "in_kind (mm_inode w i) = IReg d"
  then show ?thesis by (simp add: mem_cont_def mem_ino_def mem_file_def mem_obs_def file_map_owned)
qed

lemma mem_fstat_owned:
  assumes "mem_owned f w"
  shows "mem_fstat w (name_fd (fl_name f)) = Some (mem_ino f)"
proof -
  obtain p i where "f = mem_file p i" "map_of (mm_names w) p = Some i" using assms by (rule ownedE)
  then show ?thesis by (simp add: mem_fstat_def mem_ino_def mem_file_def)
qed

lemma mem_clone_law:
  assumes ow: "mem_owned f w" and st: "mem_fstat w h = Some i" and a: "0 \<le> a" "0 < n"
    and b: "int (length (mem_cont w (mem_ino f))) \<le> b" and cl: "mem_clone (name_fd (fl_name f)) h a n b w = (r, w')"
  shows "mem_owned f w' \<and> mem_fstat w' = mem_fstat w \<and> (\<forall>j. j \<noteq> mem_ino f \<longrightarrow> mem_cont w' j = mem_cont w j) \<and>
    (r \<noteq> None \<longrightarrow> mem_cont w' (mem_ino f) = mem_cont w (mem_ino f)) \<and>
    (r = None \<longrightarrow> a + n \<le> int (length (mem_cont w i)) \<and>
       mem_cont w' (mem_ino f) = padded (nat b) (mem_cont w (mem_ino f)) @ slice (nat a) (nat (a + n)) (mem_cont w i))"
proof -
  have i: "i = (1, name_fd (fd_name h))" using st by (auto simp: mem_fstat_def split: if_splits)
  obtain p k d where f: "f = mem_file p k" "map_of (mm_names w) p = Some k"
    "\<And>q. map_of (mm_names w) q = Some k \<Longrightarrow> q = p" "in_kind (mm_inode w k) = IReg d" using ow by (rule ownedE) blast
  have n: "fl_name f = p" by (simp add: f mem_file_def)
  let ?x = "slice (nat a) (nat (a + n)) (mem_cont w i)"
  let ?w = "set_inode k (on_data (put_bytes (nat b) ?x)) w"
  note step = owned_data_step [OF f, of "put_bytes (nat b) ?x"]
  have own: "mem_owned f ?w" using mem_file_touches(2) [OF ow, of ?x b] by (simp add: f(1) mem_file_def touches_def)
  have "put_bytes (nat b) ?x (mem_cont w (mem_ino f)) = padded (nat b) (mem_cont w (mem_ino f)) @ ?x"
    by (rule put_bytes_beyond) (use b in simp)
  note put = this
  show ?thesis
  proof (cases "a + n > int (length (mem_cont w i))")
    case True
    then have "r \<noteq> None \<and> w' = w" using cl a(2) i by (auto simp: mem_clone_def Let_def)
    then show ?thesis using ow by auto
  next
    case False
    then have "mem_clone (name_fd (fl_name f)) h a n b w = (None, ?w)"
      using a(2) f(2) n i by (simp add: mem_clone_def Let_def mem_file_def)
    then have "r = None" "w' = ?w" using cl by simp_all
    then show ?thesis using step put own False by simp
  qed
qed

interpretation memory: clone_fs mem_fs plain_env mem_obs mem_owned "mem_eo data" mem_cont mem_ino for data
proof (unfold_locales, goal_cases)
  case (1 f w)
  then show ?case by (rule mem_cont_owned)
next
  case (2 f w)
  then show ?case using mem_fstat_owned by (simp add: mem_eo_def)
next
  case (3 f w off b r w')
  obtain p i d where f: "f = mem_file p i" "map_of (mm_names w) p = Some i"
    "\<And>q. map_of (mm_names w) q = Some i \<Longrightarrow> q = p" "in_kind (mm_inode w i) = IReg d" using 3(1) by (rule ownedE) blast
  have "w' = set_inode i (on_data (put_bytes (nat off) b)) w" using 3(3) f(1) by (simp add: mem_file_def)
  then show ?case using owned_data_step [OF f] same_below_put [OF 3(2)] by (simp add: mem_eo_def)
next
  case (4 f w off r w')
  obtain p i d where f: "f = mem_file p i" "map_of (mm_names w) p = Some i"
    "\<And>q. map_of (mm_names w) q = Some i \<Longrightarrow> q = p" "in_kind (mm_inode w i) = IReg d" using 4(1) by (rule ownedE) blast
  have "w' = set_inode i (on_data (resize (nat off))) w" using 4(3) f(1) by (simp add: mem_file_def)
  then show ?case using owned_data_step [OF f] same_below_resize [OF 4(2)] by (simp add: mem_eo_def)
next
  case (5 f w dr w')
  show ?case using 5(2) mem_fstat_owned [OF 5(1)] by (auto simp: mem_eo_def still_def)
next
  case (6 p w od w1)
  then show ?case by (auto simp: mem_eo_def still_def)
next
  case (7 f w h i a n b r w')
  then show ?case using mem_clone_law [of f w h i a n b r w'] by (simp add: mem_eo_def)
next
  case (8 f w r w')
  then show ?case by (simp add: mem_eo_def mem_clone_def still_def)
qed

subsection \<open>A clone at work\<close>

text \<open>A tree kept as a list.\<close>

definition list_tree :: "extent_loc list btree" where
  "list_tree = \<lparr>bt_new = [],
     bt_insert = (\<lambda>l t. l # filter (\<lambda>x. (el_phys x, el_length x) \<noteq> (el_phys l, el_length l)) t),
     bt_down = (\<lambda>p t. rev (sort_key el_phys (filter (\<lambda>x. el_phys x \<le> el_phys p) t)))\<rparr>"

lemma list_tree: "tree_contract list_tree set"
  by (auto simp: tree_contract_def list_tree_def)

text \<open>The file \<open>/o\<close> holds the source's extent already; \<open>/t\<close> is the new temporary file.\<close>

definition two_world :: mem where
  "two_world = \<lparr>mm_names = [(''/t'', 1), (''/o'', 2)],
     mm_inode = (\<lambda>i. new_inode (IReg (if i = 2 then [1, 2, 3] else [])) 0x180), mm_log = []\<rparr>"

definition one_record :: "extent_loc list dedup" where
  "one_record = dedup_new\<lparr>dd_by_dev := [1 \<mapsto> [\<lparr>el_phys = 4096, el_length = 3, el_off = 0, el_ref = 0\<rparr>]],
     dd_refs := [\<lparr>dr_fd = None, dr_path = ''/o'', dr_dev = 1, dr_ino = name_fd ''/o'', dr_dead = False\<rparr>]\<rparr>"

definition clone_start :: "(mem, extent_loc list) xst" where
  "clone_start = \<lparr>xs_cst = \<lparr>cs_world = two_world, cs_moved = 0, cs_polls = 0\<rparr>, xs_dedup = one_record,
     xs_file = \<lparr>fd_src_dev = 0, fd_ref = None, fd_recs = []\<rparr>\<rparr>"

definition clone_opts :: copy_opts where
  "clone_opts = \<lparr>co_preserve = False, co_fsync = False, co_buf_size = 2, co_cancel = (\<lambda>_. False)\<rparr>"

abbreviation three :: bytes where
  "three \<equiv> [1, 2, 3]"

abbreviation temp_t :: "mem gofile" where
  "temp_t \<equiv> mem_file ''/t'' (Suc 0)"

definition disk_one :: "int \<Rightarrow> int \<Rightarrow> 8 word" where
  "disk_one dev a = byte_at three (a - 4096)"

lemma name_fd_eq [simp]: "name_fd p = name_fd q \<longleftrightarrow> p = q"
  by (metis fd_name_fd)

lemma two_world_simps: "map_of (mm_names two_world) ''/t'' = Some 1" "map_of (mm_names two_world) ''/o'' = Some 2"
  "file_map two_world ''/t'' = Some []" "file_map two_world ''/o'' = Some three"
  by (simp_all add: two_world_def file_map_at kind_data_def new_inode_def)

lemma temp_owned: "mem_owned temp_t two_world"
  unfolding mem_owned_def
  by (rule exI [of _ "''/t''"], rule exI [of _ 1], rule exI [of _ "[]"]) (auto simp: two_world_def new_inode_def split: if_splits)

lemma three_source: "truthful (mem_eo three) disk_one (mem_reader three) 1 three"
  unfolding truthful_def
proof (intro conjI allI impI)
  fix off n assume "(0 :: int) \<le> off"
  show "\<exists>m\<le>n. fst (rd_at (mem_reader three) off n) = take m (drop (nat off) three)"
    by (rule exI [of _ n]) (simp add: mem_reader_def Let_def)
next
  fix w start len xs assume "eo_fiemap (mem_eo three) w (mem_reader three) start len = Inr xs"
  then show "true_extents disk_one 1 three (map to_extent xs)"
    by (auto simp: mem_eo_def true_extents_def true_extent_def to_extent_def disk_one_def byte_at_def wrap64_def nat_less_iff
        split: if_splits)
qed (simp add: mem_eo_def)

lemma nobody_else: "polite (mem_eo three) mem_cont mem_owned set disk_one f i"
  by (simp add: polite_def mem_eo_def)

lemma one_record_good: "index_good set disk_one (mem_cont two_world) st one_record"
  by (auto simp: index_good_def recorded_def one_record_def dedup_new_def holds_def mem_cont_def two_world_simps
      disk_one_def split: if_splits)

text \<open>The run, call by call.\<close>

abbreviation whole :: extent where
  "whole \<equiv> to_extent \<lparr>rx_logical = 0, rx_physical = 4096, rx_length = 3, rx_flags = 0x2001\<rparr>"

abbreviation one_segment :: segment where
  "one_segment \<equiv> \<lparr>sg_off = 0, sg_length = 3, sg_phys = 4096, sg_shared = True\<rparr>"

lemma three_plan: "planSegments [whole] 3 = [one_segment]" "mapped [whole] one_segment"
  by code_simp+

lemma three_fiemap: "fiemap 3 (mem_eo three) w r 0 3 = Some (Inr [whole])"
  by (simp add: fiemap_def eval_nat_numeral mem_eo_def uwrap64_def fiemapExtentLast_def)

lemma three_found:
  "dd_refs d = dd_refs one_record @ rs \<Longrightarrow> dd_by_dev d = dd_by_dev one_record \<Longrightarrow>
    acquire_extent list_tree 1 4096 3 d = (Found \<lparr>el_phys = 4096, el_length = 3, el_off = 0, el_ref = 0\<rparr> 0, d)"
  by (simp add: acquire_extent_def find_loc_def one_record_def dedup_new_def list_tree_def covers_def wrap64_def)

lemma three_clone:
  "\<exists>w. with_ref (mem_eo three) (dd_refs one_record ! 0) (\<lambda>from. eo_clone (mem_eo three) (eo_fd (mem_eo three) temp_t) from 0 3 0) two_world =
     (None, w)"
  by (simp add: with_ref_def one_record_def dedup_new_def mem_eo_def two_world_simps same_inode_def mem_fstat_def mem_clone_def
      mem_cont_def mem_file_def)

lemma mem_eo_sel:
  "eo_stat (mem_eo data) w r = Some (1, int (length data), 0)" "eo_fstat (mem_eo data) = mem_fstat"
  "eo_dup (mem_eo data) h w = (Inr h, w)" "eo_fd (mem_eo data) f = name_fd (fl_name f)" "eo_clone (mem_eo data) = mem_clone"
  by (simp_all add: mem_eo_def)

lemma temp_sel: "fl_name (mem_file p i) = p" "fst (fl_truncate (mem_file p i) n w) = None"
  by (simp_all add: mem_file_def)

lemma suc_2: "Suc 2 = 3"
  by simp

lemmas copyShared_3 = copyShared.simps(2) [of 2, unfolded suc_2]

definition planned :: "extent_loc list dedup" where
  "planned = one_record\<lparr>dd_can_clone := (dd_can_clone one_record)(1 \<mapsto> True), dd_refs := dd_refs one_record @
     [\<lparr>dr_fd = Some (name_fd ''/t''), dr_path = [], dr_dev = 1, dr_ino = name_fd ''/t'', dr_dead = False\<rparr>]\<rparr>"

lemma planned_refs: "dd_refs planned ! 0 = dd_refs one_record ! 0" "dr_dev (dd_refs one_record ! 0) = 1"
  "dr_dev (dd_refs planned ! Suc 0) = 1"
  by (simp_all add: planned_def one_record_def dedup_new_def)

lemma planned_found:
  "acquire_extent list_tree 1 4096 3 planned = (Found \<lparr>el_phys = 4096, el_length = 3, el_off = 0, el_ref = 0\<rparr> 0, planned)"
  by (rule three_found) (simp_all add: planned_def)

lemma three_shared:
  assumes "xs_dedup x = planned" "xs_world x = two_world" "fd_src_dev (xs_file x) = 1" "fd_ref (xs_file x) = Some (Suc 0)"
    and w: "with_ref (mem_eo three) (dd_refs one_record ! 0) (\<lambda>from. mem_clone (name_fd ''/t'') from 0 3 0) two_world = (None, w)"
  shows "copyShared 3 3 (mem_eo three) list_tree (mem_file ''/t'' i) (mem_reader three) one_segment clone_opts x =
    Some (Inr True, set_world w (x\<lparr>xs_dedup := planned\<rparr>))"
  using assms planned_found
  by (simp add: copyShared_3 copy_found_def cloneFrom_def planned_refs mem_eo_sel temp_sel wrap64_id Let_def)

lemma planned_ends:
  assumes "xs_world x = w"
  shows "\<exists>y. finish_dedup 3 (mem_eo three) (mem_file ''/t'' i) (mem_reader three) 3 0 [one_segment] x = Some ((3, True, None), y)"
proof -
  obtain w' where "fl_truncate (mem_file ''/t'' i) 3 w = (None, w')" using temp_sel(2) by (metis prod.collapse)
  then show ?thesis using assms by (simp add: finish_dedup_def unchanged_def mem_eo_sel three_fiemap three_plan Let_def del: mapped.simps)
qed

lemma clone_run:
  "\<exists>y. copyDedup 3 (mem_eo three) list_tree True temp_t (mem_reader three) 3 clone_opts clone_start = Some ((3, True, None), y)"
proof -
  obtain w where w: "with_ref (mem_eo three) (dd_refs one_record ! 0) (\<lambda>from. mem_clone (name_fd ''/t'') from 0 3 0) two_world = (None, w)"
    using three_clone by (auto simp: mem_eo_sel temp_sel)
  have st: "mem_fstat two_world (name_fd ''/t'') = Some (1, name_fd ''/t'')" by (simp add: mem_fstat_def two_world_simps)
  have pb: "mem_clone (name_fd ''/t'') (name_fd ''/t'') 0 0 0 two_world = (None, two_world)" by (simp add: mem_clone_def)
  have k: "dd_can_clone one_record 1 = None" by (simp add: one_record_def dedup_new_def)
  let ?x0 = "\<lparr>xs_cst = \<lparr>cs_world = two_world, cs_moved = 0, cs_polls = 0\<rparr>, xs_dedup = planned,
      xs_file = \<lparr>fd_src_dev = 1, fd_ref = Some 1, fd_recs = []\<rparr>\<rparr> :: (mem, extent_loc list) xst"
  let ?x1 = "?x0\<lparr>xs_cst := polled (xs_cst ?x0)\<rparr>"
  have "copyShared 3 3 (mem_eo three) list_tree temp_t (mem_reader three) one_segment clone_opts ?x1 =
      Some (Inr True, set_world w (?x1\<lparr>xs_dedup := planned\<rparr>))"
    by (rule three_shared [OF _ _ _ _ w]) (simp_all add: polled_def)
  moreover have "?x1\<lparr>xs_dedup := planned\<rparr> = ?x1" by simp
  ultimately have "copyShared 3 3 (mem_eo three) list_tree temp_t (mem_reader three) one_segment clone_opts ?x1 =
      Some (Inr True, set_world w ?x1)" by (simp only:)
  moreover have "\<not> canceled clone_opts (xs_cst ?x0)" by (simp add: canceled_def clone_opts_def)
  ultimately have "copy_segments 3 (mem_eo three) list_tree temp_t (mem_reader three) clone_opts [one_segment] [] ?x0 =
      Some (Inr ([] @ [one_segment]), (set_world w ?x1)\<lparr>xs_cst := progress 3 (xs_cst (set_world w ?x1))\<rparr>)"
    by (simp only: copy_segments.simps Let_def segment.simps not_True_eq_False if_False if_True option.case sum.case prod.case)
  moreover obtain y where "finish_dedup 3 (mem_eo three) temp_t (mem_reader three) 3 0 ([] @ [one_segment])
      ((set_world w ?x1)\<lparr>xs_cst := progress 3 (xs_cst (set_world w ?x1))\<rparr>) = Some ((3, True, None), y)"
    using planned_ends by (metis append_Nil)
  moreover have "copy_planned 3 (mem_eo three) list_tree temp_t (mem_reader three) 3 clone_opts 1 0 1 (name_fd ''/t'') [one_segment] (name_fd ''/t'')
      (clone_start\<lparr>xs_dedup := one_record\<lparr>dd_can_clone := (dd_can_clone one_record)(1 \<mapsto> True)\<rparr>\<rparr>) =
      (case copy_segments 3 (mem_eo three) list_tree temp_t (mem_reader three) clone_opts [one_segment] [] ?x0 of
         None \<Rightarrow> None
       | Some (Inl e, x) \<Rightarrow> Some ((0, True, Some e), x)
       | Some (Inr cloned, x) \<Rightarrow> finish_dedup 3 (mem_eo three) temp_t (mem_reader three) 3 0 cloned x)"
    by (simp add: copy_planned_def Let_def clone_start_def planned_def one_record_def dedup_new_def del: copy_segments.simps)
  ultimately have cp: "copy_planned 3 (mem_eo three) list_tree temp_t (mem_reader three) 3 clone_opts 1 0 1 (name_fd ''/t'') [one_segment] (name_fd ''/t'')
      (clone_start\<lparr>xs_dedup := one_record\<lparr>dd_can_clone := (dd_can_clone one_record)(1 \<mapsto> True)\<rparr>\<rparr>) = Some ((3, True, None), y)"
    by (simp only: option.case sum.case prod.case)
  have "copyDedup 3 (mem_eo three) list_tree True temp_t (mem_reader three) 3 clone_opts clone_start =
     copy_planned 3 (mem_eo three) list_tree temp_t (mem_reader three) 3 clone_opts 1 0 1 (name_fd ''/t'') [one_segment] (name_fd ''/t'')
      (clone_start\<lparr>xs_dedup := one_record\<lparr>dd_can_clone := (dd_can_clone one_record)(1 \<mapsto> True)\<rparr>\<rparr>)"
    using st pb k by (simp add: copyDedup_def mem_eo_sel temp_sel cloneProbe_def probeClone_def Let_def three_fiemap three_plan
        anyShared_def clone_start_def set_world_def)
  with cp show ?thesis by metis
qed

theorem extent_copy_is_exact_witness:
  "\<exists>y. copyDedup 3 (mem_eo three) list_tree True temp_t (mem_reader three) 3 clone_opts clone_start = Some ((3, True, None), y) \<and>
     mem_cont (xs_world y) (mem_ino temp_t) = three"
proof -
  obtain y where y: "copyDedup 3 (mem_eo three) list_tree True temp_t (mem_reader three) 3 clone_opts clone_start = Some ((3, True, None), y)"
    using clone_run by blast
  have sel: "xs_world clone_start = two_world" "xs_dedup clone_start = one_record" by (simp_all add: clone_start_def)
  have index: "index_good set disk_one (mem_cont (xs_world clone_start)) (eo_fstat (mem_eo three) (xs_world clone_start)) (xs_dedup clone_start)"
    unfolding sel by (rule one_record_good)
  have temp: "mem_owned temp_t (xs_world clone_start)" unfolding sel by (rule temp_owned)
  have emp: "mem_cont (xs_world clone_start) (mem_ino temp_t) = []"
    by (simp add: sel mem_cont_def mem_ino_def temp_sel two_world_simps)
  have fresh: "\<forall>r \<in> set (dd_refs (xs_dedup clone_start)). dr_dead r \<or> (dr_dev r, dr_ino r) \<noteq> mem_ino temp_t"
    by (simp add: sel mem_ino_def temp_sel one_record_def dedup_new_def)
  have len: "int (length three) < 2 ^ 63" by simp
  have run: "copyDedup 3 (mem_eo three) list_tree True temp_t (mem_reader three) (int (length three)) clone_opts clone_start =
      Some ((3, True, None), y)" using y by simp
  from extent_copy_is_exact [OF memory.clone_fs_axioms list_tree three_source len nobody_else index temp emp fresh run]
  have "mem_cont (xs_world y) (mem_ino temp_t) = three" by blast
  with y show ?thesis by blast
qed

theorem extent_loops_return_witness:
  "copyRange 3 temp_t (mem_reader three) 0 3 clone_opts (xs_cst clone_start) \<noteq> None \<and>
   fiemap 3 (mem_eo three) two_world (mem_reader three) 0 3 \<noteq> None"
proof -
  have "full_reads (mem_reader three)" by (simp add: full_reads_def mem_reader_def Let_def)
  moreover have "fiemap_advances (mem_eo three) two_world (mem_reader three)"
    by (auto simp: fiemap_advances_def mem_eo_def uwrap64_def split: if_splits)
  ultimately show ?thesis
    using extent_loops_return [of "mem_reader three" "mem_eo three" two_world 0 3 temp_t clone_opts "xs_cst clone_start"] by simp
qed

end
