(* ===== verification/Watch.thy ===== *)
theory Watch
  imports EngineSpec
begin

text \<open>
  The stall watchdog, internal/engine/watchdog.go. A tick brings the clock and the progress count; the
  answer of the terminal is an argument (empty when the read fails). A duration among the arguments of
  a message stands as its number of nanoseconds.
\<close>

subsection \<open>The detector\<close>

record stall_detector =
  sd_timeout :: int
  sd_last :: int
  sd_since :: int
  sd_primed :: bool

definition detector_new :: "int \<Rightarrow> stall_detector" where
  "detector_new t = \<lparr>sd_timeout = t, sd_last = 0, sd_since = 0, sd_primed = False\<rparr>"

definition stall_update :: "int \<Rightarrow> int \<Rightarrow> stall_detector \<Rightarrow> bool \<times> stall_detector" where
  "stall_update p now d =
     (if \<not> sd_primed d \<or> p \<noteq> sd_last d
      then (False, d\<lparr>sd_last := p, sd_since := now, sd_primed := True\<rparr>)
      else (time_sub now (sd_since d) \<ge> sd_timeout d, d))"

subsection \<open>The loop\<close>

definition watchInterval :: int where
  "watchInterval = 10 ^ 9"

definition stallTimeout :: int where
  "stallTimeout = 30 * 10 ^ 9"

definition onStall :: "bool \<Rightarrow> string \<Rightarrow> 'w runner \<Rightarrow> (bool \<times> int) \<times> 'w runner" where
  "onStall tty resp r =
     (if \<not> tty then ((False, 0), elog ''basicopy: no forward progress for %s'' [Num stallTimeout] r)
      else
        (let r = elog ''basicopy: stalled for %s -- [c]ontinue 30s / [m]inutes (5) / [f]orever / [a]bort?''
                   [Num stallTimeout] r;
             a = to_lower (trim_space resp)
         in (if a \<in> set [''f'', ''forever''] then (True, max_int64)
             else if a \<in> set [''m'', ''minutes''] then (True, 5 * 60 * 10 ^ 9)
             else if a \<in> set [''a'', ''abort''] then (False, 0)
             else (True, stallTimeout), r)))"

definition stall_abort :: "int \<Rightarrow> goerr" where
  "stall_abort t = NewErr ''no forward progress for %s; aborting'' [show_int t]"

text \<open>One tick: \<open>None\<close> for the detector once the loop has returned.\<close>

definition watch_tick :: "bool \<Rightarrow> int \<Rightarrow> int \<Rightarrow> string \<Rightarrow> stall_detector \<Rightarrow> 'w runner \<Rightarrow> stall_detector option \<times> 'w runner" where
  "watch_tick tty p now resp d r =
     (let (stalled, d) = stall_update p now d in
      if \<not> stalled then (Some d, r)
      else
        (let ((cont, next), r) = onStall tty resp r in
         if \<not> cont then (None, setAbort (stall_abort (sd_timeout d)) r)
         else (Some (d\<lparr>sd_timeout := next, sd_primed := False\<rparr>), r)))"

fun watch_ticks ::
  "bool \<Rightarrow> (int \<times> int \<times> string) list \<Rightarrow> stall_detector \<Rightarrow> 'w runner \<Rightarrow> stall_detector option \<times> 'w runner" where
  "watch_ticks tty [] d r = (Some d, r)"
| "watch_ticks tty ((p, now, resp) # ts) d r =
     (case watch_tick tty p now resp d r of
        (None, r) \<Rightarrow> (None, r)
      | (Some d, r) \<Rightarrow> watch_ticks tty ts d r)"

definition runWatchdog :: "bool \<Rightarrow> (int \<times> int \<times> string) list \<Rightarrow> 'w runner \<Rightarrow> stall_detector option \<times> 'w runner" where
  "runWatchdog tty ts r = watch_ticks tty ts (detector_new stallTimeout) r"

subsection \<open>What a stall is\<close>

text \<open>The last ticks of a history, most recent first, that all show the latest count.\<close>

definition standstill :: "(int \<times> int) list \<Rightarrow> (int \<times> int) list" where
  "standstill h = takeWhile (\<lambda>t. fst t = fst (hd h)) h"

text \<open>The latest count has been seen for at least \<open>t\<close>: from the first tick of the standstill to the latest.\<close>

definition stands_for :: "int \<Rightarrow> (int \<times> int) list \<Rightarrow> bool" where
  "stands_for t h \<longleftrightarrow> h \<noteq> [] \<and> t \<le> time_sub (snd (hd h)) (snd (last (standstill h)))"

fun updates :: "(int \<times> int) list \<Rightarrow> stall_detector \<Rightarrow> stall_detector" where
  "updates [] d = d"
| "updates ((p, now) # h) d = snd (stall_update p now (updates h d))"

lemma standstill_Cons:
  "standstill (t # h) = (if h \<noteq> [] \<and> fst (hd h) = fst t then t # standstill h else [t])"
  by (cases h) (simp_all add: standstill_def)

lemma standstill_nonempty [simp]: "standstill h = [] \<longleftrightarrow> h = []"
  by (cases h) (simp_all add: standstill_def)

lemma updates_frame [simp]: "sd_timeout (updates h d) = sd_timeout d"
  by (induction h d rule: updates.induct) (simp_all add: stall_update_def)

lemma updates_state:
  assumes "\<not> sd_primed d" and "h \<noteq> []"
  shows "sd_primed (updates h d) \<and> sd_last (updates h d) = fst (hd h) \<and> sd_since (updates h d) = snd (last (standstill h))"
  using assms(2)
proof (induction h)
  case (Cons t h)
  obtain p now where t: "t = (p, now)" by (cases t)
  show ?case
  proof (cases "h = []")
    case True
    then show ?thesis using assms(1) t by (simp add: stall_update_def standstill_def)
  next
    case False
    then show ?thesis using Cons.IH t by (auto simp: stall_update_def standstill_Cons)
  qed
qed simp

lemma time_sub_self [simp]: "time_sub a a = 0"
  by (simp add: time_sub_def)

text \<open>The detector reports a stall exactly when there is one. After any history of ticks, the next update answers
  true if and only if the progress count has shown its present value on every tick since one that lies at least
  the timeout back; a count that changed on this very tick is never a stall.\<close>

lemma update_stalled:
  assumes "0 < t"
  shows "fst (stall_update p now (updates h (detector_new t))) \<longleftrightarrow> stands_for t ((p, now) # h)"
proof (cases "h = []")
  case True
  then show ?thesis using assms by (simp add: stall_update_def detector_new_def stands_for_def standstill_def)
next
  case False
  have "\<not> sd_primed (detector_new t)" by (simp add: detector_new_def)
  note st = updates_state [OF this False]
  show ?thesis
    using assms False st by (auto simp: stall_update_def stands_for_def standstill_Cons detector_new_def)
qed

subsection \<open>Without a terminal\<close>

abbreviation counts :: "(int \<times> int \<times> string) list \<Rightarrow> (int \<times> int) list" where
  "counts ts \<equiv> rev (map (\<lambda>(p, now, resp). (p, now)) ts)"

fun ever_stalled :: "int \<Rightarrow> (int \<times> int \<times> string) list \<Rightarrow> (int \<times> int) list \<Rightarrow> bool" where
  "ever_stalled t [] h \<longleftrightarrow> False"
| "ever_stalled t ((p, now, resp) # ts) h \<longleftrightarrow> stands_for t ((p, now) # h) \<or> ever_stalled t ts ((p, now) # h)"

lemma ever_stalled_iff:
  "ever_stalled t ts h \<longleftrightarrow> (\<exists>k. 0 < k \<and> k \<le> length ts \<and> stands_for t (counts (take k ts) @ h))"
proof (induction t ts h rule: ever_stalled.induct)
  case (2 t p now resp ts h)
  let ?P = "\<lambda>k. stands_for t (counts (take k ((p, now, resp) # ts)) @ h)"
  have "(\<exists>k. 0 < k \<and> k \<le> Suc (length ts) \<and> ?P k) \<longleftrightarrow> (\<exists>j. j \<le> length ts \<and> ?P (Suc j))"
    by (metis Suc_le_mono gr0_conv_Suc)
  also have "\<dots> \<longleftrightarrow> ?P (Suc 0) \<or> (\<exists>k. 0 < k \<and> k \<le> length ts \<and> ?P (Suc k))"
    by (metis gr0I zero_le)
  finally show ?case using 2 by simp
qed simp

lemma watch_from:
  assumes "0 < t"
  shows "case watch_ticks False ts (updates h (detector_new t)) r of (d, r') \<Rightarrow>
    if ever_stalled t ts h
    then d = None \<and> rn_aborted r' = Some (case rn_aborted r of None \<Rightarrow> stall_abort t | Some e \<Rightarrow> e)
    else d \<noteq> None \<and> r' = r"
proof (induction ts arbitrary: h)
  case (Cons tick ts)
  obtain p now resp where tick: "tick = (p, now, resp)" by (cases tick)
  let ?d = "updates h (detector_new t)"
  have stalled: "fst (stall_update p now ?d) = stands_for t ((p, now) # h)"
    by (rule update_stalled [OF assms])
  have step: "snd (stall_update p now ?d) = updates ((p, now) # h) (detector_new t)" by simp
  have same: "sd_timeout (snd (stall_update p now ?d)) = t" unfolding step updates_frame by (simp add: detector_new_def)
  show ?case
  proof (cases "stands_for t ((p, now) # h)")
    case True
    then have "watch_tick False p now resp ?d r = (None, setAbort (stall_abort t) (snd (onStall False resp r)))"
      using stalled same by (simp add: watch_tick_def Let_def split_beta onStall_def)
    then show ?thesis using True tick by (simp add: onStall_def setAbort_def elog_def split: option.split)
  next
    case False
    then have "watch_tick False p now resp ?d r = (Some (updates ((p, now) # h) (detector_new t)), r)"
      using stalled step by (simp add: watch_tick_def Let_def split_beta)
    then show ?thesis using False tick Cons.IH [of "(p, now) # h"] by simp
  qed
qed simp

text \<open>Without a terminal the watchdog aborts a run exactly when it stands still. If at some tick the progress count
  has not moved for the stall timeout, the loop ends with the abort \<open>no forward progress\<close> (unless the run had aborted
  before); if there is no such tick, the loop goes on and has touched nothing.\<close>

lemma watchdog_aborts_iff_stalled:
  "let (d, r') = runWatchdog False ts r in
   if \<exists>k. 0 < k \<and> k \<le> length ts \<and> stands_for stallTimeout (counts (take k ts))
   then d = None \<and> rn_aborted r' = Some (case rn_aborted r of None \<Rightarrow> stall_abort stallTimeout | Some e \<Rightarrow> e)
   else d \<noteq> None \<and> r' = r"
  using watch_from [of stallTimeout ts "[]" r]
  by (simp add: runWatchdog_def stallTimeout_def ever_stalled_iff)

text \<open>A terminal's answer decides: after \<open>m\<close> the window is five minutes, yet the next report names the default
  timeout again.\<close>

lemma next_stall_reports_default:
  assumes "fst (stall_update p now d)" and "sd_timeout d = 5 * 60 * 10 ^ 9"
  shows "rn_lines (snd (watch_tick True p now ''m'' d r)) = rn_lines r @
    [StderrLine (''basicopy: stalled for %s -- [c]ontinue 30s / [m]inutes (5) / [f]orever / [a]bort?'', [Num (30 * 10 ^ 9)])]"
  using assms(1)
  by (simp add: watch_tick_def Let_def split_beta onStall_def elog_def stallTimeout_def trim_space_def is_space_def to_lower_def to_lower_char_def)

end
