(* ===== verification/DirRace.thy ===== *)
theory DirRace
  imports Runner
begin

text \<open>
  The state of one directory under concurrency (internal/engine/dirmeta.go). Its three fields are atomic
  variables, and the walk and any number of workers operate on them at once: \<open>completeDirWork\<close> decrements
  \<open>pending\<close>, then loads \<open>closed\<close>, then swaps \<open>queued\<close>; \<open>closeDir\<close> stores \<open>closed\<close>, then loads \<open>pending\<close>,
  then swaps \<open>queued\<close>. A step of the relation below is one atomic access; between two of them any other
  thread may run. The walk alone adds work, and only while it lists the directory.
\<close>

subsection \<open>States and steps\<close>

datatype walk_pos = Listing | Stored | Left_dir

text \<open>The fields; the jobs pushed; the workers that saw \<open>pending\<close> reach zero and have not loaded \<open>closed\<close>; the
  threads about to swap \<open>queued\<close>; the position of the walk.\<close>

record dir_run =
  dq_pending :: int
  dq_closed :: bool
  dq_queued :: bool
  dq_pushes :: nat
  dq_at_load :: nat
  dq_at_swap :: nat
  dq_walk :: walk_pos

definition dir_start :: dir_run where
  "dir_start = \<lparr>dq_pending = 0, dq_closed = False, dq_queued = False, dq_pushes = 0, dq_at_load = 0, dq_at_swap = 0,
     dq_walk = Listing\<rparr>"

definition add_work :: "dir_run \<Rightarrow> dir_run" where
  "add_work s = s\<lparr>dq_pending := dq_pending s + 1\<rparr>"

definition finish_work :: "dir_run \<Rightarrow> dir_run" where
  "finish_work s =
     (let s = s\<lparr>dq_pending := dq_pending s - 1\<rparr> in
      if dq_pending s = 0 then s\<lparr>dq_at_load := dq_at_load s + 1\<rparr> else s)"

definition load_closed :: "dir_run \<Rightarrow> dir_run" where
  "load_closed s =
     (let s' = s\<lparr>dq_at_load := dq_at_load s - 1\<rparr> in
      if dq_closed s then s'\<lparr>dq_at_swap := dq_at_swap s + 1\<rparr> else s')"

definition store_closed :: "dir_run \<Rightarrow> dir_run" where
  "store_closed s = s\<lparr>dq_closed := True, dq_walk := Stored\<rparr>"

definition load_pending :: "dir_run \<Rightarrow> dir_run" where
  "load_pending s =
     (let s' = s\<lparr>dq_walk := Left_dir\<rparr> in
      if dq_pending s = 0 then s'\<lparr>dq_at_swap := dq_at_swap s + 1\<rparr> else s')"

definition swap_queued :: "dir_run \<Rightarrow> dir_run" where
  "swap_queued s =
     (let s' = s\<lparr>dq_at_swap := dq_at_swap s - 1\<rparr> in
      if dq_queued s then s' else s'\<lparr>dq_queued := True, dq_pushes := dq_pushes s + 1\<rparr>)"

inductive dir_step :: "dir_run \<Rightarrow> dir_run \<Rightarrow> bool" where
  add: "dq_walk s = Listing \<Longrightarrow> dir_step s (add_work s)"
| finish: "0 < dq_pending s \<Longrightarrow> dir_step s (finish_work s)"
| load: "0 < dq_at_load s \<Longrightarrow> dir_step s (load_closed s)"
| store: "dq_walk s = Listing \<Longrightarrow> dir_step s (store_closed s)"
| look: "dq_walk s = Stored \<Longrightarrow> dir_step s (load_pending s)"
| swap: "0 < dq_at_swap s \<Longrightarrow> dir_step s (swap_queued s)"

lemmas dir_ops = add_work_def finish_work_def load_closed_def store_closed_def load_pending_def swap_queued_def Let_def

abbreviation dir_reach :: "dir_run \<Rightarrow> bool" where
  "dir_reach s \<equiv> dir_step\<^sup>*\<^sup>* dir_start s"

subsection \<open>The operations of the code are runs of steps\<close>

text \<open>A directory of a run state, with no thread inside an operation.\<close>

definition cell :: "'w runner \<Rightarrow> nat \<Rightarrow> dir_run" where
  "cell r d =
     (let s = rn_dir_states r ! d in
      \<lparr>dq_pending = dt_pending s, dq_closed = dt_closed s, dq_queued = dt_queued s,
       dq_pushes = count_list (rn_meta_jobs r) d, dq_at_load = 0, dq_at_swap = 0,
       dq_walk = (if dt_closed s then Left_dir else Listing)\<rparr>)"

lemma count_list_append1 [simp]: "count_list (xs @ [x]) y = count_list xs y + (if x = y then 1 else 0)"
  by (induction xs) auto

lemma addDirWork_runs:
  assumes "d < length (rn_dir_states r)" and "\<not> dt_closed (rn_dir_states r ! d)"
  shows "dir_step\<^sup>*\<^sup>* (cell r d) (cell (addDirWork (Some d) r) d)"
proof -
  have "cell (addDirWork (Some d) r) d = add_work (cell r d)"
    using assms by (simp add: addDirWork_def upd_dir_def cell_def dir_ops)
  then show ?thesis using assms(2) dir_step.add [of "cell r d"] by (simp add: cell_def Let_def r_into_rtranclp)
qed

lemma completeDirWork_cell:
  assumes "d < length (rn_dir_states r)"
  shows "cell (completeDirWork (Some d) r) d =
    (let s = finish_work (cell r d) in
     if dq_pending s \<noteq> 0 then s else if dq_closed s then swap_queued (load_closed s) else load_closed s)"
  using assms by (simp add: completeDirWork_def queueDirMeta_def upd_dir_def cell_def dir_ops)

lemma completeDirWork_runs:
  assumes "d < length (rn_dir_states r)" and "0 < dt_pending (rn_dir_states r ! d)"
  shows "dir_step\<^sup>*\<^sup>* (cell r d) (cell (completeDirWork (Some d) r) d)"
proof -
  let ?s = "finish_work (cell r d)"
  have fin: "dir_step (cell r d) ?s" using assms(2) by (intro dir_step.finish) (simp add: cell_def Let_def)
  have load: "dir_step ?s (load_closed ?s)" if "dq_pending ?s = 0"
    using that by (intro dir_step.load) (simp add: finish_work_def Let_def split: if_splits)
  have swap: "dir_step (load_closed ?s) (swap_queued (load_closed ?s))" if "dq_closed ?s"
    using that by (intro dir_step.swap) (simp add: load_closed_def Let_def)
  show ?thesis
    unfolding completeDirWork_cell [OF assms(1)] Let_def
    using fin load swap by (auto intro: converse_rtranclp_into_rtranclp)
qed

lemma closeDir_cell:
  assumes "d < length (rn_dir_states r)"
  shows "cell (closeDir (Some d) r) d =
    (let s = load_pending (store_closed (cell r d)) in if dq_pending s = 0 then swap_queued s else s)"
  using assms by (simp add: closeDir_def queueDirMeta_def upd_dir_def cell_def dir_ops)

lemma closeDir_runs:
  assumes "d < length (rn_dir_states r)" and "\<not> dt_closed (rn_dir_states r ! d)"
  shows "dir_step\<^sup>*\<^sup>* (cell r d) (cell (closeDir (Some d) r) d)"
proof -
  let ?s = "store_closed (cell r d)"
  have store: "dir_step (cell r d) ?s" using assms(2) by (intro dir_step.store) (simp add: cell_def Let_def)
  have look: "dir_step ?s (load_pending ?s)" by (intro dir_step.look) (simp add: store_closed_def)
  have swap: "dir_step (load_pending ?s) (swap_queued (load_pending ?s))" if "dq_pending (load_pending ?s) = 0"
    using that by (intro dir_step.swap) (simp add: load_pending_def Let_def split: if_splits)
  show ?thesis
    unfolding closeDir_cell [OF assms(1)] Let_def
    using store look swap by (auto intro: converse_rtranclp_into_rtranclp)
qed

subsection \<open>The metadata is queued exactly once\<close>

definition dir_ok :: "dir_run \<Rightarrow> bool" where
  "dir_ok s \<longleftrightarrow>
     dq_pushes s = (if dq_queued s then 1 else 0) \<and> 0 \<le> dq_pending s \<and>
     (dq_closed s \<longleftrightarrow> dq_walk s \<noteq> Listing) \<and> (0 < dq_at_swap s \<or> dq_queued s \<longrightarrow> dq_closed s) \<and>
     (dq_walk s = Left_dir \<and> dq_pending s = 0 \<longrightarrow> dq_queued s \<or> 0 < dq_at_swap s \<or> 0 < dq_at_load s)"

lemma dir_step_ok: "dir_step s s' \<Longrightarrow> dir_ok s \<Longrightarrow> dir_ok s'"
  by (induction rule: dir_step.induct) (auto simp: dir_ok_def dir_ops)

lemma dir_reach_ok: "dir_reach s \<Longrightarrow> dir_ok s"
proof (induction rule: rtranclp_induct)
  case base
  then show ?case by (simp add: dir_ok_def dir_start_def)
qed (rule dir_step_ok)

text \<open>Once the walk has left the directory, every schedule ends: the steps are bounded by the work left.\<close>

definition steps_left :: "dir_run \<Rightarrow> nat" where
  "steps_left s = 3 * nat (dq_pending s) + 2 * dq_at_load s + dq_at_swap s"

lemma steps_decrease:
  "dir_step s s' \<Longrightarrow> dq_walk s = Left_dir \<Longrightarrow> dq_walk s' = Left_dir \<and> steps_left s' < steps_left s"
  by (induction rule: dir_step.induct) (auto simp: steps_left_def dir_ops)

lemma stuck_left:
  "dq_walk s = Left_dir \<Longrightarrow> dir_ok s \<Longrightarrow> (\<nexists>s'. dir_step s s') \<Longrightarrow> dq_pending s = 0 \<and> dq_at_load s = 0 \<and> dq_at_swap s = 0"
  using dir_step.finish [of s] dir_step.load [of s] dir_step.swap [of s] by (fastforce simp: dir_ok_def)

text \<open>C30: In every interleaving of the walk and the workers a directory's metadata is queued at most once and only after
  the walk has listed the directory. Once the walk has left it, every schedule ends after at most three steps per
  piece of work left, and where nothing more can run the metadata has been queued exactly once.\<close>

theorem dir_meta_queued_once:
  assumes "dir_reach s"
  shows "dq_pushes s \<le> 1 \<and> (dq_pushes s = 1 \<longrightarrow> dq_closed s) \<and>
    (dq_walk s = Left_dir \<and> (\<nexists>s'. dir_step s s') \<longrightarrow> dq_pushes s = 1) \<and>
    (dq_walk s = Left_dir \<longrightarrow> (\<forall>k s'. (dir_step ^^ k) s s' \<longrightarrow> k \<le> steps_left s))"
proof -
  have ok: "dir_ok s" by (rule dir_reach_ok [OF assms])
  have "dq_pushes s = 1" if "dq_walk s = Left_dir" "\<nexists>s'. dir_step s s'"
    using stuck_left [OF that(1) ok that(2)] that(1) ok by (auto simp: dir_ok_def)
  moreover have "k \<le> steps_left t" if "dq_walk t = Left_dir" "(dir_step ^^ k) t t'" for k t t'
    using that
  proof (induction k arbitrary: t)
    case (Suc k)
    then obtain u where u: "dir_step t u" "(dir_step ^^ k) u t'" by (blast elim: relpowp_Suc_E2)
    show ?case using steps_decrease [OF u(1) Suc.prems(1)] Suc.IH [OF _ u(2)] by simp
  qed simp
  ultimately show ?thesis using ok by (auto simp: dir_ok_def)
qed

theorem dir_meta_queued_once_witness:
  "\<exists>s. dir_reach s \<and> dq_pushes s = 1 \<and> (dq_pushes s = 1 \<longrightarrow> dq_closed s)"
proof -
  let ?s = "swap_queued (load_pending (store_closed dir_start))"
  have "dir_step dir_start (store_closed dir_start)" by (intro dir_step.store) (simp add: dir_start_def)
  moreover have "dir_step (store_closed dir_start) (load_pending (store_closed dir_start))"
    by (intro dir_step.look) (simp add: store_closed_def)
  moreover have "dir_step (load_pending (store_closed dir_start)) ?s"
    by (intro dir_step.swap) (simp add: dir_ops dir_start_def)
  ultimately have "dir_reach ?s" by (meson rtranclp.rtrancl_into_rtrancl rtranclp.rtrancl_refl)
  moreover have "dq_pushes ?s = 1" by (simp add: dir_ops dir_start_def)
  ultimately show ?thesis using dir_meta_queued_once [of ?s] by blast
qed

text \<open>The metadata may be queued while a file of the directory has still to be copied. A worker that saw \<open>pending\<close>
  reach zero is overtaken by the walk, which adds another file and closes the directory, before the worker loads
  \<open>closed\<close>; it then queues the metadata, and the copy that follows changes the directory's time again (or fails, if
  the directory's mode forbids writing).\<close>

lemma metadata_before_last_file: "\<exists>s. dir_reach s \<and> dq_pushes s = 1 \<and> dq_pending s = 1"
proof -
  let ?s = "\<lambda>p c q n l sw w. \<lparr>dq_pending = p, dq_closed = c, dq_queued = q, dq_pushes = n, dq_at_load = l, dq_at_swap = sw, dq_walk = w\<rparr>"
  note into = rtranclp.rtrancl_into_rtrancl [of dir_step dir_start]
  have "dir_reach (?s 0 False False 0 0 0 Listing)" by (simp add: dir_start_def)
  then have "dir_reach (?s 1 False False 0 0 0 Listing)"
    by (rule into) (use dir_step.add [of "?s 0 False False 0 0 0 Listing"] in \<open>simp add: dir_ops\<close>)
  then have "dir_reach (?s 0 False False 0 1 0 Listing)"
    by (rule into) (use dir_step.finish [of "?s 1 False False 0 0 0 Listing"] in \<open>simp add: dir_ops\<close>)
  then have "dir_reach (?s 1 False False 0 1 0 Listing)"
    by (rule into) (use dir_step.add [of "?s 0 False False 0 1 0 Listing"] in \<open>simp add: dir_ops\<close>)
  then have "dir_reach (?s 1 True False 0 1 0 Stored)"
    by (rule into) (use dir_step.store [of "?s 1 False False 0 1 0 Listing"] in \<open>simp add: dir_ops\<close>)
  then have "dir_reach (?s 1 True False 0 0 1 Stored)"
    by (rule into) (use dir_step.load [of "?s 1 True False 0 1 0 Stored"] in \<open>simp add: dir_ops\<close>)
  then have "dir_reach (?s 1 True True 1 0 0 Stored)"
    by (rule into) (use dir_step.swap [of "?s 1 True False 0 0 1 Stored"] in \<open>simp add: dir_ops\<close>)
  then show ?thesis by force
qed

end
