(* ===== verification/Slots.thy ===== *)
theory Slots
  imports Pool
begin

text \<open>
  The traffic on a pool: remote files (internal/vfs/sftp.go: \<open>remoteFile\<close>, \<open>Open\<close>, \<open>CreateTemp\<close>) and
  single requests (\<open>run\<close> of pool.go). A file holds a transfer slot of the connection it was opened on until
  it is closed; every request is bracketed by \<open>begin\<close> and \<open>finish\<close>. Threads interleave at these operations;
  what the server answers decides only which of them follow.
\<close>

subsection \<open>Operations\<close>

record remote_file =
  rf_conn :: nat
  rf_closed :: bool

text \<open>The pool; the connections acquired by an open that has not come back; the files; the requests outstanding.\<close>

record traffic =
  tr_pool :: pool
  tr_held :: "nat list"
  tr_files :: "remote_file list"
  tr_reqs :: "nat list"

definition traffic_new :: "bool \<Rightarrow> traffic" where
  "traffic_new can_dial = \<lparr>tr_pool = pool_new can_dial, tr_held = [], tr_files = [], tr_reqs = []\<rparr>"

text \<open>\<open>Read\<close>, \<open>Write\<close> and \<open>run\<close>: one request on a connection.\<close>

definition request_begin :: "nat \<Rightarrow> traffic \<Rightarrow> traffic" where
  "request_begin i t = t\<lparr>tr_pool := conn_begin i (tr_pool t), tr_reqs := i # tr_reqs t\<rparr>"

definition request_finish :: "nat \<Rightarrow> traffic \<Rightarrow> traffic" where
  "request_finish i t = t\<lparr>tr_pool := conn_finish i (tr_pool t), tr_reqs := remove1 i (tr_reqs t)\<rparr>"

definition run_begin :: "traffic \<Rightarrow> traffic" where
  "run_begin t = (let (i, p) = pick (tr_pool t) in request_begin i (t\<lparr>tr_pool := p\<rparr>))"

definition open_file :: "nat \<Rightarrow> traffic \<Rightarrow> traffic" where
  "open_file i t = t\<lparr>tr_held := remove1 i (tr_held t), tr_files := tr_files t @ [\<lparr>rf_conn = i, rf_closed = False\<rparr>]\<rparr>"

definition open_failed :: "nat \<Rightarrow> traffic \<Rightarrow> traffic" where
  "open_failed i t = t\<lparr>tr_pool := release i (tr_pool t), tr_held := remove1 i (tr_held t)\<rparr>"

definition close_file :: "nat \<Rightarrow> traffic \<Rightarrow> traffic" where
  "close_file k t =
     (let f = tr_files t ! k in
      if rf_closed f then t
      else t\<lparr>tr_pool := release (rf_conn f) (tr_pool t), tr_files := (tr_files t)[k := f\<lparr>rf_closed := True\<rparr>]\<rparr>)"

inductive tr_step :: "traffic \<Rightarrow> traffic \<Rightarrow> bool" where
  acquires: "acquire (tr_pool t) = (Some i, p) \<Longrightarrow> tr_step t (t\<lparr>tr_pool := p, tr_held := i # tr_held t\<rparr>)"
| waits: "acquire (tr_pool t) = (None, p) \<Longrightarrow> tr_step t (t\<lparr>tr_pool := p\<rparr>)"
| picks: "tr_step t (run_begin t)"
| begins: "i \<in> set (tr_held t) \<or> i \<in> rf_conn ` set (tr_files t) \<Longrightarrow> tr_step t (request_begin i t)"
| finishes: "i \<in> set (tr_reqs t) \<Longrightarrow> tr_step t (request_finish i t)"
| opens: "i \<in> set (tr_held t) \<Longrightarrow> tr_step t (open_file i t)"
| fails: "i \<in> set (tr_held t) \<Longrightarrow> tr_step t (open_failed i t)"
| closes: "k < length (tr_files t) \<Longrightarrow> tr_step t (close_file k t)"
| dialed: "pl_dialing (tr_pool t) \<Longrightarrow> tr_step t (t\<lparr>tr_pool := dial_done ok (tr_pool t)\<rparr>)"
| marks: "tr_step t (t\<lparr>tr_pool := mark_closed (tr_pool t)\<rparr>)"
| shuts: "pl_closed (tr_pool t) \<Longrightarrow> tr_step t (t\<lparr>tr_pool := shut_conns n (tr_pool t)\<rparr>)"

abbreviation tr_reach :: "bool \<Rightarrow> traffic \<Rightarrow> bool" where
  "tr_reach can_dial t \<equiv> tr_step\<^sup>*\<^sup>* (traffic_new can_dial) t"

subsection \<open>Every slot is accounted for\<close>

definition users :: "traffic \<Rightarrow> nat \<Rightarrow> int" where
  "users t i = int (count_list (tr_held t) i) + int (length (filter (\<lambda>f. rf_conn f = i \<and> \<not> rf_closed f) (tr_files t)))"

definition slots_ok :: "traffic \<Rightarrow> bool" where
  "slots_ok t \<longleftrightarrow>
     pool_inv (tr_pool t) \<and>
     (\<forall>i < length (pl_conns (tr_pool t)).
        cn_transfers (pl_conns (tr_pool t) ! i) = users t i \<and>
        cn_inflight (pl_conns (tr_pool t) ! i) = int (count_list (tr_reqs t) i)) \<and>
     (\<forall>i \<in> set (tr_held t) \<union> rf_conn ` set (tr_files t) \<union> set (tr_reqs t). i < length (pl_conns (tr_pool t)))"

lemma count_remove1:
  "i \<in> set xs \<Longrightarrow> int (count_list (remove1 i xs) j) = int (count_list xs j) - (if i = j then 1 else 0)"
  by (induction xs) auto

lemma upd_conn_nth:
  "i < length (pl_conns p) \<Longrightarrow> pl_conns (upd_conn i g p) ! j = (if i = j then g (pl_conns p ! j) else pl_conns p ! j)"
  by (simp add: upd_conn_def)

lemma slots_okD:
  assumes "slots_ok t"
  shows "pool_inv (tr_pool t)" "\<And>i. i < length (pl_conns (tr_pool t)) \<Longrightarrow> cn_transfers (pl_conns (tr_pool t) ! i) = users t i"
    "\<And>i. i < length (pl_conns (tr_pool t)) \<Longrightarrow> cn_inflight (pl_conns (tr_pool t) ! i) = int (count_list (tr_reqs t) i)"
    "\<And>i. i \<in> set (tr_held t) \<Longrightarrow> i < length (pl_conns (tr_pool t))"
    "\<And>f. f \<in> set (tr_files t) \<Longrightarrow> rf_conn f < length (pl_conns (tr_pool t))"
    "\<And>i. i \<in> set (tr_reqs t) \<Longrightarrow> i < length (pl_conns (tr_pool t))"
  using assms by (auto simp: slots_ok_def)

lemma slots_okI:
  assumes "pool_inv (tr_pool t)"
    and "\<And>i. i < length (pl_conns (tr_pool t)) \<Longrightarrow> cn_transfers (pl_conns (tr_pool t) ! i) = users t i"
    and "\<And>i. i < length (pl_conns (tr_pool t)) \<Longrightarrow> cn_inflight (pl_conns (tr_pool t) ! i) = int (count_list (tr_reqs t) i)"
    and "\<And>i. i \<in> set (tr_held t) \<Longrightarrow> i < length (pl_conns (tr_pool t))"
    and "\<And>f. f \<in> set (tr_files t) \<Longrightarrow> rf_conn f < length (pl_conns (tr_pool t))"
    and "\<And>i. i \<in> set (tr_reqs t) \<Longrightarrow> i < length (pl_conns (tr_pool t))"
  shows "slots_ok t"
  using assms by (auto simp: slots_ok_def)

text \<open>A pool that differs only in the rotating offset and the flags.\<close>

lemma slots_ok_pool:
  assumes "slots_ok t" and "pool_inv p" and "pl_conns p = pl_conns (tr_pool t)"
  shows "slots_ok (t\<lparr>tr_pool := p\<rparr>)"
  using slots_okD [OF assms(1)] assms(2,3) by (intro slots_okI) (simp_all add: users_def)

lemma take_ok:
  assumes "slots_ok t" and "i < length (pl_conns (tr_pool t))"
  shows "slots_ok (t\<lparr>tr_pool := take_conn i (tr_pool t), tr_held := i # tr_held t\<rparr>)"
  using slots_okD [OF assms(1)] take_conn_inv [OF _ assms(2)] assms(2)
  by (intro slots_okI) (auto simp: take_conn_def upd_conn_nth users_def)

lemma acquires_ok:
  assumes "slots_ok t" and "acquire (tr_pool t) = (Some i, p)"
  shows "slots_ok (t\<lparr>tr_pool := p, tr_held := i # tr_held t\<rparr>)"
proof (cases "tr_pool t" rule: acquire_cases)
  case (idle j)
  then show ?thesis using assms take_ok [OF assms(1), of i] freeConn_Some transfer_conns_bound by auto
next
  case (shared j)
  let ?q = "(tr_pool t)\<lparr>pl_rr := pl_rr (tr_pool t) + 1\<rparr>"
  have "slots_ok (t\<lparr>tr_pool := ?q\<rparr>)" by (rule slots_ok_pool) (use slots_okD(1) [OF assms(1)] assms(1) in simp_all)
  moreover have "j < length (pl_conns (tr_pool t))"
    using shared leastLoaded_bound slots_okD(1) [OF assms(1)] by (auto simp: pool_inv_def)
  ultimately show ?thesis using take_ok [of "t\<lparr>tr_pool := ?q\<rparr>" i] shared assms(2) by simp
qed (use assms in simp)

lemma request_begin_ok:
  assumes "slots_ok t" and "i < length (pl_conns (tr_pool t))"
  shows "slots_ok (request_begin i t)"
proof -
  have "pool_inv (conn_begin i (tr_pool t))"
    unfolding conn_begin_def by (rule upd_conn_inv) (use slots_okD(1) [OF assms(1)] assms(2) in \<open>auto simp: pool_inv_def\<close>)
  then show ?thesis using slots_okD [OF assms(1)] assms(2)
    by (intro slots_okI) (auto simp: request_begin_def conn_begin_def upd_conn_nth users_def)
qed

lemma request_finish_ok:
  assumes "slots_ok t" and "i \<in> set (tr_reqs t)"
  shows "slots_ok (request_finish i t)"
proof -
  note d = slots_okD [OF assms(1)] and i = slots_okD(6) [OF assms]
  have "pool_inv (conn_finish i (tr_pool t))"
    unfolding conn_finish_def by (rule upd_conn_inv) (use d(1) i in \<open>auto simp: pool_inv_def\<close>)
  then show ?thesis using d i
    by (intro slots_okI)
      (auto simp: request_finish_def conn_finish_def upd_conn_nth users_def count_remove1 [OF assms(2)] simp del: count_list_remove1
        dest: subsetD [OF set_remove1_subset])
qed

lemma opens_ok:
  assumes "slots_ok t" and "i \<in> set (tr_held t)"
  shows "slots_ok (open_file i t)"
  using slots_okD [OF assms(1)] assms(2)
  by (intro slots_okI)
    (auto simp: open_file_def users_def count_remove1 [OF assms(2)] simp del: count_list_remove1
        dest: subsetD [OF set_remove1_subset])

text \<open>A slot that is given back was taken: the guard of \<open>release\<close> never applies.\<close>

lemma release_nth:
  "i < length (pl_conns p) \<Longrightarrow> 0 < cn_transfers (pl_conns p ! i) \<Longrightarrow>
     cn_transfers (pl_conns (release i p) ! j) = cn_transfers (pl_conns p ! j) - (if i = j then 1 else 0) \<and>
     cn_inflight (pl_conns (release i p) ! j) = cn_inflight (pl_conns p ! j)"
  by (auto simp: release_def upd_conn_nth)

lemma held_uses: "i \<in> set (tr_held t) \<Longrightarrow> 0 < users t i"
proof -
  assume "i \<in> set (tr_held t)"
  then have "count_list (tr_held t) i \<noteq> 0" by (simp add: count_list_0_iff)
  then show ?thesis by (simp add: users_def)
qed

lemma open_uses:
  assumes "k < length (tr_files t)" and "\<not> rf_closed (tr_files t ! k)"
  shows "0 < users t (rf_conn (tr_files t ! k))"
proof -
  have "tr_files t ! k \<in> set (filter (\<lambda>f. rf_conn f = rf_conn (tr_files t ! k) \<and> \<not> rf_closed f) (tr_files t))"
    using assms by simp
  then show ?thesis unfolding users_def by (metis (lifting) length_pos_if_in_set of_nat_0_less_iff add_nonneg_pos of_nat_0_le_iff)
qed

lemma fails_ok:
  assumes "slots_ok t" and "i \<in> set (tr_held t)"
  shows "slots_ok (open_failed i t)"
proof -
  note d = slots_okD [OF assms(1)] and i = slots_okD(4) [OF assms]
  have r: "0 < cn_transfers (pl_conns (tr_pool t) ! i)" using d(2) [OF i] held_uses [OF assms(2)] by simp
  show ?thesis
    using d i release_nth [OF i r] release_inv [OF d(1) i]
    by (intro slots_okI)
      (auto simp: open_failed_def users_def count_remove1 [OF assms(2)] release_def simp del: count_list_remove1
        dest: subsetD [OF set_remove1_subset])
qed

lemma closes_ok:
  assumes "slots_ok t" and k: "k < length (tr_files t)"
  shows "slots_ok (close_file k t)"
proof (cases "rf_closed (tr_files t ! k)")
  case True
  then show ?thesis using assms(1) by (simp add: close_file_def)
next
  case False
  let ?f = "tr_files t ! k" and ?t = "close_file k t"
  note d = slots_okD [OF assms(1)]
  have i: "rf_conn ?f < length (pl_conns (tr_pool t))" using d(5) k by simp
  have r: "0 < cn_transfers (pl_conns (tr_pool t) ! rf_conn ?f)" using d(2) [OF i] open_uses [OF k False] by simp
  have t: "tr_pool ?t = release (rf_conn ?f) (tr_pool t)" "tr_held ?t = tr_held t" "tr_reqs ?t = tr_reqs t"
    "tr_files ?t = (tr_files t)[k := ?f\<lparr>rf_closed := True\<rparr>]" "length (pl_conns (tr_pool ?t)) = length (pl_conns (tr_pool t))"
    using False by (simp_all add: close_file_def Let_def release_def)
  have u: "users ?t j = users t j - (if rf_conn ?f = j then 1 else 0)" for j
    using False by (simp add: users_def t count_filter_update [OF k])
  show ?thesis
  proof (rule slots_okI)
    fix f assume "f \<in> set (tr_files ?t)"
    then have "f \<in> insert (?f\<lparr>rf_closed := True\<rparr>) (set (tr_files t))"
      unfolding t using set_update_subset_insert by fastforce
    then show "rf_conn f < length (pl_conns (tr_pool ?t))" using d(5) i by (auto simp: t(1) release_def)
  qed (use d i release_nth [OF i r] release_inv [OF d(1) i] u t in simp_all)
qed

lemma dialed_ok:
  assumes "slots_ok t" and "pl_dialing (tr_pool t)"
  shows "slots_ok (t\<lparr>tr_pool := dial_done ok (tr_pool t)\<rparr>)"
proof (cases ok)
  case False
  then show ?thesis
    using pool_cast_inv [OF slots_okD(1) [OF assms(1)] assms(2), of ok]
    by (intro slots_ok_pool [OF assms(1)]) (simp_all add: dial_done_def Let_def)
next
  case True
  let ?n = "length (pl_conns (tr_pool t))"
  note d = slots_okD [OF assms(1)]
  have "?n \<notin> set (tr_held t)" "\<forall>f \<in> set (tr_files t). rf_conn f \<noteq> ?n" "?n \<notin> set (tr_reqs t)"
    using d(4,5,6) by (metis less_irrefl)+
  then have new: "users t ?n = 0" "count_list (tr_reqs t) ?n = 0"
    by (auto simp: users_def count_notin filter_empty_conv)
  have "pool_inv (dial_done ok (tr_pool t))" by (rule pool_cast_inv [OF d(1) assms(2)])
  then show ?thesis
    using d True new
    by (intro slots_okI) (auto simp: dial_done_def Let_def nth_append new_conn_def users_def less_Suc_eq)
qed

lemma shuts_ok: "slots_ok t \<Longrightarrow> slots_ok (t\<lparr>tr_pool := shut_conns n (tr_pool t)\<rparr>)"
proof -
  assume t: "slots_ok t"
  have c: "cn_transfers (pl_conns (shut_conns n p) ! j) = cn_transfers (pl_conns p ! j) \<and>
      cn_inflight (pl_conns (shut_conns n p) ! j) = cn_inflight (pl_conns p ! j)" if "j < length (pl_conns p)" for p j
    using that by (auto simp: shut_conns_def nth_append)
  have n: "length (pl_conns (shut_conns n p)) = length (pl_conns p)" for p by (simp add: shut_conns_def min_def)
  have "pool_inv (shut_conns n (tr_pool t))"
    using slots_okD(1) [OF t] by (auto simp: pool_inv_def shut_conns_def dest: in_set_takeD in_set_dropD)
  then show ?thesis
    using slots_okD [OF t] c n by (intro slots_okI) (simp_all add: users_def)
qed

lemma picks_ok:
  assumes "slots_ok t"
  shows "slots_ok (run_begin t)"
proof -
  note d = slots_okD [OF assms]
  have p: "pool_inv (snd (pick (tr_pool t)))" "pl_conns (snd (pick (tr_pool t))) = pl_conns (tr_pool t)"
    using d(1) by (simp_all add: pick_def leastLoaded_snd)
  have "fst (pick (tr_pool t)) < length (pl_conns (tr_pool t))"
    using leastLoaded_bound d(1) by (auto simp: pick_def pool_inv_def)
  then show ?thesis
    using request_begin_ok [OF slots_ok_pool [OF assms p]] p(2) by (simp add: run_begin_def Let_def split_beta)
qed

lemma tr_step_ok: "tr_step t t' \<Longrightarrow> slots_ok t \<Longrightarrow> slots_ok t'"
proof (induction rule: tr_step.induct)
  case (waits t p)
  have "p = startDial (tr_pool t)" using waits.hyps by (cases "tr_pool t" rule: acquire_cases) simp_all
  then have "pl_conns p = pl_conns (tr_pool t)" by (simp add: startDial_def)
  moreover have "pool_inv p"
    using pool_pass_waits [OF slots_okD(1) [OF waits.prems], of p] waits.hyps by simp
  ultimately show ?case by (intro slots_ok_pool [OF waits.prems])
next
  case (begins i t)
  then show ?case using slots_okD(4,5) [OF begins.prems] by (intro request_begin_ok) auto
next
  case (marks t)
  then show ?case using slots_okD(1) [OF marks] by (intro slots_ok_pool [OF marks]) (simp_all add: mark_closed_def pool_inv_def)
qed (simp_all add: acquires_ok picks_ok request_finish_ok opens_ok fails_ok closes_ok dialed_ok shuts_ok)

text \<open>C31: Every transfer slot and every request is accounted for, and every slot comes back. In every interleaving of opens,
  reads, writes, closes (a file may be closed twice), requests, dials and the close of the filesystem, the transfers a
  connection counts are exactly the opens under way and the files not yet closed on it, the requests in flight are
  exactly those unanswered, and with all files closed and no open under way every connection is free.\<close>

theorem slots_accounted_for:
  assumes "tr_reach can_dial t" and "i < length (pl_conns (tr_pool t))"
  shows "cn_transfers (pl_conns (tr_pool t) ! i) = users t i \<and>
    cn_inflight (pl_conns (tr_pool t) ! i) = int (count_list (tr_reqs t) i) \<and>
    (tr_held t = [] \<and> (\<forall>f \<in> set (tr_files t). rf_closed f) \<longrightarrow> cn_transfers (pl_conns (tr_pool t) ! i) = 0)"
proof -
  have "slots_ok t" using assms(1)
  proof (induction rule: rtranclp_induct)
    case base
    show ?case by (simp add: slots_ok_def traffic_new_def pool_new_def new_conn_def pool_inv_def MaxConnections_def users_def)
  qed (rule tr_step_ok)
  note d = slots_okD(2,3) [OF this assms(2)]
  show ?thesis using d by (auto simp: users_def filter_empty_conv)
qed

text \<open>One file opened and closed twice.\<close>

theorem slots_accounted_for_witness:
  "\<exists>t. tr_reach False t \<and> length (tr_files t) = 1 \<and> cn_transfers (pl_conns (tr_pool t) ! 0) = 0"
proof -
  let ?t0 = "traffic_new False"
  let ?t1 = "?t0\<lparr>tr_pool := take_conn 0 (tr_pool ?t0), tr_held := [0]\<rparr>"
  let ?t2 = "open_file 0 ?t1" and ?t3 = "close_file 0 (open_file 0 ?t1)"
  have a: "acquire (tr_pool ?t0) = (Some 0, take_conn 0 (tr_pool ?t0))"
    by (simp add: acquire_def freeConn_def transfer_conns_def traffic_new_def pool_new_def new_conn_def)
  have "tr_step ?t0 ?t1" using tr_step.acquires [OF a] by (simp add: traffic_new_def)
  moreover have "tr_step ?t1 ?t2" by (rule tr_step.opens) simp
  moreover have "tr_step ?t2 ?t3" by (rule tr_step.closes) (simp add: open_file_def)
  moreover have "tr_step ?t3 (close_file 0 ?t3)"
    by (rule tr_step.closes) (simp add: open_file_def close_file_def Let_def)
  ultimately have r: "tr_reach False (close_file 0 ?t3)" by (meson rtranclp.rtrancl_into_rtrancl rtranclp.rtrancl_refl)
  have "0 < length (pl_conns (tr_pool (close_file 0 ?t3)))"
    by (simp add: close_file_def open_file_def Let_def release_def take_conn_def traffic_new_def pool_new_def)
  from slots_accounted_for [OF r this] show ?thesis
    using r by (intro exI [of _ "close_file 0 ?t3"]) (simp add: close_file_def open_file_def Let_def traffic_new_def)
qed

end
