(* ===== verification/Pipeline.thy ===== *)
theory Pipeline
  imports Gate "HOL-Library.Multiset"
begin

text \<open>
  The copy pipeline of internal/engine/engine.go: the walk pushes jobs into the queue and closes it, a fixed number of
  workers pop them, drop them if the run is aborted, and otherwise copy them inside the gate, whose limit the controller
  moves meanwhile. A step is one operation of one goroutine on a shared object. That no sleeping worker is
  forgotten is the matter of Gate; here a worker that cannot go on has no step. What \<open>copyOne\<close> does is in Runner; the
  bookkeeping of directories, \<open>completeDirWork\<close>, is in DirRace.
\<close>

subsection \<open>States and steps\<close>

datatype 'j worker_pos = Popping | Popped 'j | At_gate 'j | Copying 'j | Ended

text \<open>The last three fields record what was pushed, what was copied (\<open>copyOne\<close> returned for it, whatever its outcome) and what an
  abort dropped.\<close>

record 'j pipe =
  pp_queue :: "'j queue"
  pp_gate :: gate
  pp_aborted :: bool
  pp_workers :: "'j worker_pos list"
  pp_pushed :: "'j list"
  pp_copied :: "'j list"
  pp_dropped :: "'j list"

definition pipe_new :: "nat \<Rightarrow> int \<Rightarrow> int \<Rightarrow> 'j pipe" where
  "pipe_new n mx initial =
     \<lparr>pp_queue = queue_new, pp_gate = gate_new mx initial, pp_aborted = False, pp_workers = replicate n Popping,
      pp_pushed = [], pp_copied = [], pp_dropped = []\<rparr>"

definition move_worker :: "nat \<Rightarrow> 'j worker_pos \<Rightarrow> 'j pipe \<Rightarrow> 'j pipe" where
  "move_worker k pos p = p\<lparr>pp_workers := (pp_workers p)[k := pos]\<rparr>"

text \<open>One step of \<open>worker\<close> number \<open>k\<close>; \<open>None\<close> if it has to wait or has returned.\<close>

definition worker_step :: "nat \<Rightarrow> 'j pipe \<Rightarrow> 'j pipe option" where
  "worker_step k p =
     (case pp_workers p ! k of
        Popping \<Rightarrow>
          (case queue_pop (pp_queue p) of
             None \<Rightarrow> None
           | Some (None, q) \<Rightarrow> Some (move_worker k Ended (p\<lparr>pp_queue := q\<rparr>))
           | Some (Some j, q) \<Rightarrow> Some (move_worker k (Popped j) (p\<lparr>pp_queue := q\<rparr>)))
      | Popped j \<Rightarrow>
          Some (if pp_aborted p then move_worker k Popping (p\<lparr>pp_dropped := pp_dropped p @ [j]\<rparr>)
                else move_worker k (At_gate j) p)
      | At_gate j \<Rightarrow>
          (case gate_acquire (pp_gate p) of
             Waits _ \<Rightarrow> None
           | Goes g \<Rightarrow> Some (move_worker k (Copying j) (p\<lparr>pp_gate := g\<rparr>)))
      | Copying j \<Rightarrow>
          Some (move_worker k Popping (p\<lparr>pp_gate := gate_release (pp_gate p), pp_copied := pp_copied p @ [j]\<rparr>))
      | Ended \<Rightarrow> None)"

text \<open>The others: the walk pushes until it closes the queue; any part may abort the run; the controller sets the limit.\<close>

definition other_steps :: "'j pipe \<Rightarrow> 'j pipe \<Rightarrow> bool" where
  "other_steps p p' \<longleftrightarrow>
     (\<exists>j. \<not> qu_closed (pp_queue p) \<and> p' = p\<lparr>pp_queue := queue_push j (pp_queue p), pp_pushed := pp_pushed p @ [j]\<rparr>) \<or>
     p' = p\<lparr>pp_queue := queue_close (pp_queue p)\<rparr> \<or>
     p' = p\<lparr>pp_aborted := True\<rparr> \<or>
     (\<exists>n. p' = p\<lparr>pp_gate := set_limit n (pp_gate p)\<rparr>)"

inductive pipe_step :: "'j pipe \<Rightarrow> 'j pipe \<Rightarrow> bool" where
  worker: "k < length (pp_workers p) \<Longrightarrow> worker_step k p = Some p' \<Longrightarrow> pipe_step p p'"
| other: "other_steps p p' \<Longrightarrow> pipe_step p p'"

abbreviation pipe_reach :: "nat \<Rightarrow> int \<Rightarrow> int \<Rightarrow> 'j pipe \<Rightarrow> bool" where
  "pipe_reach n mx initial p \<equiv> pipe_step\<^sup>*\<^sup>* (pipe_new n mx initial) p"

subsection \<open>The invariant\<close>

fun in_hand :: "'j worker_pos \<Rightarrow> 'j list" where
  "in_hand (Popped j) = [j]"
| "in_hand (At_gate j) = [j]"
| "in_hand (Copying j) = [j]"
| "in_hand _ = []"

fun copying :: "'j worker_pos \<Rightarrow> bool" where
  "copying (Copying j) \<longleftrightarrow> True"
| "copying _ \<longleftrightarrow> False"

definition hands :: "'j pipe \<Rightarrow> 'j multiset" where
  "hands p = mset (concat (map in_hand (pp_workers p)))"

definition pipe_ok :: "nat \<Rightarrow> int \<Rightarrow> 'j pipe \<Rightarrow> bool" where
  "pipe_ok n mx p \<longleftrightarrow>
     length (pp_workers p) = n \<and> gt_max (pp_gate p) = mx \<and> 1 \<le> gt_limit (pp_gate p) \<and> gt_limit (pp_gate p) \<le> mx \<and>
     gt_in_use (pp_gate p) = int (length (filter copying (pp_workers p))) \<and> gt_in_use (pp_gate p) \<le> mx \<and>
     mset (pp_pushed p) = mset (qu_items (pp_queue p)) + hands p + mset (pp_copied p) + mset (pp_dropped p) \<and>
     (pp_dropped p \<noteq> [] \<longrightarrow> pp_aborted p) \<and>
     (Ended \<in> set (pp_workers p) \<longrightarrow> qu_closed (pp_queue p) \<and> qu_items (pp_queue p) = [])"

lemma concat_update:
  "k < length xs \<Longrightarrow> mset (concat (map f (xs[k := y]))) + mset (f (xs ! k)) = mset (concat (map f xs)) + mset (f y)"
proof (induction xs arbitrary: k)
  case (Cons x xs)
  show ?case
  proof (cases k)
    case (Suc n)
    then show ?thesis using Cons.IH [of n] Cons.prems by (simp add: ac_simps)
  qed (simp add: ac_simps)
qed simp

lemma move_worker_simps [simp]:
  "pp_queue (move_worker k pos p) = pp_queue p" "pp_gate (move_worker k pos p) = pp_gate p"
  "pp_aborted (move_worker k pos p) = pp_aborted p" "pp_pushed (move_worker k pos p) = pp_pushed p"
  "pp_copied (move_worker k pos p) = pp_copied p" "pp_dropped (move_worker k pos p) = pp_dropped p"
  "length (pp_workers (move_worker k pos p)) = length (pp_workers p)"
  by (simp_all add: move_worker_def)

lemma move_worker_hands:
  "k < length (pp_workers p) \<Longrightarrow> hands (move_worker k pos p) + mset (in_hand (pp_workers p ! k)) = hands p + mset (in_hand pos)"
  by (simp add: hands_def move_worker_def concat_update)

lemma move_worker_copying:
  "k < length (pp_workers p) \<Longrightarrow> int (length (filter copying (pp_workers (move_worker k pos p)))) =
     int (length (filter copying (pp_workers p))) - (if copying (pp_workers p ! k) then 1 else 0) + (if copying pos then 1 else 0)"
  by (simp add: move_worker_def count_filter_update)

lemma move_worker_ended: "Ended \<in> set (pp_workers (move_worker k pos p)) \<Longrightarrow> Ended \<in> set (pp_workers p) \<or> pos = Ended"
  using set_update_subset_insert [of "pp_workers p" k pos] by (auto simp: move_worker_def)

lemma hands_frame [simp]:
  "hands (p\<lparr>pp_queue := q\<rparr>) = hands p" "hands (p\<lparr>pp_gate := g\<rparr>) = hands p" "hands (p\<lparr>pp_aborted := b\<rparr>) = hands p"
  "hands (p\<lparr>pp_pushed := js\<rparr>) = hands p" "hands (p\<lparr>pp_copied := js\<rparr>) = hands p" "hands (p\<lparr>pp_dropped := js\<rparr>) = hands p"
  by (simp_all add: hands_def)

lemma move_worker_ok:
  assumes k: "k < length (pp_workers p)"
    and "length (pp_workers p) = n" "gt_max (pp_gate p) = mx" "1 \<le> gt_limit (pp_gate p)" "gt_limit (pp_gate p) \<le> mx"
    and "gt_in_use (pp_gate p) = int (length (filter copying (pp_workers p))) - (if copying (pp_workers p ! k) then 1 else 0) +
      (if copying pos then 1 else 0)" "gt_in_use (pp_gate p) \<le> mx"
    and "mset (pp_pushed p) + mset (in_hand (pp_workers p ! k)) =
      mset (qu_items (pp_queue p)) + (hands p + mset (in_hand pos)) + mset (pp_copied p) + mset (pp_dropped p)"
    and "pp_dropped p \<noteq> [] \<longrightarrow> pp_aborted p"
    and "Ended \<in> set (pp_workers p) \<or> pos = Ended \<longrightarrow> qu_closed (pp_queue p) \<and> qu_items (pp_queue p) = []"
  shows "pipe_ok n mx (move_worker k pos p)"
proof -
  have "mset (pp_pushed p) + mset (in_hand (pp_workers p ! k)) =
      (mset (qu_items (pp_queue p)) + hands (move_worker k pos p) + mset (pp_copied p) + mset (pp_dropped p)) +
      mset (in_hand (pp_workers p ! k))"
    using assms(8) move_worker_hands [OF k, of pos] by (simp add: ac_simps)
  then have "mset (pp_pushed p) =
      mset (qu_items (pp_queue p)) + hands (move_worker k pos p) + mset (pp_copied p) + mset (pp_dropped p)" by simp
  then show ?thesis
    using assms(2-7,9,10) move_worker_copying [OF k, of pos] move_worker_ended [of k pos p] by (auto simp: pipe_ok_def)
qed

lemma pipe_okD:
  assumes "pipe_ok n mx p"
  shows "length (pp_workers p) = n" "gt_max (pp_gate p) = mx" "1 \<le> gt_limit (pp_gate p)" "gt_limit (pp_gate p) \<le> mx"
    "gt_in_use (pp_gate p) = int (length (filter copying (pp_workers p)))" "gt_in_use (pp_gate p) \<le> mx"
    "mset (pp_pushed p) = mset (qu_items (pp_queue p)) + hands p + mset (pp_copied p) + mset (pp_dropped p)"
    "pp_dropped p \<noteq> [] \<longrightarrow> pp_aborted p"
    "Ended \<in> set (pp_workers p) \<longrightarrow> qu_closed (pp_queue p) \<and> qu_items (pp_queue p) = []"
  using assms by (simp_all add: pipe_ok_def)

lemma worker_step_ok:
  assumes ok: "pipe_ok n mx p" and k: "k < length (pp_workers p)" and st: "worker_step k p = Some p'"
  shows "pipe_ok n mx p'"
proof (cases "pp_workers p ! k")
  case Popping
  note d = pipe_okD [OF ok]
  show ?thesis
  proof (cases "qu_items (pp_queue p)")
    case Nil
    then have "p' = move_worker k Ended p" "qu_closed (pp_queue p)"
      using st Popping by (simp_all add: worker_step_def queue_pop_def split: if_splits)
    then show ?thesis using d Nil Popping by (simp add: move_worker_ok [OF k])
  next
    case (Cons j js)
    then have p': "p' = move_worker k (Popped j) (p\<lparr>pp_queue := (pp_queue p)\<lparr>qu_items := js\<rparr>\<rparr>)"
      using st Popping by (simp add: worker_step_def queue_pop_def)
    show ?thesis unfolding p' by (rule move_worker_ok) (use d k Cons Popping in \<open>simp_all add: ac_simps\<close>)
  qed
next
  case (Popped j)
  then have p': "p' = (if pp_aborted p then move_worker k Popping (p\<lparr>pp_dropped := pp_dropped p @ [j]\<rparr>) else move_worker k (At_gate j) p)"
    using st by (simp add: worker_step_def)
  show ?thesis
  proof (cases "pp_aborted p")
    case True
    show ?thesis unfolding p' if_P [OF True]
      by (rule move_worker_ok) (use pipe_okD [OF ok] k Popped True in \<open>simp_all add: ac_simps\<close>)
  next
    case False
    show ?thesis unfolding p' if_not_P [OF False]
      by (rule move_worker_ok) (use pipe_okD [OF ok] k Popped in \<open>simp_all add: ac_simps\<close>)
  qed
next
  case (At_gate j)
  then have g: "gt_in_use (pp_gate p) < gt_limit (pp_gate p)"
    "p' = move_worker k (Copying j) (p\<lparr>pp_gate := (pp_gate p)\<lparr>gt_in_use := gt_in_use (pp_gate p) + 1\<rparr>\<rparr>)"
    using st by (auto simp: worker_step_def gate_acquire_def split: if_splits)
  show ?thesis unfolding g(2) by (rule move_worker_ok) (use pipe_okD [OF ok] k At_gate g(1) in \<open>simp_all add: ac_simps\<close>)
next
  case (Copying j)
  then have p': "p' = move_worker k Popping (p\<lparr>pp_gate := gate_release (pp_gate p), pp_copied := pp_copied p @ [j]\<rparr>)"
    using st by (simp add: worker_step_def)
  show ?thesis unfolding p'
    by (rule move_worker_ok) (use pipe_okD [OF ok] k Copying in \<open>simp_all add: ac_simps gate_release_def\<close>)
qed (use st in \<open>simp add: worker_step_def\<close>)

lemma other_steps_ok: "other_steps p p' \<Longrightarrow> pipe_ok n mx p \<Longrightarrow> pipe_ok n mx p'"
  by (auto simp: other_steps_def pipe_ok_def queue_push_def queue_close_def set_limit_def Let_def)

lemma pipe_new_ok: "pipe_ok n (max 1 mx) (pipe_new n mx initial)"
  by (simp add: pipe_ok_def pipe_new_def gate_new_def queue_new_def hands_def Let_def max_def)

lemma pipe_reach_ok: "pipe_reach n mx initial p \<Longrightarrow> pipe_ok n (max 1 mx) p"
proof (induction rule: rtranclp_induct)
  case base
  show ?case by (rule pipe_new_ok)
next
  case (step p p')
  from step.hyps(2) step.IH show ?case
    by (cases rule: pipe_step.cases) (auto intro: worker_step_ok other_steps_ok)
qed

subsection \<open>No worker is stuck once the walk has ended\<close>

text \<open>How many steps the workers can still make without another push.\<close>

fun steps_of :: "'j worker_pos \<Rightarrow> nat" where
  "steps_of (Popped j) = 4"
| "steps_of (At_gate j) = 3"
| "steps_of (Copying j) = 2"
| "steps_of Popping = 1"
| "steps_of Ended = 0"

definition work_left :: "'j pipe \<Rightarrow> nat" where
  "work_left p = 4 * length (qu_items (pp_queue p)) + sum_list (map steps_of (pp_workers p))"

lemma sum_list_move:
  "k < length ws \<Longrightarrow> sum_list (map f (ws[k := y])) + f (ws ! k) = sum_list (map f ws) + (f y :: nat)"
proof (induction ws arbitrary: k)
  case (Cons x ws)
  then show ?case by (cases k) (auto simp: ac_simps)
qed simp

lemma worker_step_works:
  assumes k: "k < length (pp_workers p)" and st: "worker_step k p = Some p'"
  shows "work_left p' < work_left p"
proof -
  have m: "work_left (move_worker k pos q) + steps_of (pp_workers q ! k) = work_left q + steps_of pos"
    if "k < length (pp_workers q)" for q :: "'a pipe" and pos
    using sum_list_move [OF that, of steps_of pos] by (simp add: work_left_def move_worker_def)
  have w: "work_left (q\<lparr>pp_gate := g\<rparr>) = work_left q" "work_left (q\<lparr>pp_copied := js\<rparr>) = work_left q"
    "work_left (q\<lparr>pp_dropped := js\<rparr>) = work_left q" for q :: "'a pipe" and g js
    by (simp_all add: work_left_def)
  show ?thesis
  proof (cases "pp_workers p ! k")
    case Popping
    show ?thesis
    proof (cases "qu_items (pp_queue p)")
      case Nil
      then show ?thesis using st Popping m [OF k, of Ended]
        by (simp add: worker_step_def queue_pop_def split: if_splits)
    next
      case (Cons j js)
      let ?q = "p\<lparr>pp_queue := (pp_queue p)\<lparr>qu_items := js\<rparr>\<rparr>"
      have "p' = move_worker k (Popped j) ?q" using st Popping Cons by (simp add: worker_step_def queue_pop_def)
      moreover have "work_left ?q + 4 = work_left p" using Cons by (simp add: work_left_def)
      ultimately show ?thesis using m [of ?q "Popped j"] k Popping by simp
    qed
  next
    case (Popped j)
    then show ?thesis using st m [of "p\<lparr>pp_dropped := pp_dropped p @ [j]\<rparr>" Popping] m [of p "At_gate j"] k w
      by (auto simp: worker_step_def split: if_splits)
  next
    case (At_gate j)
    then show ?thesis using st m [of "p\<lparr>pp_gate := (pp_gate p)\<lparr>gt_in_use := gt_in_use (pp_gate p) + 1\<rparr>\<rparr>" "Copying j"] k w
      by (auto simp: worker_step_def gate_acquire_def split: if_splits)
  next
    case (Copying j)
    then show ?thesis using st m [of "p\<lparr>pp_gate := gate_release (pp_gate p), pp_copied := pp_copied p @ [j]\<rparr>" Popping] k
      by (auto simp: worker_step_def work_left_def)
  qed (use st in \<open>simp add: worker_step_def\<close>)
qed

lemma worker_keeps_closed: "worker_step k p = Some p' \<Longrightarrow> qu_closed (pp_queue p) \<Longrightarrow> qu_closed (pp_queue p')"
  by (auto simp: worker_step_def queue_pop_def split: worker_pos.splits list.splits if_splits pass.splits)

lemma idle_gate_copies:
  assumes "pipe_ok n mx p" "\<not> gt_in_use (pp_gate p) < gt_limit (pp_gate p)"
  shows "\<exists>k < length (pp_workers p). copying (pp_workers p ! k)"
proof (rule ccontr)
  assume "\<not> ?thesis"
  then have "filter copying (pp_workers p) = []" by (auto simp: filter_empty_conv in_set_conv_nth)
  then show False using pipe_okD(3,5) [OF assms(1)] assms(2) by simp
qed

lemma some_worker_can_step:
  assumes ok: "pipe_ok n mx p" and cl: "qu_closed (pp_queue p)" and k: "k < length (pp_workers p)" "pp_workers p ! k \<noteq> Ended"
  shows "\<exists>k p'. k < length (pp_workers p) \<and> worker_step k p = Some p'"
proof (cases "gt_in_use (pp_gate p) < gt_limit (pp_gate p)")
  case True
  then have "worker_step k p \<noteq> None"
    using cl k(2) by (cases "pp_workers p ! k")
      (simp_all add: worker_step_def queue_pop_def gate_acquire_def split: list.splits)
  then show ?thesis using k(1) by blast
next
  case False
  then obtain i where i: "i < length (pp_workers p)" "copying (pp_workers p ! i)" using idle_gate_copies [OF ok] by blast
  then have "worker_step i p \<noteq> None" by (cases "pp_workers p ! i") (simp_all add: worker_step_def)
  then show ?thesis using i(1) by blast
qed

lemma all_ended_hands: "\<forall>w \<in> set (pp_workers p). w = Ended \<Longrightarrow> hands p = {#}"
proof -
  assume "\<forall>w \<in> set (pp_workers p). w = Ended"
  then have "concat (map in_hand (pp_workers p)) = []" by fastforce
  then show ?thesis by (simp add: hands_def)
qed

lemma all_ended_exact:
  assumes ok: "pipe_ok n mx p" and n: "0 < n" and all: "\<forall>w \<in> set (pp_workers p). w = Ended"
  shows "mset (pp_pushed p) = mset (pp_copied p) + mset (pp_dropped p)"
proof -
  have "Ended \<in> set (pp_workers p)" using all n pipe_okD(1) [OF ok] by (cases "pp_workers p") auto
  then show ?thesis using pipe_okD(7,9) [OF ok] all_ended_hands [OF all] by simp
qed

subsection \<open>What the pipeline promises\<close>

text \<open>C32: in every interleaving of the walk, the workers, the controller and an abort, each job that was pushed is
  at any time in exactly one place: in the queue, with one worker, copied or dropped. A job is dropped only after an abort. The
  gate counts exactly the workers that are copying, and they are never more than the maximum. When all workers
  have returned, each pushed job was copied or dropped, once for each time it was pushed, and without an abort the jobs
  copied are just the jobs pushed.\<close>

theorem pipeline_exactly_once:
  assumes "pipe_reach n mx initial p"
  shows "mset (pp_pushed p) = mset (qu_items (pp_queue p)) + hands p + mset (pp_copied p) + mset (pp_dropped p) \<and>
    (pp_dropped p \<noteq> [] \<longrightarrow> pp_aborted p) \<and>
    gt_in_use (pp_gate p) = int (length (filter copying (pp_workers p))) \<and> gt_in_use (pp_gate p) \<le> max 1 mx \<and>
    (0 < n \<and> (\<forall>w \<in> set (pp_workers p). w = Ended) \<longrightarrow>
      mset (pp_pushed p) = mset (pp_copied p) + mset (pp_dropped p) \<and>
      (\<not> pp_aborted p \<longrightarrow> mset (pp_pushed p) = mset (pp_copied p)))"
proof -
  have ok: "pipe_ok n (max 1 mx) p" by (rule pipe_reach_ok [OF assms])
  have "0 < n \<and> (\<forall>w \<in> set (pp_workers p). w = Ended) \<longrightarrow>
      mset (pp_pushed p) = mset (pp_copied p) + mset (pp_dropped p) \<and>
      (\<not> pp_aborted p \<longrightarrow> mset (pp_pushed p) = mset (pp_copied p))"
    using all_ended_exact [OF ok] pipe_okD(8) [OF ok] by auto
  then show ?thesis using pipe_okD [OF ok] by blast
qed

lemma worker_reach: "k < length (pp_workers p) \<Longrightarrow> worker_step k p = Some p' \<Longrightarrow> pipe_step\<^sup>*\<^sup>* q p \<Longrightarrow> pipe_step\<^sup>*\<^sup>* q p'"
  by (meson pipe_step.worker rtranclp.rtrancl_into_rtrancl)

lemma other_reach: "other_steps p p' \<Longrightarrow> pipe_step\<^sup>*\<^sup>* q p \<Longrightarrow> pipe_step\<^sup>*\<^sup>* q p'"
  by (meson pipe_step.other rtranclp.rtrancl_into_rtrancl)

text \<open>A run with one worker: the walk pushes the job 7 and closes the queue, the worker copies it and returns.\<close>

definition push_step :: "'j \<Rightarrow> 'j pipe \<Rightarrow> 'j pipe" where
  "push_step j p = p\<lparr>pp_queue := queue_push j (pp_queue p), pp_pushed := pp_pushed p @ [j]\<rparr>"

definition close_step :: "'j pipe \<Rightarrow> 'j pipe" where
  "close_step p = p\<lparr>pp_queue := queue_close (pp_queue p)\<rparr>"

definition filled_pipe :: "nat pipe" where
  "filled_pipe = close_step (push_step 7 (pipe_new 1 4 2))"

definition drained_pipe :: "nat pipe" where
  "drained_pipe = ((\<lambda>p. the (worker_step 0 p)) ^^ 5) filled_pipe"

lemma filled_reach: "pipe_reach 1 4 2 filled_pipe"
  unfolding filled_pipe_def
  by (rule other_reach [of "push_step 7 (pipe_new 1 4 2)"], force simp: other_steps_def close_step_def,
      rule other_reach [of "pipe_new 1 4 2"], auto simp: other_steps_def push_step_def pipe_new_def queue_new_def)

lemma drained_reach: "pipe_reach 1 4 2 drained_pipe"
proof -
  have d: "worker_step 0 (((\<lambda>p. the (worker_step 0 p)) ^^ i) filled_pipe) =
      Some (((\<lambda>p. the (worker_step 0 p)) ^^ Suc i) filled_pipe) \<and>
      length (pp_workers (((\<lambda>p. the (worker_step 0 p)) ^^ i) filled_pipe)) = 1" if "i < 5" for i
  proof -
    consider "i = 0" | "i = 1" | "i = 2" | "i = 3" | "i = 4" using \<open>i < 5\<close> by linarith
    then show ?thesis by cases (hypsubst, code_simp)+
  qed
  have "i \<le> 5 \<Longrightarrow> pipe_reach 1 4 2 (((\<lambda>p. the (worker_step 0 p)) ^^ i) filled_pipe)" for i
  proof (induction i)
    case 0
    show ?case using filled_reach by simp
  next
    case (Suc i)
    from Suc have i: "i < 5" and r: "pipe_reach 1 4 2 (((\<lambda>p. the (worker_step 0 p)) ^^ i) filled_pipe)" by simp_all
    have "0 < length (pp_workers (((\<lambda>p. the (worker_step 0 p)) ^^ i) filled_pipe))" using d [OF i] by simp
    from worker_reach [OF this conjunct1 [OF d [OF i]] r] show ?case .
  qed
  then show ?thesis by (simp add: drained_pipe_def)
qed

theorem pipeline_exactly_once_witness:
  "pp_workers drained_pipe = [Ended] \<and> pp_copied drained_pipe = [7] \<and>
   mset (pp_pushed drained_pipe) = mset (pp_copied drained_pipe)"
proof -
  have "pp_workers drained_pipe = [Ended]" "pp_copied drained_pipe = [7]" "\<not> pp_aborted drained_pipe"
    by code_simp+
  then show ?thesis using pipeline_exactly_once [OF drained_reach] by simp
qed

text \<open>C33: once the walk has closed the queue, the workers drain it in every schedule: as long as one has not returned, one of them can go on,
  whatever limit the controller has set, and each step of a worker lowers the work left, which nobody else raises any
  more (a walk that has closed the queue pushes nothing). So after at most \<open>work_left\<close> of their steps all have returned.\<close>

theorem pipeline_drains:
  assumes "pipe_reach n mx initial p" and cl: "qu_closed (pp_queue p)"
  shows "((\<exists>w \<in> set (pp_workers p). w \<noteq> Ended) \<longrightarrow> (\<exists>k < length (pp_workers p). worker_step k p \<noteq> None)) \<and>
    (\<forall>k < length (pp_workers p). \<forall>p'. worker_step k p = Some p' \<longrightarrow> work_left p' < work_left p \<and> qu_closed (pp_queue p')) \<and>
    (\<forall>p'. other_steps p p' \<longrightarrow> work_left p' = work_left p \<and> qu_closed (pp_queue p'))"
proof (intro conjI)
  have ok: "pipe_ok n (max 1 mx) p" by (rule pipe_reach_ok [OF assms(1)])
  show "(\<exists>w \<in> set (pp_workers p). w \<noteq> Ended) \<longrightarrow> (\<exists>k < length (pp_workers p). worker_step k p \<noteq> None)"
    using some_worker_can_step [OF ok cl] by (metis in_set_conv_nth option.distinct(1))
  show "\<forall>k < length (pp_workers p). \<forall>p'. worker_step k p = Some p' \<longrightarrow> work_left p' < work_left p \<and> qu_closed (pp_queue p')"
    using worker_step_works worker_keeps_closed [OF _ cl] by blast
  show "\<forall>p'. other_steps p p' \<longrightarrow> work_left p' = work_left p \<and> qu_closed (pp_queue p')"
    using cl by (auto simp: other_steps_def work_left_def queue_close_def)
qed

theorem pipeline_drains_witness:
  "\<exists>k < length (pp_workers filled_pipe). worker_step k filled_pipe \<noteq> None"
proof -
  have "qu_closed (pp_queue filled_pipe)" "\<exists>w \<in> set (pp_workers filled_pipe). w \<noteq> Ended" by code_simp+
  then show ?thesis using pipeline_drains [OF filled_reach] by blast
qed

end
