(* ===== verification/Joins.thy ===== *)
theory Joins
  imports Pipeline
begin

text \<open>
  How \<open>Run\<close> of internal/engine/engine.go brings its goroutines together: the walk, then \<open>jobs.close\<close> and \<open>wg.Wait\<close> for
  the copy workers, the hard links, then \<open>metaJobs.close\<close> and \<open>metaWg.Wait\<close> for the metadata workers of dirmeta.go. The copy
  workers, the gate and the controller are those of Pipeline. A directory is pushed by the walk, by a copy worker that is not through, or by the
  pass over the hard links; that this happens once for each is the matter of DirRace.
\<close>

subsection \<open>States and steps\<close>

datatype 'd meta_pos = Awaiting | Applying 'd | Through

text \<open>The main goroutine: in the walk; in \<open>wg.Wait\<close>; in \<open>applyHardlinks\<close>; in \<open>metaWg.Wait\<close>; in the passes after it.\<close>

datatype main_pos = Walks | Joins_workers | Links | Joins_meta | Tail

record ('j, 'd) joint =
  jn_pipe :: "'j pipe"
  jn_meta :: "'d queue"
  jn_workers :: "'d meta_pos list"
  jn_main :: main_pos
  jn_pushed :: "'d list"
  jn_applied :: "'d list"

definition joint_new :: "nat \<Rightarrow> int \<Rightarrow> int \<Rightarrow> nat \<Rightarrow> ('j, 'd) joint" where
  "joint_new n mx initial m =
     \<lparr>jn_pipe = pipe_new n mx initial, jn_meta = queue_new, jn_workers = replicate m Awaiting, jn_main = Walks,
      jn_pushed = [], jn_applied = []\<rparr>"

definition copies_done :: "('j, 'd) joint \<Rightarrow> bool" where
  "copies_done s \<longleftrightarrow> list_all (\<lambda>w. w = Ended) (pp_workers (jn_pipe s))"

definition meta_done :: "('j, 'd) joint \<Rightarrow> bool" where
  "meta_done s \<longleftrightarrow> list_all (\<lambda>w. w = Through) (jn_workers s)"

text \<open>The main goroutine; \<open>None\<close> while it waits, and when it has gone on to the last passes.\<close>

definition main_step :: "('j, 'd) joint \<Rightarrow> ('j, 'd) joint option" where
  "main_step s =
     (case jn_main s of
        Walks \<Rightarrow> Some (s\<lparr>jn_pipe := (jn_pipe s)\<lparr>pp_queue := queue_close (pp_queue (jn_pipe s))\<rparr>, jn_main := Joins_workers\<rparr>)
      | Joins_workers \<Rightarrow> if copies_done s then Some (s\<lparr>jn_main := Links\<rparr>) else None
      | Links \<Rightarrow> Some (s\<lparr>jn_meta := queue_close (jn_meta s), jn_main := Joins_meta\<rparr>)
      | Joins_meta \<Rightarrow> if meta_done s then Some (s\<lparr>jn_main := Tail\<rparr>) else None
      | Tail \<Rightarrow> None)"

definition walk_push :: "'j \<Rightarrow> ('j, 'd) joint \<Rightarrow> ('j, 'd) joint" where
  "walk_push j s =
     s\<lparr>jn_pipe := (jn_pipe s)\<lparr>pp_queue := queue_push j (pp_queue (jn_pipe s)), pp_pushed := pp_pushed (jn_pipe s) @ [j]\<rparr>\<rparr>"

definition meta_push :: "'d \<Rightarrow> ('j, 'd) joint \<Rightarrow> ('j, 'd) joint" where
  "meta_push d s = s\<lparr>jn_meta := queue_push d (jn_meta s), jn_pushed := jn_pushed s @ [d]\<rparr>"

text \<open>\<open>metadataWorker\<close> number \<open>k\<close>.\<close>

definition metadataWorker :: "nat \<Rightarrow> ('j, 'd) joint \<Rightarrow> ('j, 'd) joint option" where
  "metadataWorker k s =
     (case jn_workers s ! k of
        Awaiting \<Rightarrow>
          (case queue_pop (jn_meta s) of
             None \<Rightarrow> None
           | Some (None, q) \<Rightarrow> Some (s\<lparr>jn_meta := q, jn_workers := (jn_workers s)[k := Through]\<rparr>)
           | Some (Some d, q) \<Rightarrow> Some (s\<lparr>jn_meta := q, jn_workers := (jn_workers s)[k := Applying d]\<rparr>))
      | Applying d \<Rightarrow> Some (s\<lparr>jn_applied := jn_applied s @ [d], jn_workers := (jn_workers s)[k := Awaiting]\<rparr>)
      | Through \<Rightarrow> None)"

text \<open>Who may push a directory: the main goroutine in the walk or over the links, and a copy worker that is not through.\<close>

definition may_push_dir :: "('j, 'd) joint \<Rightarrow> bool" where
  "may_push_dir s \<longleftrightarrow> jn_main s = Walks \<or> jn_main s = Links \<or> \<not> copies_done s"

inductive joint_step :: "('j, 'd) joint \<Rightarrow> ('j, 'd) joint \<Rightarrow> bool" where
  walks: "jn_main s = Walks \<Longrightarrow> joint_step s (walk_push j s)"
| mains: "main_step s = Some s' \<Longrightarrow> joint_step s s'"
| copies: "k < length (pp_workers (jn_pipe s)) \<Longrightarrow> worker_step k (jn_pipe s) = Some p \<Longrightarrow> joint_step s (s\<lparr>jn_pipe := p\<rparr>)"
| aborts: "joint_step s (s\<lparr>jn_pipe := (jn_pipe s)\<lparr>pp_aborted := True\<rparr>\<rparr>)"
| limits: "joint_step s (s\<lparr>jn_pipe := (jn_pipe s)\<lparr>pp_gate := set_limit w (pp_gate (jn_pipe s))\<rparr>\<rparr>)"
| pushes: "may_push_dir s \<Longrightarrow> joint_step s (meta_push d s)"
| applies: "k < length (jn_workers s) \<Longrightarrow> metadataWorker k s = Some s' \<Longrightarrow> joint_step s s'"

abbreviation joint_reach :: "nat \<Rightarrow> int \<Rightarrow> int \<Rightarrow> nat \<Rightarrow> ('j, 'd) joint \<Rightarrow> bool" where
  "joint_reach n mx initial m s \<equiv> joint_step\<^sup>*\<^sup>* (joint_new n mx initial m) s"

subsection \<open>The invariant\<close>

fun applying :: "'d meta_pos \<Rightarrow> 'd list" where
  "applying (Applying d) = [d]"
| "applying _ = []"

definition in_work :: "('j, 'd) joint \<Rightarrow> 'd multiset" where
  "in_work s = mset (concat (map applying (jn_workers s)))"

definition meta_ok :: "nat \<Rightarrow> ('j, 'd) joint \<Rightarrow> bool" where
  "meta_ok m s \<longleftrightarrow> length (jn_workers s) = m \<and>
     mset (jn_pushed s) = mset (qu_items (jn_meta s)) + in_work s + mset (jn_applied s) \<and>
     (qu_closed (jn_meta s) \<longleftrightarrow> jn_main s \<in> {Joins_meta, Tail}) \<and>
     (Through \<in> set (jn_workers s) \<longrightarrow> qu_closed (jn_meta s) \<and> qu_items (jn_meta s) = [])"

definition main_ok :: "('j, 'd) joint \<Rightarrow> bool" where
  "main_ok s \<longleftrightarrow> (qu_closed (pp_queue (jn_pipe s)) \<longleftrightarrow> jn_main s \<noteq> Walks) \<and>
     (jn_main s \<in> {Links, Joins_meta, Tail} \<longrightarrow> copies_done s) \<and> (jn_main s = Tail \<longrightarrow> meta_done s)"

definition joint_ok :: "nat \<Rightarrow> int \<Rightarrow> nat \<Rightarrow> ('j, 'd) joint \<Rightarrow> bool" where
  "joint_ok n mx m s \<longleftrightarrow> pipe_ok n mx (jn_pipe s) \<and> meta_ok m s \<and> main_ok s"

text \<open>A copy worker that has returned makes no step, and a step of another does not change the queue's end.\<close>

lemma worker_step_closed: "worker_step k p = Some p' \<Longrightarrow> qu_closed (pp_queue p') = qu_closed (pp_queue p)"
  by (auto simp: worker_step_def queue_pop_def split: worker_pos.splits list.splits if_splits pass.splits)

lemma worker_step_not_ended:
  "worker_step k p = Some p' \<Longrightarrow> k < length (pp_workers p) \<Longrightarrow> \<not> list_all (\<lambda>w. w = Ended) (pp_workers p)"
  by (auto simp: worker_step_def list_all_length split: worker_pos.splits)

lemma meta_worker_ok:
  assumes "meta_ok m s" and k: "k < length (jn_workers s)" and st: "metadataWorker k s = Some s'"
  shows "meta_ok m s' \<and> jn_pipe s' = jn_pipe s \<and> jn_main s' = jn_main s \<and> \<not> meta_done s"
proof -
  have u: "mset (concat (map applying ((jn_workers s)[k := w]))) + mset (applying (jn_workers s ! k)) =
      in_work s + mset (applying w)" for w
    using concat_update [OF k, of applying w] by (simp add: in_work_def)
  have e: "Through \<in> set ((jn_workers s)[k := w]) \<Longrightarrow> Through \<in> set (jn_workers s) \<or> w = Through" for w
    using set_update_subset_insert [of "jn_workers s" k w] by auto
  have nd: "jn_workers s ! k \<noteq> Through \<Longrightarrow> \<not> meta_done s" using k by (auto simp: meta_done_def list_all_length)
  show ?thesis
  proof (cases "jn_workers s ! k")
    case Awaiting
    show ?thesis
    proof (cases "qu_items (jn_meta s)")
      case Nil
      then show ?thesis using st Awaiting assms(1) nd u [of Through]
        by (auto simp: in_work_def metadataWorker_def queue_pop_def meta_ok_def split: if_splits)
    next
      case (Cons d ds)
      then show ?thesis using st Awaiting assms(1) nd e [of "Applying d"] u [of "Applying d"]
        by (auto simp: in_work_def metadataWorker_def queue_pop_def meta_ok_def)
    qed
  next
    case (Applying d)
    then show ?thesis using st assms(1) nd e [of Awaiting] u [of Awaiting]
      by (auto simp: in_work_def metadataWorker_def meta_ok_def)
  qed (use st in \<open>simp add: metadataWorker_def\<close>)
qed

lemma meta_ok_pipe [simp]: "meta_ok m (s\<lparr>jn_pipe := p\<rparr>) = meta_ok m s"
  by (simp add: meta_ok_def in_work_def)

lemma pipe_change_ok:
  assumes "joint_ok n mx m s" and "pipe_ok n mx p" and "pp_workers p = pp_workers (jn_pipe s)"
    and "qu_closed (pp_queue p) = qu_closed (pp_queue (jn_pipe s))"
  shows "joint_ok n mx m (s\<lparr>jn_pipe := p\<rparr>)"
  using assms by (simp add: joint_ok_def main_ok_def copies_done_def meta_done_def)

lemma joint_step_ok: "joint_step s s' \<Longrightarrow> joint_ok n mx m s \<Longrightarrow> joint_ok n mx m s'"
proof (induction rule: joint_step.induct)
  case (walks s j)
  have "pipe_ok n mx (jn_pipe (walk_push j s))"
    by (rule other_steps_ok [of "jn_pipe s"]) (use walks in \<open>auto simp: joint_ok_def main_ok_def other_steps_def walk_push_def\<close>)
  then show ?case using walks
    by (auto simp: joint_ok_def meta_ok_def main_ok_def walk_push_def in_work_def copies_done_def meta_done_def queue_push_def)
next
  case (mains s s')
  have c: "pipe_ok n mx ((jn_pipe s)\<lparr>pp_queue := queue_close (pp_queue (jn_pipe s))\<rparr>)"
    by (rule other_steps_ok [of "jn_pipe s"]) (use mains in \<open>auto simp: joint_ok_def other_steps_def\<close>)
  show ?case
  proof (cases "jn_main s")
    case Walks
    then show ?thesis using mains c
      by (auto simp: main_step_def joint_ok_def meta_ok_def main_ok_def in_work_def queue_close_def)
  next
    case Links
    then show ?thesis using mains
      by (auto simp: main_step_def joint_ok_def meta_ok_def main_ok_def in_work_def queue_close_def copies_done_def)
  qed (use mains in \<open>auto simp: main_step_def joint_ok_def meta_ok_def main_ok_def in_work_def copies_done_def meta_done_def
      split: if_splits\<close>)
next
  case (copies k s p)
  have "pipe_ok n mx p" using worker_step_ok copies by (auto simp: joint_ok_def)
  moreover have "\<not> copies_done s" using worker_step_not_ended [OF copies(2,1)] by (simp add: copies_done_def)
  ultimately show ?case using copies worker_step_closed [OF copies(2)]
    by (auto simp: joint_ok_def meta_ok_def main_ok_def in_work_def meta_done_def)
next
  case (aborts s)
  have "pipe_ok n mx ((jn_pipe s)\<lparr>pp_aborted := True\<rparr>)"
    by (rule other_steps_ok [of "jn_pipe s"]) (use aborts in \<open>auto simp: joint_ok_def other_steps_def\<close>)
  then show ?case using pipe_change_ok [OF aborts] by simp
next
  case (limits s w)
  have "pipe_ok n mx ((jn_pipe s)\<lparr>pp_gate := set_limit w (pp_gate (jn_pipe s))\<rparr>)"
    by (rule other_steps_ok [of "jn_pipe s"]) (use limits in \<open>auto simp: joint_ok_def other_steps_def\<close>)
  then show ?case using pipe_change_ok [OF limits] by simp
next
  case (pushes s d)
  then show ?case
    by (auto simp: may_push_dir_def joint_ok_def meta_ok_def main_ok_def in_work_def copies_done_def meta_done_def
        meta_push_def queue_push_def)
next
  case (applies k s s')
  have "meta_ok m s' \<and> jn_pipe s' = jn_pipe s \<and> jn_main s' = jn_main s \<and> \<not> meta_done s"
    using meta_worker_ok applies by (auto simp: joint_ok_def)
  then show ?case using applies(3) by (simp add: joint_ok_def main_ok_def copies_done_def)
qed

lemma joint_reach_ok: "joint_reach n mx initial m s \<Longrightarrow> joint_ok n (max 1 mx) m s"
proof (induction rule: rtranclp_induct)
  case base
  have "pipe_ok n (max 1 mx) (pipe_new n mx initial)" by (rule pipe_new_ok)
  then show ?case
    by (auto simp: joint_ok_def joint_new_def meta_ok_def main_ok_def in_work_def queue_new_def pipe_new_def)
next
  case (step s s')
  then show ?case using joint_step_ok by blast
qed

subsection \<open>Schedules\<close>

text \<open>A schedule names who moves; \<open>None\<close> if one of them could not.\<close>

datatype ('j, 'd) move = Walk_job 'j | Push_dir 'd | Main | Copier nat | Applier nat

fun make_move :: "('j, 'd) move \<Rightarrow> ('j, 'd) joint \<Rightarrow> ('j, 'd) joint option" where
  "make_move (Walk_job j) s = (if jn_main s = Walks then Some (walk_push j s) else None)"
| "make_move (Push_dir d) s = (if may_push_dir s then Some (meta_push d s) else None)"
| "make_move Main s = main_step s"
| "make_move (Copier k) s =
     (if k < length (pp_workers (jn_pipe s)) then map_option (\<lambda>p. s\<lparr>jn_pipe := p\<rparr>) (worker_step k (jn_pipe s)) else None)"
| "make_move (Applier k) s = (if k < length (jn_workers s) then metadataWorker k s else None)"

fun make_moves :: "('j, 'd) move list \<Rightarrow> ('j, 'd) joint \<Rightarrow> ('j, 'd) joint option" where
  "make_moves [] s = Some s"
| "make_moves (x # xs) s = (case make_move x s of None \<Rightarrow> None | Some s \<Rightarrow> make_moves xs s)"

lemma make_move_step: "make_move x s = Some s' \<Longrightarrow> joint_step s s'"
  by (cases x) (auto split: if_splits intro: joint_step.intros)

lemma make_moves_reach: "make_moves xs s = Some s' \<Longrightarrow> joint_step\<^sup>*\<^sup>* s s'"
proof (induction xs arbitrary: s)
  case (Cons x xs)
  then obtain t where "make_move x s = Some t" "make_moves xs t = Some s'" by (auto split: option.splits)
  then show ?case using make_move_step Cons.IH by (meson converse_rtranclp_into_rtranclp)
qed simp

text \<open>One worker of each kind; a job and the directory it is in. In the second the main goroutine waits for the copy.\<close>

definition whole_run :: "(nat, nat) move list" where
  "whole_run = [Walk_job 7, Main, Copier 0, Copier 0, Copier 0, Push_dir 5, Copier 0, Copier 0, Main, Main,
     Applier 0, Applier 0, Applier 0, Main]"

definition joined :: "(nat, nat) joint" where
  "joined = the (make_moves whole_run (joint_new 1 4 2 1))"

definition waiting :: "(nat, nat) joint" where
  "waiting = the (make_moves (take 3 whole_run) (joint_new 1 4 2 1))"

lemmas schedule_defs = whole_run_def joint_new_def pipe_new_def gate_new_def queue_new_def walk_push_def meta_push_def
  main_step_def worker_step_def metadataWorker_def queue_push_def queue_pop_def queue_close_def gate_acquire_def
  gate_release_def move_worker_def may_push_dir_def copies_done_def meta_done_def

lemma joined_is:
  "make_moves whole_run (joint_new 1 4 2 1) = Some joined" "jn_main joined = Tail" "jn_pushed joined = [5]"
  by (simp_all add: joined_def schedule_defs)

lemma waiting_is:
  "make_moves (take 3 whole_run) (joint_new 1 4 2 1) = Some waiting" "jn_main waiting = Joins_workers" "main_step waiting = None"
  by (simp_all add: waiting_def schedule_defs)

subsection \<open>What the joins guarantee\<close>

text \<open>C39: the joins of a run lose no copy and no directory. In every interleaving a directory is pushed only while the metadata queue is
  open, so none is left behind; each push is in the queue, with a worker, or applied. When \<open>Run\<close> has passed
  both joins, every job pushed was copied or dropped and the metadata applied is exactly that of the directories pushed.\<close>

theorem joins_complete:
  assumes "joint_reach n mx initial m s"
  shows "mset (jn_pushed s) = mset (qu_items (jn_meta s)) + in_work s + mset (jn_applied s) \<and>
    (may_push_dir s \<longrightarrow> \<not> qu_closed (jn_meta s)) \<and>
    (0 < n \<and> 0 < m \<and> jn_main s = Tail \<longrightarrow> mset (jn_applied s) = mset (jn_pushed s) \<and>
      mset (pp_pushed (jn_pipe s)) = mset (pp_copied (jn_pipe s)) + mset (pp_dropped (jn_pipe s)))"
proof (intro conjI impI)
  have ok: "pipe_ok n (max 1 mx) (jn_pipe s)" "meta_ok m s" "main_ok s"
    using joint_reach_ok [OF assms] by (simp_all add: joint_ok_def)
  show ms: "mset (jn_pushed s) = mset (qu_items (jn_meta s)) + in_work s + mset (jn_applied s)"
    using ok(2) by (simp add: meta_ok_def)
  show "\<not> qu_closed (jn_meta s)" if "may_push_dir s"
    using that ok(2,3) by (auto simp: may_push_dir_def meta_ok_def main_ok_def)
  assume t: "0 < n \<and> 0 < m \<and> jn_main s = Tail"
  then have c: "list_all (\<lambda>w. w = Ended) (pp_workers (jn_pipe s))" and d: "list_all (\<lambda>w. w = Through) (jn_workers s)"
    using ok(3) by (simp_all add: main_ok_def copies_done_def meta_done_def)
  have "Through \<in> set (jn_workers s)" using d t ok(2) by (cases "jn_workers s") (auto simp: meta_ok_def)
  then have "qu_items (jn_meta s) = []" using ok(2) by (simp add: meta_ok_def)
  moreover have "in_work s = {#}"
  proof -
    have "concat (map applying (jn_workers s)) = []" using d by (fastforce simp: list_all_iff)
    then show ?thesis by (simp add: in_work_def)
  qed
  ultimately show "mset (jn_applied s) = mset (jn_pushed s)" using ms by simp
  show "mset (pp_pushed (jn_pipe s)) = mset (pp_copied (jn_pipe s)) + mset (pp_dropped (jn_pipe s))"
    using all_ended_exact [OF ok(1)] t c by (simp add: list_all_iff)
qed

theorem joins_complete_witness: "jn_main joined = Tail \<and> mset (jn_applied joined) = {#5#}"
proof -
  have "(0::nat) < 1 \<and> (0::nat) < 1 \<and> jn_main joined = Tail \<longrightarrow> mset (jn_applied joined) = mset (jn_pushed joined)"
    using joins_complete [OF make_moves_reach [OF joined_is(1)]] by blast
  then show ?thesis using joined_is(2,3) by simp
qed

lemma some_meta_worker_can_step:
  assumes "qu_closed (jn_meta s)" and "\<not> meta_done s"
  shows "\<exists>k < length (jn_workers s). metadataWorker k s \<noteq> None"
proof -
  obtain k where k: "k < length (jn_workers s)" "jn_workers s ! k \<noteq> Through"
    using assms(2) by (auto simp: meta_done_def list_all_length)
  then have "metadataWorker k s \<noteq> None" using assms(1)
    by (cases "jn_workers s ! k") (simp_all add: metadataWorker_def queue_pop_def split: list.split)
  then show ?thesis using k(1) by blast
qed

text \<open>\<open>Run\<close> is not stuck at a join. While it waits for workers, one of those it waits for has a step.\<close>

lemma joins_not_stuck:
  assumes "joint_reach n mx initial m s" and "main_step s = None" and "jn_main s \<noteq> Tail"
  shows "(jn_main s = Joins_workers \<and> (\<exists>k < length (pp_workers (jn_pipe s)). worker_step k (jn_pipe s) \<noteq> None)) \<or>
    (jn_main s = Joins_meta \<and> (\<exists>k < length (jn_workers s). metadataWorker k s \<noteq> None))"
proof -
  have ok: "pipe_ok n (max 1 mx) (jn_pipe s)" "meta_ok m s" "main_ok s"
    using joint_reach_ok [OF assms(1)] by (simp_all add: joint_ok_def)
  consider (w) "jn_main s = Joins_workers" "\<not> copies_done s" | (m) "jn_main s = Joins_meta" "\<not> meta_done s"
    using assms(2,3) by (cases "jn_main s") (auto simp: main_step_def split: if_splits)
  then show ?thesis
  proof cases
    case w
    then obtain k where "k < length (pp_workers (jn_pipe s))" "pp_workers (jn_pipe s) ! k \<noteq> Ended"
      by (auto simp: copies_done_def list_all_length)
    moreover have "qu_closed (pp_queue (jn_pipe s))" using w ok(3) by (simp add: main_ok_def)
    ultimately show ?thesis using w(1) some_worker_can_step [OF ok(1)] by (metis option.distinct(1))
  next
    case m
    then have "qu_closed (jn_meta s)" using ok(2) by (simp add: meta_ok_def)
    then show ?thesis using m some_meta_worker_can_step by blast
  qed
qed

theorem joins_not_stuck_witness:
  "main_step waiting = None \<and> (\<exists>k < length (pp_workers (jn_pipe waiting)). worker_step k (jn_pipe waiting) \<noteq> None)"
proof -
  show ?thesis using waiting_is(2,3) joins_not_stuck [OF make_moves_reach [OF waiting_is(1)]] by simp
qed

end
