(* ===== verification/Ssh.thy ===== *)
theory Ssh
  imports Prelude
begin

text \<open>
  The ssh child processes (internal/vfs/ssh.go), the terminal's Ctrl-C (internal/interrupt) and the goroutine of
  cmd/basicopy/main.go that waits for signals. A process and a connection are told apart by the position of the
  child in a list. A step is one operation of a goroutine on what the goroutines share; the terminal, a signal from outside and
  a child that ends by itself are steps too. Of os/signal the model takes what its documentation says: a signal is ignored,
  sent to a channel without blocking, or ends the process; of \<open>exec\<close> that a child inherits an ignored signal.
\<close>

subsection \<open>Children and their holders\<close>

text \<open>A process runs, has ended, or has been waited for.\<close>

datatype life = Alive | Dead | Reaped

text \<open>Where the goroutine is that holds the process: between \<open>cmd.Start\<close> and \<open>track\<close>; with an open transport; in its \<open>Close\<close> after
  stdin is closed, after the kill, after \<open><-done\<close>; through with it.\<close>

datatype holder = Starting | Open | Closing | Overdue | Waited | Closed

instantiation life :: linorder
begin

fun life_rank :: "life \<Rightarrow> nat" where
  "life_rank Alive = 0"
| "life_rank Dead = 1"
| "life_rank Reaped = 2"

definition less_eq_life :: "life \<Rightarrow> life \<Rightarrow> bool" where
  "less_eq_life a b \<longleftrightarrow> life_rank a \<le> life_rank b"

definition less_life :: "life \<Rightarrow> life \<Rightarrow> bool" where
  "less_life a b \<longleftrightarrow> life_rank a < life_rank b"

instance
proof
  fix a b :: life
  show "a \<le> b \<Longrightarrow> b \<le> a \<Longrightarrow> a = b" by (cases a; cases b) (simp_all add: less_eq_life_def)
qed (auto simp: less_eq_life_def less_life_def)

end

instantiation holder :: linorder
begin

fun holder_rank :: "holder \<Rightarrow> nat" where
  "holder_rank Starting = 0"
| "holder_rank Open = 1"
| "holder_rank Closing = 2"
| "holder_rank Overdue = 3"
| "holder_rank Waited = 4"
| "holder_rank Closed = 5"

definition less_eq_holder :: "holder \<Rightarrow> holder \<Rightarrow> bool" where
  "less_eq_holder a b \<longleftrightarrow> holder_rank a \<le> holder_rank b"

definition less_holder :: "holder \<Rightarrow> holder \<Rightarrow> bool" where
  "less_holder a b \<longleftrightarrow> holder_rank a < holder_rank b"

instance
proof
  fix a b :: holder
  show "a \<le> b \<Longrightarrow> b \<le> a \<Longrightarrow> a = b" by (cases a; cases b) (simp_all add: less_eq_holder_def)
qed (auto simp: less_eq_holder_def less_holder_def)

end


record child =
  sc_life :: life
  sc_ignores_int :: bool
  sc_stdin :: bool
  sc_pos :: holder

subsection \<open>The state\<close>

datatype signal = SIGINT | SIGTERM

datatype disposition = By_default | Ignored | Notified

text \<open>The mutex of package interrupt as \<open>Shield\<close> holds it: free; before \<open>start\<close>; after \<open>start\<close>, with the child it started.\<close>

datatype shield = Free | Held | Restoring "nat option"

text \<open>The goroutine of main: before each of its statements.\<close>

datatype watch_pos = Await_first | Cancels | Await_second | Kills | Exits

datatype ending = Exited int | Killed_by signal

text \<open>The last field counts the signals that arrived while the program had asked for them and did not ignore them; it is not read.\<close>

record session =
  ss_children :: "child list"
  ss_procs :: "nat set"
  ss_disp :: "signal \<Rightarrow> disposition"
  ss_notified :: bool
  ss_shield :: shield
  ss_sigs :: "signal list"
  ss_watch :: watch_pos
  ss_canceled :: bool
  ss_end :: "ending option"
  ss_wanted :: nat

text \<open>At the start of \<open>main\<close>, before \<open>Notify\<close>.\<close>

definition session_new :: session where
  "session_new = \<lparr>ss_children = [], ss_procs = {}, ss_disp = (\<lambda>_. By_default), ss_notified = False, ss_shield = Free,
     ss_sigs = [], ss_watch = Await_first, ss_canceled = False, ss_end = None, ss_wanted = 0\<rparr>"

definition upd_child :: "nat \<Rightarrow> (child \<Rightarrow> child) \<Rightarrow> session \<Rightarrow> session" where
  "upd_child k g s = s\<lparr>ss_children := (ss_children s)[k := g (ss_children s ! k)]\<rparr>"

definition set_pos :: "holder \<Rightarrow> child \<Rightarrow> child" where
  "set_pos p c = c\<lparr>sc_pos := p\<rparr>"

text \<open>\<open>Process.Kill\<close>: nothing happens to a process that has ended.\<close>

definition killed :: "child \<Rightarrow> child" where
  "killed c = (if sc_life c = Alive then c\<lparr>sc_life := Dead\<rparr> else c)"

subsection \<open>Package interrupt\<close>

definition notify :: "session \<Rightarrow> session" where
  "notify s = s\<lparr>ss_notified := True, ss_disp := (\<lambda>_. Notified)\<rparr>"

definition shield_begin :: "session \<Rightarrow> session" where
  "shield_begin s = s\<lparr>ss_shield := Held, ss_disp := (ss_disp s)(SIGINT := Ignored)\<rparr>"

definition shield_end :: "session \<Rightarrow> session" where
  "shield_end s =
     s\<lparr>ss_shield := Free, ss_disp := (ss_disp s)(SIGINT := if ss_notified s then Notified else By_default)\<rparr>"

subsection \<open>Starting and closing a transport\<close>

text \<open>\<open>cmd.Start\<close> inside \<open>Shield\<close>.\<close>

definition new_child :: "session \<Rightarrow> child" where
  "new_child s = \<lparr>sc_life = Alive, sc_ignores_int = (ss_disp s SIGINT = Ignored), sc_stdin = True, sc_pos = Starting\<rparr>"

definition cmd_start :: "bool \<Rightarrow> session \<Rightarrow> session" where
  "cmd_start ok s =
     (if ok then s\<lparr>ss_children := ss_children s @ [new_child s], ss_shield := Restoring (Some (length (ss_children s)))\<rparr>
      else s\<lparr>ss_shield := Restoring None\<rparr>)"

definition track :: "nat \<Rightarrow> session \<Rightarrow> session" where
  "track k s = upd_child k (set_pos Open) (s\<lparr>ss_procs := insert k (ss_procs s)\<rparr>)"

definition untrack :: "nat \<Rightarrow> session \<Rightarrow> session" where
  "untrack k s = upd_child k (set_pos Closed) (s\<lparr>ss_procs := ss_procs s - {k}\<rparr>)"

text \<open>The statements of the transport's \<open>Close\<close>: close stdin; \<open>cmd.Wait\<close> in its own goroutine; the two cases of the select.\<close>

definition close_stdin :: "nat \<Rightarrow> session \<Rightarrow> session" where
  "close_stdin k = upd_child k (\<lambda>c. set_pos Closing (c\<lparr>sc_stdin := False\<rparr>))"

definition cmd_wait :: "nat \<Rightarrow> session \<Rightarrow> session" where
  "cmd_wait k = upd_child k (\<lambda>c. c\<lparr>sc_life := Reaped\<rparr>)"

definition waited :: "nat \<Rightarrow> session \<Rightarrow> session" where
  "waited k = upd_child k (set_pos Waited)"

definition overdue :: "nat \<Rightarrow> session \<Rightarrow> session" where
  "overdue k = upd_child k (\<lambda>c. set_pos Overdue (killed c))"

definition KillAll :: "session \<Rightarrow> session" where
  "KillAll s = s\<lparr>ss_children := map (\<lambda>k. if k \<in> ss_procs s then killed (ss_children s ! k) else ss_children s ! k)
     [0..<length (ss_children s)]\<rparr>"

subsection \<open>Signals\<close>

text \<open>A signal to this process; the channel of \<open>main\<close> holds two. One that is ignored leaves no trace.\<close>

definition deliver :: "signal \<Rightarrow> session \<Rightarrow> session" where
  "deliver x s =
     (case ss_disp s x of
        By_default \<Rightarrow> s\<lparr>ss_end := Some (Killed_by x)\<rparr>
      | Ignored \<Rightarrow> s
      | Notified \<Rightarrow>
          (let s = s\<lparr>ss_wanted := ss_wanted s + 1\<rparr> in
           if length (ss_sigs s) < 2 then s\<lparr>ss_sigs := ss_sigs s @ [x]\<rparr> else s))"

text \<open>Ctrl-C at the terminal: SIGINT to the program and to all of its children.\<close>

definition ctrl_c :: "session \<Rightarrow> session" where
  "ctrl_c s = deliver SIGINT
     (s\<lparr>ss_children := map (\<lambda>c. if sc_ignores_int c then c else killed c) (ss_children s)\<rparr>)"

text \<open>One statement of the goroutine in \<open>main\<close>; \<open>None\<close> while it waits for a signal.\<close>

definition watch_step :: "session \<Rightarrow> session option" where
  "watch_step s =
     (case ss_watch s of
        Await_first \<Rightarrow>
          (case ss_sigs s of [] \<Rightarrow> None | x # xs \<Rightarrow> Some (s\<lparr>ss_sigs := xs, ss_watch := Cancels\<rparr>))
      | Cancels \<Rightarrow> Some (s\<lparr>ss_canceled := True, ss_watch := Await_second\<rparr>)
      | Await_second \<Rightarrow>
          (case ss_sigs s of [] \<Rightarrow> None | x # xs \<Rightarrow> Some (s\<lparr>ss_sigs := xs, ss_watch := Kills\<rparr>))
      | Kills \<Rightarrow> Some ((KillAll s)\<lparr>ss_watch := Exits\<rparr>)
      | Exits \<Rightarrow> Some (s\<lparr>ss_end := Some (Exited 130)\<rparr>))"

text \<open>The steps of the goroutine that holds child \<open>k\<close>, and of the \<open>cmd.Wait\<close> beside it.\<close>

definition holder_step :: "nat \<Rightarrow> session \<Rightarrow> session \<Rightarrow> bool" where
  "holder_step k s s' \<longleftrightarrow>
     (let c = ss_children s ! k in
      (sc_pos c = Starting \<and> ss_shield s \<noteq> Restoring (Some k) \<and> s' = track k s) \<or>
      (sc_pos c = Open \<and> s' = close_stdin k s) \<or>
      (sc_pos c \<in> {Closing, Overdue} \<and> sc_life c = Dead \<and> s' = cmd_wait k s) \<or>
      (sc_pos c \<in> {Closing, Overdue} \<and> sc_life c = Reaped \<and> s' = waited k s) \<or>
      (sc_pos c = Closing \<and> s' = overdue k s) \<or>
      (sc_pos c = Waited \<and> s' = untrack k s))"

inductive sess_step :: "session \<Rightarrow> session \<Rightarrow> bool" where
  notifies: "ss_end s = None \<Longrightarrow> ss_shield s = Free \<Longrightarrow> sess_step s (notify s)"
| shields: "ss_end s = None \<Longrightarrow> ss_shield s = Free \<Longrightarrow> sess_step s (shield_begin s)"
| starts: "ss_end s = None \<Longrightarrow> ss_shield s = Held \<Longrightarrow> sess_step s (cmd_start ok s)"
| restores: "ss_end s = None \<Longrightarrow> ss_shield s = Restoring r \<Longrightarrow> sess_step s (shield_end s)"
| holds: "ss_end s = None \<Longrightarrow> k < length (ss_children s) \<Longrightarrow> holder_step k s s' \<Longrightarrow> sess_step s s'"
| ends: "ss_end s = None \<Longrightarrow> k < length (ss_children s) \<Longrightarrow> sess_step s (upd_child k killed s)"
| signals: "ss_end s = None \<Longrightarrow> sess_step s (deliver x s)"
| interrupts: "ss_end s = None \<Longrightarrow> sess_step s (ctrl_c s)"
| watches: "ss_end s = None \<Longrightarrow> watch_step s = Some s' \<Longrightarrow> sess_step s s'"
| returns: "ss_end s = None \<Longrightarrow> sess_step s (s\<lparr>ss_end := Some (Exited n)\<rparr>)"

abbreviation sess_reach :: "session \<Rightarrow> bool" where
  "sess_reach s \<equiv> sess_step\<^sup>*\<^sup>* session_new s"

subsection \<open>The invariant\<close>

definition tracked :: "child \<Rightarrow> bool" where
  "tracked c \<longleftrightarrow> sc_pos c \<in> {Open, Closing, Overdue, Waited}"

definition child_ok :: "child \<Rightarrow> bool" where
  "child_ok c \<longleftrightarrow> sc_ignores_int c \<and> (sc_stdin c \<longleftrightarrow> sc_pos c \<in> {Starting, Open}) \<and>
     (sc_pos c = Overdue \<longrightarrow> sc_life c \<noteq> Alive) \<and> (sc_pos c \<in> {Waited, Closed} \<longrightarrow> sc_life c = Reaped) \<and>
     (sc_pos c \<in> {Starting, Open} \<longrightarrow> sc_life c \<noteq> Reaped)"

definition children_ok :: "session \<Rightarrow> bool" where
  "children_ok s \<longleftrightarrow> ss_procs s \<subseteq> {..<length (ss_children s)} \<and>
     (\<forall>k < length (ss_children s). child_ok (ss_children s ! k) \<and> (k \<in> ss_procs s \<longleftrightarrow> tracked (ss_children s ! k)))"

text \<open>SIGINT is ignored from the start of \<open>Shield\<close> to its end, and only then; SIGTERM never.\<close>

definition shield_ok :: "session \<Rightarrow> bool" where
  "shield_ok s \<longleftrightarrow>
     ss_disp s SIGINT = (if ss_shield s \<noteq> Free then Ignored else if ss_notified s then Notified else By_default) \<and>
     ss_disp s SIGTERM = (if ss_notified s then Notified else By_default) \<and>
     (\<forall>k. ss_shield s = Restoring (Some k) \<longrightarrow> k < length (ss_children s) \<and> sc_pos (ss_children s ! k) = Starting)"

text \<open>How many signals the goroutine of \<open>main\<close> has taken from its channel.\<close>

fun taken :: "watch_pos \<Rightarrow> nat" where
  "taken Await_first = 0"
| "taken Cancels = 1"
| "taken Await_second = 1"
| "taken Kills = 2"
| "taken Exits = 2"

definition signals_ok :: "session \<Rightarrow> bool" where
  "signals_ok s \<longleftrightarrow> length (ss_sigs s) \<le> 2 \<and> taken (ss_watch s) + length (ss_sigs s) \<le> ss_wanted s \<and>
     min 2 (ss_wanted s) \<le> taken (ss_watch s) + length (ss_sigs s) \<and>
     (ss_canceled s \<longleftrightarrow> ss_watch s \<notin> {Await_first, Cancels}) \<and>
     (\<forall>x. ss_end s = Some (Killed_by x) \<longrightarrow> ss_disp s x = By_default)"

definition sess_ok :: "session \<Rightarrow> bool" where
  "sess_ok s \<longleftrightarrow> children_ok s \<and> shield_ok s \<and> signals_ok s"

lemma upd_child_simps [simp]:
  "length (ss_children (upd_child k g s)) = length (ss_children s)" "ss_procs (upd_child k g s) = ss_procs s"
  "ss_disp (upd_child k g s) = ss_disp s" "ss_notified (upd_child k g s) = ss_notified s"
  "ss_shield (upd_child k g s) = ss_shield s" "ss_sigs (upd_child k g s) = ss_sigs s"
  "ss_watch (upd_child k g s) = ss_watch s" "ss_canceled (upd_child k g s) = ss_canceled s"
  "ss_end (upd_child k g s) = ss_end s" "ss_wanted (upd_child k g s) = ss_wanted s"
  by (simp_all add: upd_child_def)

lemma upd_child_nth:
  "k < length (ss_children s) \<Longrightarrow> ss_children (upd_child k g s) ! i = (if i = k then g (ss_children s ! i) else ss_children s ! i)"
  by (simp add: upd_child_def)

lemma children_okD:
  assumes "children_ok s" "k < length (ss_children s)"
  shows "child_ok (ss_children s ! k)" "k \<in> ss_procs s \<longleftrightarrow> tracked (ss_children s ! k)"
  using assms by (simp_all add: children_ok_def)

lemma signals_ok_upd [simp]: "signals_ok (upd_child k g s) = signals_ok s"
  by (simp add: signals_ok_def)

lemma killed_simps [simp]:
  "sc_pos (killed c) = sc_pos c" "sc_stdin (killed c) = sc_stdin c" "sc_ignores_int (killed c) = sc_ignores_int c"
  "sc_life (killed c) = Reaped \<longleftrightarrow> sc_life c = Reaped" "sc_life (killed c) \<noteq> Alive" "tracked (killed c) = tracked c"
  by (auto simp: killed_def tracked_def)

lemma killed_ok: "child_ok c \<Longrightarrow> child_ok (killed c)"
  by (auto simp: child_ok_def)

text \<open>A change of one child, and of whether it is tracked.\<close>

lemma children_ok_upd:
  assumes "children_ok s" and k: "k < length (ss_children s)" and "child_ok (g (ss_children s ! k))"
    and "ss_procs s - {k} \<subseteq> P" "P \<subseteq> insert k (ss_procs s)" and "k \<in> P \<longleftrightarrow> tracked (g (ss_children s ! k))"
  shows "children_ok (upd_child k g (s\<lparr>ss_procs := P\<rparr>))"
proof -
  let ?s = "upd_child k g (s\<lparr>ss_procs := P\<rparr>)"
  have n: "ss_children ?s ! i = (if i = k then g (ss_children s ! k) else ss_children s ! i)" for i
    using upd_child_nth [of k "s\<lparr>ss_procs := P\<rparr>" g i] k by simp
  have "child_ok (ss_children ?s ! i) \<and> (i \<in> P \<longleftrightarrow> tracked (ss_children ?s ! i))" if "i < length (ss_children s)" for i
    using children_okD [OF assms(1) that] assms(3-6) n [of i] by (cases "i = k") auto
  moreover have "P \<subseteq> {..<length (ss_children s)}" using assms(1,5) k by (auto simp: children_ok_def)
  ultimately show ?thesis by (simp add: children_ok_def)
qed

lemma shield_ok_upd:
  assumes "shield_ok s" and "k < length (ss_children s)"
    and "ss_shield s = Restoring (Some k) \<longrightarrow> sc_pos (g (ss_children s ! k)) = Starting"
  shows "shield_ok (upd_child k g (s\<lparr>ss_procs := P\<rparr>))"
  using assms by (auto simp: shield_ok_def upd_child_nth)

lemma sess_ok_upd:
  assumes "sess_ok s" and "k < length (ss_children s)" and "child_ok (g (ss_children s ! k))"
    and "ss_procs s - {k} \<subseteq> P" "P \<subseteq> insert k (ss_procs s)" "k \<in> P \<longleftrightarrow> tracked (g (ss_children s ! k))"
    and "ss_shield s = Restoring (Some k) \<longrightarrow> sc_pos (g (ss_children s ! k)) = Starting"
  shows "sess_ok (upd_child k g (s\<lparr>ss_procs := P\<rparr>))"
  using assms children_ok_upd [of s k g P] shield_ok_upd [of s k g P] by (simp add: sess_ok_def signals_ok_def)

lemma sess_ok_upd_same:
  assumes "sess_ok s" and "k < length (ss_children s)" and "child_ok (g (ss_children s ! k))"
    and "tracked (g (ss_children s ! k)) \<longleftrightarrow> tracked (ss_children s ! k)"
    and "ss_shield s = Restoring (Some k) \<longrightarrow> sc_pos (g (ss_children s ! k)) = Starting"
  shows "sess_ok (upd_child k g s)"
proof -
  have "k \<in> ss_procs s \<longleftrightarrow> tracked (g (ss_children s ! k))"
    using assms(1,2,4) children_okD(2) by (simp add: sess_ok_def)
  then show ?thesis using sess_ok_upd [of s k g "ss_procs s"] assms by (simp add: subset_insertI)
qed

lemma starting_only:
  "sess_ok s \<Longrightarrow> ss_shield s = Restoring (Some k) \<Longrightarrow> sc_pos (ss_children s ! k) = Starting"
  by (simp add: sess_ok_def shield_ok_def)

lemma holder_step_ok:
  assumes ok: "sess_ok s" and k: "k < length (ss_children s)" and st: "holder_step k s s'"
  shows "sess_ok s'"
proof -
  let ?c = "ss_children s ! k"
  have d: "child_ok ?c" "k \<in> ss_procs s \<longleftrightarrow> tracked ?c" using ok k children_okD by (auto simp: sess_ok_def)
  have sh: "ss_shield s = Restoring (Some k) \<Longrightarrow> sc_pos ?c = Starting" by (rule starting_only [OF ok])
  consider (tr) "sc_pos ?c = Starting" "ss_shield s \<noteq> Restoring (Some k)" "s' = track k s"
    | (cl) "sc_pos ?c = Open" "s' = close_stdin k s"
    | (wt) "sc_pos ?c \<in> {Closing, Overdue}" "s' = cmd_wait k s"
    | (rc) "sc_pos ?c \<in> {Closing, Overdue}" "sc_life ?c = Reaped" "s' = waited k s"
    | (ov) "sc_pos ?c = Closing" "s' = overdue k s"
    | (un) "sc_pos ?c = Waited" "s' = untrack k s"
    using st by (auto simp: holder_step_def Let_def)
  then show ?thesis
  proof cases
    case tr
    then show ?thesis unfolding tr(3) track_def using d
      by (intro sess_ok_upd [OF ok k]) (auto simp: set_pos_def child_ok_def tracked_def)
  next
    case un
    then show ?thesis unfolding un(2) untrack_def using d sh
      by (intro sess_ok_upd [OF ok k]) (auto simp: set_pos_def child_ok_def tracked_def)
  next
    case cl
    then show ?thesis unfolding cl(2) close_stdin_def using d sh
      by (intro sess_ok_upd_same [OF ok k]) (auto simp: set_pos_def child_ok_def tracked_def)
  next
    case wt
    then show ?thesis unfolding wt(2) cmd_wait_def using d sh
      by (intro sess_ok_upd_same [OF ok k]) (auto simp: set_pos_def child_ok_def tracked_def)
  next
    case rc
    then show ?thesis unfolding rc(3) waited_def using d sh
      by (intro sess_ok_upd_same [OF ok k]) (auto simp: set_pos_def child_ok_def tracked_def)
  next
    case ov
    then show ?thesis unfolding ov(2) overdue_def using d sh
      by (intro sess_ok_upd_same [OF ok k]) (auto simp: set_pos_def child_ok_def tracked_def)
  qed
qed

text \<open>Any change that kills children and leaves the rest alone.\<close>

lemma children_ok_kill:
  assumes "children_ok s" and "length cs = length (ss_children s)"
    and "\<And>k. k < length (ss_children s) \<Longrightarrow> cs ! k = ss_children s ! k \<or> cs ! k = killed (ss_children s ! k)"
  shows "children_ok (s\<lparr>ss_children := cs\<rparr>)"
proof -
  have "child_ok (cs ! k) \<and> (k \<in> ss_procs s \<longleftrightarrow> tracked (cs ! k))" if "k < length cs" for k
    using children_okD [OF assms(1), of k] assms(3) [of k] that killed_ok assms(2) by auto
  then show ?thesis using assms(1,2) by (simp add: children_ok_def)
qed

lemma shield_ok_kill:
  assumes "shield_ok s" and "length cs = length (ss_children s)"
    and "\<And>k. k < length (ss_children s) \<Longrightarrow> cs ! k = ss_children s ! k \<or> cs ! k = killed (ss_children s ! k)"
  shows "shield_ok (s\<lparr>ss_children := cs\<rparr>)"
  using assms by (auto simp: shield_ok_def) (metis killed_simps(1))

lemma deliver_children [simp]: "ss_children (deliver x s) = ss_children s"
  by (simp add: deliver_def Let_def split: disposition.split)

lemma deliver_ok:
  assumes "sess_ok s" and "ss_end s = None"
  shows "sess_ok (deliver x s)"
proof -
  have c: "children_ok s" "shield_ok s" "signals_ok s" using assms by (simp_all add: sess_ok_def)
  show ?thesis
  proof (cases "ss_disp s x")
    case By_default
    then show ?thesis using c assms(2)
      by (simp add: sess_ok_def deliver_def children_ok_def shield_ok_def signals_ok_def)
  next
    case Notified
    then show ?thesis using c assms(2)
      by (simp add: sess_ok_def deliver_def children_ok_def shield_ok_def signals_ok_def Let_def) linarith
  qed (use assms in \<open>simp add: deliver_def\<close>)
qed

lemma KillAll_ok:
  assumes "sess_ok s"
  shows "sess_ok (KillAll s)"
proof -
  have c: "children_ok s" "shield_ok s" "signals_ok s" using assms by (simp_all add: sess_ok_def)
  have "children_ok (KillAll s)" unfolding KillAll_def by (rule children_ok_kill [OF c(1)]) simp_all
  moreover have "shield_ok (KillAll s)" unfolding KillAll_def by (rule shield_ok_kill [OF c(2)]) simp_all
  ultimately show ?thesis using c(3) by (simp add: sess_ok_def signals_ok_def KillAll_def)
qed

lemma watch_step_ok:
  assumes ok: "sess_ok s" and "ss_end s = None" and st: "watch_step s = Some s'"
  shows "sess_ok s'"
proof (cases "ss_watch s")
  case Kills
  have e: "ss_watch (KillAll s) = Kills" "ss_end (KillAll s) = None" using assms(2) Kills by (simp_all add: KillAll_def)
  have "s' = (KillAll s)\<lparr>ss_watch := Exits\<rparr>" using st Kills by (simp add: watch_step_def)
  then show ?thesis using KillAll_ok [OF ok] e
    by (simp add: sess_ok_def children_ok_def shield_ok_def signals_ok_def)
qed (use assms in \<open>auto simp: watch_step_def sess_ok_def children_ok_def shield_ok_def signals_ok_def split: list.splits\<close>)

lemma cmd_start_ok:
  assumes "sess_ok s" and "ss_shield s = Held"
  shows "sess_ok (cmd_start b s)"
proof -
  have c: "children_ok s" "shield_ok s" "signals_ok s" using assms by (simp_all add: sess_ok_def)
  have i: "child_ok (new_child s)" "\<not> tracked (new_child s)"
    using c(2) assms(2) by (auto simp: new_child_def child_ok_def tracked_def shield_ok_def)
  have "children_ok (cmd_start b s)"
    using c(1) i by (auto simp: children_ok_def cmd_start_def nth_append less_Suc_eq)
  moreover have "shield_ok (cmd_start b s)"
    using c(2) assms(2) by (auto simp: shield_ok_def cmd_start_def new_child_def)
  ultimately show ?thesis using c(3) by (simp add: sess_ok_def signals_ok_def cmd_start_def)
qed

lemma sess_step_ok: "sess_step s s' \<Longrightarrow> sess_ok s \<Longrightarrow> sess_ok s'"
proof (induction rule: sess_step.induct)
  case (notifies s)
  then show ?case by (simp add: sess_ok_def notify_def children_ok_def shield_ok_def signals_ok_def)
next
  case (shields s)
  then show ?case by (simp add: sess_ok_def shield_begin_def children_ok_def shield_ok_def signals_ok_def)
next
  case (starts s ok)
  then show ?case using cmd_start_ok by blast
next
  case (restores s r)
  then show ?case by (simp add: sess_ok_def shield_end_def children_ok_def shield_ok_def signals_ok_def)
next
  case (ends s k)
  then show ?case
    using children_okD(1) [of s k] starting_only by (intro sess_ok_upd_same) (auto simp: sess_ok_def killed_ok)
next
  case (interrupts s)
  have "sess_ok (s\<lparr>ss_children := map (\<lambda>c. if sc_ignores_int c then c else killed c) (ss_children s)\<rparr>)"
    using interrupts by (auto simp: sess_ok_def signals_ok_def intro!: children_ok_kill shield_ok_kill)
  then show ?case using interrupts deliver_ok by (simp add: ctrl_c_def)
next
  case (returns s n)
  then show ?case by (simp add: sess_ok_def children_ok_def shield_ok_def signals_ok_def)
qed (auto intro: holder_step_ok deliver_ok watch_step_ok)

lemma sess_reach_ok: "sess_reach s \<Longrightarrow> sess_ok s"
proof (induction rule: rtranclp_induct)
  case base
  show ?case by (simp add: sess_ok_def session_new_def children_ok_def shield_ok_def signals_ok_def)
next
  case (step s s')
  then show ?case using sess_step_ok by blast
qed

lemma sess_reachD:
  assumes "sess_reach s"
  shows "children_ok s" "shield_ok s" "signals_ok s"
  using sess_reach_ok [OF assms] by (simp_all add: sess_ok_def)

lemma reach_step: "sess_reach s \<Longrightarrow> sess_step s s' \<Longrightarrow> sess_reach s'"
  by (rule rtranclp.rtrancl_into_rtrancl)

subsection \<open>What holds in every session\<close>

text \<open>A session with one connection, and the Ctrl-C that comes then.\<close>

definition one_ssh :: session where
  "one_ssh = track 0 (shield_end (cmd_start True (shield_begin (notify session_new))))"

lemma starting_reach: "sess_reach (shield_end (cmd_start True (shield_begin (notify session_new))))"
proof -
  let ?a = "notify session_new" let ?b = "shield_begin ?a" let ?c = "cmd_start True ?b"
  have "sess_reach ?a" by (rule reach_step [OF rtranclp.rtrancl_refl notifies]) (simp_all add: session_new_def)
  then have "sess_reach ?b" by (rule reach_step [OF _ shields]) (simp_all add: session_new_def notify_def)
  then have "sess_reach ?c"
    by (rule reach_step [OF _ starts]) (simp_all add: session_new_def notify_def shield_begin_def)
  then show ?thesis
    by (rule reach_step [OF _ restores]) (simp_all add: session_new_def notify_def shield_begin_def cmd_start_def)
qed

lemma one_ssh_reach: "sess_reach one_ssh"
  unfolding one_ssh_def
  by (rule reach_step [OF starting_reach holds [of _ 0]])
    (simp_all add: session_new_def notify_def shield_begin_def cmd_start_def shield_end_def holder_step_def new_child_def)

text \<open>C34: the terminal's Ctrl-C reaches no ssh process. In every interleaving of starts, closes and signals each child was
  started with SIGINT ignored, so a Ctrl-C leaves all of them as they were and an interrupted copy can finish its queue.\<close>

theorem ctrl_c_spares_ssh:
  assumes "sess_reach s"
  shows "ss_children (ctrl_c s) = ss_children s \<and> list_all sc_ignores_int (ss_children s)"
proof -
  have i: "sc_ignores_int c" if "c \<in> set (ss_children s)" for c
    using that sess_reachD(1) [OF assms] by (auto simp: children_ok_def child_ok_def in_set_conv_nth)
  then have "map (\<lambda>c. if sc_ignores_int c then c else killed c) (ss_children s) = ss_children s" by (simp add: map_idI)
  then show ?thesis using i by (simp add: ctrl_c_def list_all_iff)
qed

theorem ctrl_c_spares_ssh_witness:
  "ss_children (ctrl_c one_ssh) = ss_children one_ssh \<and> map sc_life (ss_children one_ssh) = [Alive]"
proof -
  have "map sc_life (ss_children one_ssh) = [Alive]" by code_simp
  then show ?thesis using ctrl_c_spares_ssh [OF one_ssh_reach] by simp
qed

text \<open>C35: where a signal goes once \<open>Notify\<close> has run. None ends the process by itself. A Ctrl-C that arrives while \<open>Shield\<close> starts
  an ssh is lost: it changes nothing. Every other signal is counted, and queued unless two wait already, which are enough to
  quit. The goroutine of \<open>main\<close> waits only when it has taken all that were counted: before the first with the context alive,
  or after the first with the context canceled. It quits the process only on a second one.\<close>

theorem signals_reach_main:
  assumes "sess_reach s"
  shows "(ss_notified s \<longrightarrow> ss_end (deliver x s) = ss_end s) \<and>
    (ss_notified s \<and> ss_shield s \<noteq> Free \<and> x = SIGINT \<longrightarrow> deliver x s = s) \<and>
    (ss_notified s \<and> (ss_shield s = Free \<or> x = SIGTERM) \<longrightarrow>
      ss_wanted (deliver x s) = ss_wanted s + 1 \<and>
      ss_sigs (deliver x s) = (if length (ss_sigs s) < 2 then ss_sigs s @ [x] else ss_sigs s)) \<and>
    (watch_step s = None \<longleftrightarrow> ss_watch s = Await_first \<and> ss_wanted s = 0 \<or> ss_watch s = Await_second \<and> ss_wanted s = 1) \<and>
    (ss_canceled s \<longleftrightarrow> ss_watch s \<notin> {Await_first, Cancels}) \<and>
    (ss_watch s \<in> {Kills, Exits} \<longrightarrow> 2 \<le> ss_wanted s)"
proof (intro conjI)
  have sh: "shield_ok s" and sg: "signals_ok s" using sess_reachD [OF assms] by simp_all
  then have d: "ss_notified s \<Longrightarrow> ss_disp s x \<noteq> By_default" by (cases x) (auto simp: shield_ok_def split: if_splits)
  show "ss_notified s \<longrightarrow> ss_end (deliver x s) = ss_end s"
    using d by (auto simp: deliver_def Let_def split: disposition.split)
  show "ss_notified s \<and> ss_shield s \<noteq> Free \<and> x = SIGINT \<longrightarrow> deliver x s = s"
    using sh by (auto simp: shield_ok_def deliver_def)
  have n: "ss_notified s \<and> (ss_shield s = Free \<or> x = SIGTERM) \<Longrightarrow> ss_disp s x = Notified"
    using sh by (cases x) (auto simp: shield_ok_def)
  show "ss_notified s \<and> (ss_shield s = Free \<or> x = SIGTERM) \<longrightarrow> ss_wanted (deliver x s) = ss_wanted s + 1 \<and>
      ss_sigs (deliver x s) = (if length (ss_sigs s) < 2 then ss_sigs s @ [x] else ss_sigs s)"
    using n by (simp add: deliver_def Let_def)
  show "watch_step s = None \<longleftrightarrow> ss_watch s = Await_first \<and> ss_wanted s = 0 \<or> ss_watch s = Await_second \<and> ss_wanted s = 1"
    using sg by (cases "ss_watch s") (auto simp: watch_step_def signals_ok_def split: list.split)
qed (use sess_reachD(3) [OF assms] in \<open>auto simp: signals_ok_def\<close>)

theorem signals_reach_main_witness:
  "ss_sigs (deliver SIGINT one_ssh) = [SIGINT] \<and> ss_end (deliver SIGINT one_ssh) = None \<and>
   deliver SIGINT (shield_begin one_ssh) = shield_begin one_ssh"
proof -
  have o: "ss_notified one_ssh" "ss_shield one_ssh = Free" "ss_sigs one_ssh = []" "ss_end one_ssh = None" by code_simp+
  have "sess_reach (shield_begin one_ssh)" by (rule reach_step [OF one_ssh_reach shields]) (use o in simp_all)
  then show ?thesis
    using signals_reach_main [OF one_ssh_reach, of SIGINT] signals_reach_main [of "shield_begin one_ssh" SIGINT] o
    by (simp add: shield_begin_def)
qed

text \<open>So the Ctrl-C of a user who presses it while a connection is started, the first one or one that widens a pool in the middle of
  a copy, does nothing at all: it neither stops new work nor, as the second, quits.\<close>

lemma shield_loses_ctrl_c:
  assumes "sess_reach s" and "ss_shield s \<noteq> Free"
  shows "ctrl_c s = s"
proof -
  have "sc_ignores_int c" if "c \<in> set (ss_children s)" for c
    using that sess_reachD(1) [OF assms(1)] by (auto simp: children_ok_def child_ok_def in_set_conv_nth)
  then have "map (\<lambda>c. if sc_ignores_int c then c else killed c) (ss_children s) = ss_children s" by (simp add: map_idI)
  moreover have "ss_disp s SIGINT = Ignored" using sess_reachD(2) [OF assms(1)] assms(2) by (simp add: shield_ok_def)
  ultimately show ?thesis by (simp add: ctrl_c_def deliver_def)
qed

text \<open>C36: every ssh process is accounted for. The set that \<open>KillAll\<close> reads holds exactly the processes from \<open>track\<close> to the end of their
  transport's \<open>Close\<close>; a transport that has been closed left no process behind, alive or unwaited; and \<open>KillAll\<close> leaves alive
  only what is still between \<open>cmd.Start\<close> and \<open>track\<close>.\<close>

theorem ssh_processes_accounted_for:
  assumes "sess_reach s" and "k < length (ss_children s)"
  shows "(k \<in> ss_procs s \<longleftrightarrow> Starting < sc_pos (ss_children s ! k) \<and> sc_pos (ss_children s ! k) < Closed) \<and>
    (sc_pos (ss_children s ! k) = Closed \<longrightarrow> sc_life (ss_children s ! k) = Reaped \<and> \<not> sc_stdin (ss_children s ! k)) \<and>
    (sc_life (ss_children (KillAll s) ! k) = Alive \<longrightarrow> sc_pos (ss_children s ! k) = Starting)"
proof -
  let ?c = "ss_children s ! k"
  note d = children_okD [OF sess_reachD(1) [OF assms(1)] assms(2)]
  have t: "tracked ?c \<longleftrightarrow> Starting < sc_pos ?c \<and> sc_pos ?c < Closed"
    by (cases "sc_pos ?c") (simp_all add: tracked_def less_holder_def)
  have a: "sc_pos ?c = Starting" if "sc_life (ss_children (KillAll s) ! k) = Alive"
  proof -
    have "\<not> tracked ?c \<and> sc_life ?c = Alive" using that d(2) assms(2) by (auto simp: KillAll_def split: if_splits)
    then show ?thesis using d(1) by (cases "sc_pos ?c") (simp_all add: tracked_def child_ok_def)
  qed
  show ?thesis using d t a by (auto simp: child_ok_def)
qed

theorem ssh_processes_accounted_for_witness:
  "0 \<in> ss_procs one_ssh \<and> sc_life (ss_children (KillAll one_ssh) ! 0) \<noteq> Alive"
proof -
  have "length (ss_children one_ssh) = 1" "sc_pos (ss_children one_ssh ! 0) = Open" by code_simp+
  then show ?thesis using ssh_processes_accounted_for [OF one_ssh_reach, of 0] by (auto simp: less_holder_def)
qed

text \<open>The window that remains: two signals between \<open>cmd.Start\<close> and \<open>track\<close> end the program with the new process alive.\<close>

definition early :: "signal list \<Rightarrow> watch_pos \<Rightarrow> bool \<Rightarrow> nat \<Rightarrow> session" where
  "early xs w c n = \<lparr>ss_children = [\<lparr>sc_life = Alive, sc_ignores_int = True, sc_stdin = True, sc_pos = Starting\<rparr>],
     ss_procs = {}, ss_disp = (\<lambda>_. Notified), ss_notified = True, ss_shield = Free, ss_sigs = xs, ss_watch = w,
     ss_canceled = c, ss_end = None, ss_wanted = n\<rparr>"

lemma early_steps:
  "sess_reach (early [] Await_first False 0)"
  "length xs < 2 \<Longrightarrow> sess_step (early xs w c n) (early (xs @ [SIGINT]) w c (n + 1))"
  "sess_step (early (x # xs) Await_first c n) (early xs Cancels c n)"
  "sess_step (early xs Cancels c n) (early xs Await_second True n)"
  "sess_step (early (x # xs) Await_second c n) (early xs Kills c n)"
  "sess_step (early xs Kills c n) (early xs Exits c n)"
  "sess_step (early xs Exits c n) ((early xs Exits c n)\<lparr>ss_end := Some (Exited 130)\<rparr>)"
proof -
  have "shield_end (cmd_start True (shield_begin (notify session_new))) = early [] Await_first False 0"
    by (simp add: early_def session_new_def notify_def shield_begin_def cmd_start_def new_child_def shield_end_def fun_eq_iff)
  then show "sess_reach (early [] Await_first False 0)" using starting_reach by simp
  show "sess_step (early xs w c n) (early (xs @ [SIGINT]) w c (n + 1))" if "length xs < 2"
    using signals [of "early xs w c n" SIGINT] that by (simp add: early_def deliver_def)
qed (rule watches; simp add: early_def watch_step_def KillAll_def)+

lemma quit_leaves_new_process:
  "\<exists>s. sess_reach s \<and> ss_end s = Some (Exited 130) \<and> map sc_life (ss_children s) = [Alive]"
proof -
  have "sess_step (early [] Await_first False 0) (early [SIGINT] Await_first False 1)"
    using early_steps(2) [of "[]" Await_first False 0] by simp
  with early_steps(1) have "sess_reach (early [SIGINT] Await_first False 1)" by (rule reach_step)
  then have "sess_reach (early [] Cancels False 1)" by (rule reach_step [OF _ early_steps(3)])
  then have "sess_reach (early [] Await_second True 1)" by (rule reach_step [OF _ early_steps(4)])
  moreover have "sess_step (early [] Await_second True 1) (early [SIGINT] Await_second True 2)"
    using early_steps(2) [of "[]" Await_second True 1] by (simp add: numeral_2_eq_2)
  ultimately have "sess_reach (early [SIGINT] Await_second True 2)" by (rule reach_step)
  then have "sess_reach (early [] Kills True 2)" by (rule reach_step [OF _ early_steps(5)])
  then have "sess_reach (early [] Exits True 2)" by (rule reach_step [OF _ early_steps(6)])
  then have "sess_reach ((early [] Exits True 2)\<lparr>ss_end := Some (Exited 130)\<rparr>)"
    by (rule reach_step [OF _ early_steps(7)])
  then show ?thesis by (intro exI conjI) (assumption, simp_all add: early_def)
qed

subsection \<open>Close returns\<close>


lemma killed_forward [simp]: "sc_life c \<le> sc_life (killed c)"
  by (simp add: killed_def less_eq_life_def)






end
