(* ===== verification/Dial.thy ===== *)
theory Dial
  imports Ssh Location Pool "HOL-Library.Multiset"
begin

text \<open>
  Connections (internal/vfs/ssh.go): \<open>startSSH\<close>, the transport's \<open>Close\<close>, \<open>dialConn\<close> and \<open>Dial\<close>, as functions of the session of Ssh,
  each a run of its steps; then the life of a registry: \<open>For\<close>, the goroutine of \<open>startDialLocked\<close> in its three
  parts, which may outlive the registry, and the \<open>Close\<close> of a remote filesystem and of the registry. Of the SFTP client only
  the errors of opening and of closing a session matter here.
\<close>

subsection \<open>The functions of ssh.go\<close>

text \<open>What the system answers: the errors of the two pipes and of \<open>cmd.Start\<close> on a command line; whether a process outlives
  the five seconds after its stdin is closed; the errors of opening and of closing an SFTP session on it.\<close>

record ssh_os =
  os_stdin :: "goerr option"
  os_stdout :: "goerr option"
  os_start :: "string list \<Rightarrow> goerr option"
  os_lingers :: "nat \<Rightarrow> bool"
  os_session :: "nat \<Rightarrow> goerr option"
  os_quit :: "nat \<Rightarrow> goerr option"

text \<open>\<open>startSSH\<close>, with nothing else running in between.\<close>

definition startSSH :: "ssh_os \<Rightarrow> location \<Rightarrow> bool \<Rightarrow> session \<Rightarrow> (goerr + nat) \<times> session" where
  "startSSH os loc extra s =
     (case os_stdin os of Some e \<Rightarrow> (Inl e, s)
      | None \<Rightarrow>
     (case os_stdout os of Some e \<Rightarrow> (Inl e, s)
      | None \<Rightarrow>
     (case os_start os (sshArgs loc extra) of
        Some e \<Rightarrow> (Inl (WrapErr ''start ssh'' e), shield_end (cmd_start False (shield_begin s)))
      | None \<Rightarrow> (Inr (length (ss_children s)), track (length (ss_children s)) (shield_end (cmd_start True (shield_begin s)))))))"

text \<open>\<open>Close\<close> of the transport: a process that does not linger ends by itself once its stdin is closed.\<close>

definition transport_close :: "ssh_os \<Rightarrow> nat \<Rightarrow> session \<Rightarrow> session" where
  "transport_close os k s =
     untrack k (waited k (cmd_wait k
       (if os_lingers os k \<and> sc_life (ss_children s ! k) = Alive then overdue k (close_stdin k s)
        else upd_child k killed (close_stdin k s))))"

definition dialConn :: "ssh_os \<Rightarrow> location \<Rightarrow> bool \<Rightarrow> session \<Rightarrow> (goerr + nat) \<times> session" where
  "dialConn os loc extra s =
     (case startSSH os loc extra s of
        (Inl e, s) \<Rightarrow> (Inl (WrapErr (''connect to '' @ lo_host loc) e), s)
      | (Inr k, s) \<Rightarrow>
          (case os_session os k of
             Some e \<Rightarrow> (Inl (WrapErr (''start sftp session on '' @ lo_host loc) e), transport_close os k s)
           | None \<Rightarrow> (Inr k, s)))"

text \<open>\<open>Dial\<close>: the local filesystem, or the label of the host and the pool's first connection.\<close>

definition Dial :: "ssh_os \<Rightarrow> location \<Rightarrow> session \<Rightarrow> (goerr + (string \<times> nat list) option) \<times> session" where
  "Dial os loc s =
     (if \<not> lo_remote loc then (Inr None, s)
      else
        (case dialConn os loc False s of
           (Inl e, s) \<Rightarrow> (Inl e, s)
         | (Inr k, s) \<Rightarrow> (Inr (Some (hostLabel loc, [k])), s)))"

text \<open>\<open>Close\<close> of a remote filesystem: every connection, and the first error. A transport's \<open>Close\<close> answers nil.\<close>

fun close_conns :: "ssh_os \<Rightarrow> nat list \<Rightarrow> goerr option \<Rightarrow> session \<Rightarrow> goerr option \<times> session" where
  "close_conns os [] first s = (first, s)"
| "close_conns os (k # ks) first s =
     close_conns os ks (if os_quit os k \<noteq> None \<and> first = None then os_quit os k else first) (transport_close os k s)"

text \<open>These are runs of the steps above.\<close>

lemma holder_steps:
  "sc_pos (ss_children s ! k) = Starting \<Longrightarrow> ss_shield s \<noteq> Restoring (Some k) \<Longrightarrow> holder_step k s (track k s)"
  "sc_pos (ss_children s ! k) = Open \<Longrightarrow> holder_step k s (close_stdin k s)"
  "sc_pos (ss_children s ! k) \<in> {Closing, Overdue} \<Longrightarrow> sc_life (ss_children s ! k) = Dead \<Longrightarrow> holder_step k s (cmd_wait k s)"
  "sc_pos (ss_children s ! k) \<in> {Closing, Overdue} \<Longrightarrow> sc_life (ss_children s ! k) = Reaped \<Longrightarrow> holder_step k s (waited k s)"
  "sc_pos (ss_children s ! k) = Closing \<Longrightarrow> holder_step k s (overdue k s)"
  "sc_pos (ss_children s ! k) = Waited \<Longrightarrow> holder_step k s (untrack k s)"
  by (simp_all add: holder_step_def Let_def)

lemma startSSH_reach:
  assumes "sess_reach s" "ss_end s = None" "ss_shield s = Free" "startSSH os loc extra s = (r, s')"
  shows "sess_reach s' \<and> ss_end s' = None \<and> ss_shield s' = Free"
proof -
  let ?b = "\<lambda>ok. cmd_start ok (shield_begin s)"
  have "sess_reach (shield_begin s)" by (rule reach_step [OF assms(1) shields]) (use assms in auto)
  then have "sess_reach (?b ok)" for ok
    by (rule reach_step [OF _ starts]) (use assms in \<open>simp_all add: shield_begin_def\<close>)
  then have e: "sess_reach (shield_end (?b ok))" for ok
    by (rule reach_step [OF _ restores [where r = "if ok then Some (length (ss_children s)) else None"]])
      (use assms in \<open>simp_all add: shield_begin_def cmd_start_def\<close>)
  have "sess_reach (track (length (ss_children s)) (shield_end (?b True)))"
    by (rule reach_step [OF e holds [OF _ _ holder_steps(1)]])
      (use assms in \<open>simp_all add: shield_begin_def cmd_start_def shield_end_def new_child_def\<close>)
  note tr = this
  have f: "ss_end (shield_end (?b ok)) = None" "ss_shield (shield_end (?b ok)) = Free" for ok
    using assms by (simp_all add: shield_end_def cmd_start_def shield_begin_def)
  have g: "ss_end (track k t) = ss_end t" "ss_shield (track k t) = ss_shield t" for k t by (simp_all add: track_def)
  consider (same) "s' = s" | (failed) "s' = shield_end (?b False)"
    | (started) "s' = track (length (ss_children s)) (shield_end (?b True))"
    using assms(4) by (auto simp: startSSH_def split: option.splits)
  then show ?thesis
  proof cases
    case started
    then show ?thesis using tr f g by simp
  qed (use assms(1-3) e f in simp_all)
qed

lemma startSSH_children:
  assumes "startSSH os loc extra s = (r, s')"
  shows "case r of
      Inl e \<Rightarrow> ss_children s' = ss_children s \<and> ss_procs s' = ss_procs s
    | Inr k \<Rightarrow> k = length (ss_children s) \<and> ss_procs s' = insert k (ss_procs s) \<and>
        ss_children s' = ss_children s @ [\<lparr>sc_life = Alive, sc_ignores_int = True, sc_stdin = True, sc_pos = Open\<rparr>]"
  using assms
  by (auto simp: startSSH_def track_def upd_child_def set_pos_def shield_end_def cmd_start_def shield_begin_def new_child_def
      split: option.splits)

lemma transport_close_children:
  assumes "k < length (ss_children s)"
  shows "length (ss_children (transport_close os k s)) = length (ss_children s)"
    and "ss_children (transport_close os k s) ! k = (ss_children s ! k)\<lparr>sc_life := Reaped, sc_stdin := False, sc_pos := Closed\<rparr>"
    and "i \<noteq> k \<Longrightarrow> ss_children (transport_close os k s) ! i = ss_children s ! i"
    and "ss_procs (transport_close os k s) = ss_procs s - {k}"
    and "ss_end (transport_close os k s) = ss_end s" "ss_shield (transport_close os k s) = ss_shield s"
  using assms
  by (simp_all add: transport_close_def untrack_def waited_def cmd_wait_def overdue_def close_stdin_def upd_child_def
      set_pos_def killed_def)

lemma transport_close_reach:
  assumes "sess_reach s" "ss_end s = None" "k < length (ss_children s)" "sc_pos (ss_children s ! k) = Open"
  shows "sess_reach (transport_close os k s)"
proof -
  let ?a = "close_stdin k s"
  let ?b = "if os_lingers os k \<and> sc_life (ss_children s ! k) = Alive then overdue k ?a else upd_child k killed ?a"
  note defs = close_stdin_def overdue_def cmd_wait_def waited_def set_pos_def
  have live: "sc_life (ss_children s ! k) \<noteq> Reaped"
    using children_okD(1) [OF sess_reachD(1) [OF assms(1)] assms(3)] assms(4) by (simp add: child_ok_def)
  have a: "sess_reach ?a" by (rule reach_step [OF assms(1) holds [OF _ _ holder_steps(2)]]) (use assms in simp_all)
  have "sess_reach (upd_child k killed ?a)"
    by (rule reach_step [OF a ends]) (use assms in \<open>simp_all add: close_stdin_def\<close>)
  moreover have "sess_reach (overdue k ?a)"
    by (rule reach_step [OF a holds [OF _ _ holder_steps(5)]]) (use assms in \<open>simp_all add: defs upd_child_nth\<close>)
  ultimately have b: "sess_reach ?b" by simp
  have n: "ss_end ?b = None" "length (ss_children ?b) = length (ss_children s)" "sc_life (ss_children ?b ! k) = Dead"
    "sc_pos (ss_children ?b ! k) \<in> {Closing, Overdue}"
    using assms live by (cases "sc_life (ss_children s ! k)"; simp add: defs upd_child_nth killed_def)+
  have c: "sess_reach (cmd_wait k ?b)"
    by (rule reach_step [OF b holds [OF _ _ holder_steps(3)]]) (use n assms(3) in simp_all)
  have d: "sess_reach (waited k (cmd_wait k ?b))"
    by (rule reach_step [OF c holds [OF _ _ holder_steps(4)]])
      (use n assms(3) in \<open>simp_all add: cmd_wait_def upd_child_nth\<close>)
  have "sess_reach (untrack k (waited k (cmd_wait k ?b)))"
    by (rule reach_step [OF d holds [OF _ _ holder_steps(6)]])
      (use n assms(3) in \<open>simp_all add: cmd_wait_def waited_def set_pos_def upd_child_nth\<close>)
  then show ?thesis by (simp only: transport_close_def)
qed

subsection \<open>Connections that fail and connections that end\<close>

lemma dialConn_outcome:
  assumes "sess_reach s" "ss_end s = None" "ss_shield s = Free" and "dialConn os loc extra s = (r, s')"
  shows "sess_reach s' \<and> ss_end s' = None \<and> ss_shield s' = Free \<and>
    (case r of
       Inl e \<Rightarrow> ss_procs s' = ss_procs s \<and> (\<exists>cs. ss_children s' = ss_children s @ cs \<and> list_all (\<lambda>c. sc_life c = Reaped) cs)
     | Inr k \<Rightarrow> k = length (ss_children s) \<and> ss_procs s' = insert k (ss_procs s) \<and>
         ss_children s' = ss_children s @ [\<lparr>sc_life = Alive, sc_ignores_int = True, sc_stdin = True, sc_pos = Open\<rparr>])"
proof -
  let ?n = "length (ss_children s)"
  obtain q t where st: "startSSH os loc extra s = (q, t)" by fastforce
  have t: "sess_reach t" "ss_end t = None" "ss_shield t = Free" using startSSH_reach [OF assms(1-3) st] by simp_all
  note ch = startSSH_children [OF st]
  have new: "?n \<notin> ss_procs s" using sess_reachD(1) [OF assms(1)] by (auto simp: children_ok_def)
  show ?thesis
  proof (cases q)
    case (Inl e)
    then show ?thesis using assms(4) st t ch by (auto simp: dialConn_def)
  next
    case (Inr k)
    then have k: "k = ?n" "ss_procs t = insert ?n (ss_procs s)" "length (ss_children t) = Suc ?n"
      "ss_children t = ss_children s @ [\<lparr>sc_life = Alive, sc_ignores_int = True, sc_stdin = True, sc_pos = Open\<rparr>]"
      using ch by simp_all
    show ?thesis
    proof (cases "os_session os ?n")
      case None
      then show ?thesis using assms(4) st Inr k t by (auto simp: dialConn_def)
    next
      case (Some e)
      let ?u = "transport_close os ?n t"
      have r: "r = Inl (WrapErr (''start sftp session on '' @ lo_host loc) e)" "s' = ?u"
        using assms(4) st Inr k(1) Some by (auto simp: dialConn_def)
      have len: "?n < length (ss_children t)" using k(3) by simp
      note c = transport_close_children [OF len, where os = os]
      have "sess_reach ?u" by (rule transport_close_reach) (use t k(4) in simp_all)
      moreover have "ss_children ?u = ss_children s @ [ss_children ?u ! ?n]"
        using c(1,3) k(3,4) by (intro nth_equalityI) (auto simp: nth_append less_Suc_eq)
      moreover have "ss_procs ?u = ss_procs s" using c(4) k(2) new by simp
      ultimately show ?thesis using r c(2,5,6) t by (auto intro!: exI [of _ "[ss_children ?u ! ?n]"])
    qed
  qed
qed

text \<open>C37: a connection that cannot be made leaves no process. When \<open>dialConn\<close> fails, on a pipe, on the start of ssh or on
  the SFTP session, every process it started has been waited for and is forgotten, and the others are as they were; when
  it succeeds, exactly the new process is there, running and tracked.\<close>

theorem failed_dial_leaves_no_process:
  assumes "sess_reach s" "ss_end s = None" "ss_shield s = Free" and "dialConn os loc extra s = (r, s')"
  shows "sess_reach s' \<and> take (length (ss_children s)) (ss_children s') = ss_children s \<and>
    (case r of
       Inl e \<Rightarrow> ss_procs s' = ss_procs s \<and> list_all (\<lambda>c. sc_life c = Reaped) (drop (length (ss_children s)) (ss_children s'))
     | Inr k \<Rightarrow> k = length (ss_children s) \<and> ss_procs s' = insert k (ss_procs s) \<and>
         map sc_life (drop k (ss_children s')) = [Alive])"
  using dialConn_outcome [OF assms] by (cases r) auto

definition no_session :: ssh_os where
  "no_session = \<lparr>os_stdin = None, os_stdout = None, os_start = (\<lambda>_. None), os_lingers = (\<lambda>_. True),
     os_session = (\<lambda>k. if k = 1 then Some (Sentinel ErrUnsupported) else None), os_quit = (\<lambda>_. None)\<rparr>"

theorem failed_dial_leaves_no_process_witness:
  "ss_procs (snd (dialConn no_session (local_at ''x'') True one_ssh)) = {0} \<and>
   map sc_life (ss_children (snd (dialConn no_session (local_at ''x'') True one_ssh))) = [Alive, Reaped]"
proof -
  let ?d = "dialConn no_session (local_at ''x'') True one_ssh"
  have a: "ss_end one_ssh = None" "ss_shield one_ssh = Free" "ss_procs one_ssh = {0}"
    "map sc_life (ss_children one_ssh) = [Alive]" by code_simp+
  obtain r t where d: "?d = (r, t)" by fastforce
  have "isl (fst ?d)" "map sc_life (ss_children (snd ?d)) = [Alive, Reaped]" by code_simp+
  then show ?thesis using failed_dial_leaves_no_process [OF one_ssh_reach a(1,2) d] a(3) d
    by (auto split: sum.splits)
qed

fun first_error :: "ssh_os \<Rightarrow> nat list \<Rightarrow> goerr option" where
  "first_error os [] = None"
| "first_error os (k # ks) = (if os_quit os k \<noteq> None then os_quit os k else first_error os ks)"

lemma first_error_append:
  "first_error os (ks @ ls) = (if first_error os ks \<noteq> None then first_error os ks else first_error os ls)"
  by (induction ks) auto

lemma first_error_None: "first_error os ks = None \<longleftrightarrow> (\<forall>k \<in> set ks. os_quit os k = None)"
  by (induction ks) auto

text \<open>What is open before and what is left after the connections of a list are closed.\<close>

definition all_open :: "nat list \<Rightarrow> session \<Rightarrow> bool" where
  "all_open ks s \<longleftrightarrow> distinct ks \<and> list_all (\<lambda>k. k < length (ss_children s) \<and> sc_pos (ss_children s ! k) = Open) ks"

definition closes :: "nat list \<Rightarrow> session \<Rightarrow> session \<Rightarrow> bool" where
  "closes ks s s' \<longleftrightarrow> sess_reach s' \<and> ss_end s' = None \<and> length (ss_children s') = length (ss_children s) \<and>
     ss_procs s' = ss_procs s - set ks \<and> ss_shield s' = ss_shield s \<and>
     (\<forall>i. if i \<in> set ks then sc_pos (ss_children s' ! i) = Closed else ss_children s' ! i = ss_children s ! i)"

lemma closes_trans: "closes ks s t \<Longrightarrow> closes ls t u \<Longrightarrow> distinct (ks @ ls) \<Longrightarrow> closes (ks @ ls) s u"
  unfolding closes_def by (auto split: if_splits)

lemma all_open_step:
  assumes "all_open (ks @ ls) s" and "closes ks s t"
  shows "all_open ls t"
proof -
  have "ss_children t ! k = ss_children s ! k" if "k \<in> set ls" for k
    using assms that unfolding closes_def all_open_def by (metis disjoint_iff distinct_append)
  then show ?thesis using assms by (auto simp: all_open_def closes_def list_all_iff)
qed

lemma transport_close_closes:
  assumes "sess_reach s" "ss_end s = None" "all_open [k] s"
  shows "closes [k] s (transport_close os k s)"
  using transport_close_reach [OF assms(1,2)] transport_close_children [where os = os and s = s and k = k] assms
  by (simp add: closes_def all_open_def)

lemma close_conns_closes:
  "sess_reach s \<Longrightarrow> ss_end s = None \<Longrightarrow> all_open ks s \<Longrightarrow>
     fst (close_conns os ks first s) = (if first \<noteq> None then first else first_error os ks) \<and>
     closes ks s (snd (close_conns os ks first s))"
proof (induction ks arbitrary: first s)
  case Nil
  then show ?case by (simp add: closes_def)
next
  case (Cons k ks)
  let ?t = "transport_close os k s"
  have k: "closes [k] s ?t"
    by (rule transport_close_closes) (use Cons.prems in \<open>simp_all add: all_open_def\<close>)
  then have t: "sess_reach ?t" "ss_end ?t = None" "all_open ks ?t"
    using all_open_step [of "[k]" ks s ?t] Cons.prems(3) by (simp_all add: closes_def)
  have "distinct ([k] @ ks)" using Cons.prems(3) by (simp add: all_open_def)
  then show ?case using Cons.IH [OF t] closes_trans [OF k] by auto
qed

subsection \<open>The life of a registry\<close>

text \<open>A remote filesystem as the registry made it: the location its dial closure holds, its connections, the goroutine of
  \<open>startDialLocked\<close> (none, before \<open>f.dial()\<close>, after it with the answer; \<open>dialing\<close> is that there is one), the two flags, and how many
  connections \<open>Close\<close> took when it ran (not read).\<close>

datatype flight = Quiet | Dialing | Answered "goerr + nat"

record remote_fs =
  rf_loc :: location
  rf_conns :: "nat list"
  rf_flight :: flight
  rf_frozen :: bool
  rf_closed :: bool
  rf_taken :: nat

text \<open>The registry's map names filesystems by their position among all that were ever made: one that the registry has closed and
  forgotten lives on while its goroutine does.\<close>

record hosts =
  ho_map :: "(string \<times> nat) list"
  ho_fs :: "remote_fs list"
  ho_sess :: session

definition hosts_new :: hosts where
  "hosts_new = \<lparr>ho_map = [], ho_fs = [], ho_sess = notify session_new\<rparr>"

definition rfs_new :: "location \<Rightarrow> nat list \<Rightarrow> remote_fs" where
  "rfs_new loc ks = \<lparr>rf_loc = loc, rf_conns = ks, rf_flight = Quiet, rf_frozen = False, rf_closed = False, rf_taken = 0\<rparr>"

text \<open>\<open>For\<close>, under the registry's mutex. A failed dial leaves the registry as it was.\<close>

definition registry_for :: "ssh_os \<Rightarrow> location \<Rightarrow> hosts \<Rightarrow> hosts" where
  "registry_for os loc h =
     (if \<not> lo_remote loc \<or> map_of (ho_map h) (ConnKey loc) \<noteq> None then h
      else
        (case Dial os loc (ho_sess h) of
           (Inr (Some (host, ks)), s) \<Rightarrow>
             h\<lparr>ho_map := (ConnKey loc, length (ho_fs h)) # ho_map h, ho_fs := ho_fs h @ [rfs_new loc ks], ho_sess := s\<rparr>
         | (r, s) \<Rightarrow> h\<lparr>ho_sess := s\<rparr>))"

text \<open>What happens to one pool: a transfer finds it full and asks for one more connection (\<open>canGrowLocked\<close> and \<open>startDialLocked\<close>); the
  goroutine dials; the goroutine takes the mutex and ends. Whatever else runs may come between the three.\<close>

datatype pool_event = Grows | Dials | Ends

fun on_event :: "ssh_os \<Rightarrow> pool_event \<Rightarrow> remote_fs \<Rightarrow> session \<Rightarrow> remote_fs \<times> session" where
  "on_event os Grows f s =
     (if \<not> rf_frozen f \<and> \<not> rf_closed f \<and> length (rf_conns f) < MaxConnections \<and> rf_flight f = Quiet
      then (f\<lparr>rf_flight := Dialing\<rparr>, s) else (f, s))"
| "on_event os Dials f s =
     (if rf_flight f = Dialing
      then (case dialConn os (rf_loc f) True s of (r, s) \<Rightarrow> (f\<lparr>rf_flight := Answered r\<rparr>, s)) else (f, s))"
| "on_event os Ends f s =
     (case rf_flight f of
        Answered (Inl e) \<Rightarrow> (f\<lparr>rf_flight := Quiet, rf_frozen := True\<rparr>, s)
      | Answered (Inr k) \<Rightarrow> (f\<lparr>rf_flight := Quiet, rf_conns := rf_conns f @ [k]\<rparr>, s)
      | _ \<Rightarrow> (f, s))"

definition at_pool :: "ssh_os \<Rightarrow> pool_event \<Rightarrow> nat \<Rightarrow> hosts \<Rightarrow> hosts" where
  "at_pool os ev i h =
     (if i < length (ho_fs h)
      then (case on_event os ev (ho_fs h ! i) (ho_sess h) of (f, s) \<Rightarrow> h\<lparr>ho_fs := (ho_fs h)[i := f], ho_sess := s\<rparr>)
      else h)"

text \<open>\<open>Close\<close> of a remote filesystem: every connection it had at that moment, which it keeps in its list.\<close>

definition close_fs :: "ssh_os \<Rightarrow> remote_fs \<Rightarrow> session \<Rightarrow> goerr option \<times> remote_fs \<times> session" where
  "close_fs os f s =
     (case close_conns os (rf_conns f) None s of
        (err, s) \<Rightarrow> (err, f\<lparr>rf_closed := True, rf_taken := length (rf_conns f)\<rparr>, s))"

text \<open>\<open>Close\<close> of the registry, in the order in which the map is ranged over; each key is deleted, the first error is kept. A
  goroutine that dials meanwhile touches its own pool only, before or after the loop comes to it, so its steps are taken before or
  after the whole loop.\<close>

fun close_each :: "ssh_os \<Rightarrow> (string \<times> nat) list \<Rightarrow> goerr option \<Rightarrow> hosts \<Rightarrow> goerr option \<times> hosts" where
  "close_each os [] first h = (first, h)"
| "close_each os ((key, i) # order) first h =
     (case close_fs os (ho_fs h ! i) (ho_sess h) of
        (err, f, s) \<Rightarrow>
          close_each os order (if err \<noteq> None \<and> first = None then err else first)
            (h\<lparr>ho_map := filter (\<lambda>p. fst p \<noteq> key) (ho_map h), ho_fs := (ho_fs h)[i := f], ho_sess := s\<rparr>))"

definition registry_close :: "ssh_os \<Rightarrow> (string \<times> nat) list \<Rightarrow> hosts \<Rightarrow> goerr option \<times> hosts" where
  "registry_close os order h = close_each os order None h"

text \<open>What a run asks of its registry before it closes it.\<close>

datatype request = For location | At pool_event nat

fun serve :: "ssh_os \<Rightarrow> request \<Rightarrow> hosts \<Rightarrow> hosts" where
  "serve os (For loc) h = registry_for os loc h"
| "serve os (At ev i) h = at_pool os ev i h"

text \<open>The connections of a pool that no \<open>Close\<close> has taken: those in its list and the one its goroutine holds.\<close>

fun held_by :: "flight \<Rightarrow> nat list" where
  "held_by (Answered (Inr k)) = [k]"
| "held_by fl = []"

definition unclosed :: "remote_fs \<Rightarrow> nat list" where
  "unclosed f = drop (rf_taken f) (rf_conns f) @ held_by (rf_flight f)"

definition all_unclosed :: "hosts \<Rightarrow> nat list" where
  "all_unclosed h = concat (map unclosed (ho_fs h))"

text \<open>Exactly the connections of a list are open, tracked and running; every other process has been waited for.\<close>

definition conns_ok :: "nat list \<Rightarrow> session \<Rightarrow> bool" where
  "conns_ok ks s \<longleftrightarrow> sess_reach s \<and> ss_end s = None \<and> ss_shield s = Free \<and> all_open ks s \<and> ss_procs s = set ks \<and>
     (\<forall>i < length (ss_children s). sc_life (ss_children s ! i) = (if i \<in> set ks then Alive else Reaped))"

lemma conns_ok_mset: "conns_ok ks s \<Longrightarrow> mset ls = mset ks \<Longrightarrow> conns_ok ls s"
  using mset_eq_imp_distinct_iff [of ls ks] mset_eq_setD [of ls ks] by (simp add: conns_ok_def all_open_def list_all_iff)

lemma all_open_grow: "all_open ks s \<Longrightarrow> ss_children s' = ss_children s @ cs \<Longrightarrow> all_open ks s'"
  by (auto simp: all_open_def list_all_iff nth_append)

lemma dialConn_conns:
  assumes ok: "conns_ok ks s" and d: "dialConn os loc extra s = (r, s')"
  shows "conns_ok (ks @ held_by (Answered r)) s'"
proof -
  let ?n = "length (ss_children s)"
  have s: "sess_reach s" "ss_end s = None" "ss_shield s = Free" "all_open ks s" "ss_procs s = set ks"
    "\<And>i. i < ?n \<Longrightarrow> sc_life (ss_children s ! i) = (if i \<in> set ks then Alive else Reaped)"
    using ok by (auto simp: conns_ok_def)
  have lt: "\<And>k. k \<in> set ks \<Longrightarrow> k < ?n" using s(4) by (simp add: all_open_def list_all_iff)
  note f = dialConn_outcome [OF s(1-3) d]
  show ?thesis
  proof (cases r)
    case (Inl er)
    then obtain cs where cs: "ss_children s' = ss_children s @ cs" "list_all (\<lambda>c. sc_life c = Reaped) cs" "ss_procs s' = ss_procs s"
      using f by auto
    have "sc_life (ss_children s' ! i) = (if i \<in> set ks then Alive else Reaped)" if "i < length (ss_children s')" for i
      using that cs s(6) [of i] lt [of i] by (auto simp: nth_append list_all_length)
    then show ?thesis using f Inl s(5) cs(3) all_open_grow [OF s(4) cs(1)] by (simp add: conns_ok_def)
  next
    case (Inr k)
    then have k: "k = ?n" "ss_procs s' = insert k (ss_procs s)"
      "ss_children s' = ss_children s @ [\<lparr>sc_life = Alive, sc_ignores_int = True, sc_stdin = True, sc_pos = Open\<rparr>]"
      using f by auto
    have "all_open (ks @ [k]) s'"
      using all_open_grow [OF s(4) k(3)] s(4) k(1,3) by (auto simp: all_open_def list_all_iff)
    moreover have "sc_life (ss_children s' ! i) = (if i \<in> set (ks @ [k]) then Alive else Reaped)" if "i < length (ss_children s')" for i
      using that k s(6) [of i] lt [of i] by (auto simp: nth_append less_Suc_eq)
    ultimately show ?thesis using f Inr k(2) s(5) by (auto simp: conns_ok_def)
  qed
qed

lemma close_conns_conns:
  assumes "conns_ok (ks @ ls) s"
  shows "fst (close_conns os ks None s) = first_error os ks \<and> conns_ok ls (snd (close_conns os ks None s))"
proof -
  let ?s = "snd (close_conns os ks None s)"
  have s: "sess_reach s" "ss_end s = None" "ss_shield s = Free" "all_open (ks @ ls) s" "ss_procs s = set ks \<union> set ls"
    "\<And>i. i < length (ss_children s) \<Longrightarrow> sc_life (ss_children s ! i) = (if i \<in> set ks \<union> set ls then Alive else Reaped)"
    using assms by (auto simp: conns_ok_def)
  have "all_open ks s" using s(4) by (simp add: all_open_def)
  then have c: "fst (close_conns os ks None s) = first_error os ks" "closes ks s ?s"
    using close_conns_closes [OF s(1,2), of ks os None] by simp_all
  have dj: "set ks \<inter> set ls = {}" using s(4) by (simp add: all_open_def)
  have "sc_life (ss_children ?s ! i) = (if i \<in> set ls then Alive else Reaped)" if i: "i < length (ss_children ?s)" for i
  proof (cases "i \<in> set ks")
    case True
    then have "sc_pos (ss_children ?s ! i) = Closed" using c(2) unfolding closes_def by metis
    moreover have "sess_reach ?s" using c(2) by (simp add: closes_def)
    ultimately show ?thesis using children_okD(1) [OF sess_reachD(1) i] dj True by (auto simp: child_ok_def)
  next
    case False
    then have "ss_children ?s ! i = ss_children s ! i" using c(2) unfolding closes_def by metis
    then show ?thesis using s(6) [of i] i False c(2) by (simp add: closes_def)
  qed
  moreover have "ss_procs ?s = set ls" using c(2) s(5) dj by (auto simp: closes_def)
  ultimately show ?thesis using c s(3) all_open_step [OF s(4) c(2)] by (simp add: conns_ok_def closes_def)
qed

subsection \<open>The connections of a registry\<close>

definition hosts_ok :: "hosts \<Rightarrow> bool" where
  "hosts_ok h \<longleftrightarrow> conns_ok (all_unclosed h) (ho_sess h) \<and> list_all (\<lambda>f. rf_taken f \<le> length (rf_conns f)) (ho_fs h)"

text \<open>Before its \<open>Close\<close> the registry knows every filesystem, once.\<close>

definition hosts_open :: "hosts \<Rightarrow> bool" where
  "hosts_open h \<longleftrightarrow> list_all (\<lambda>f. rf_taken f = 0) (ho_fs h) \<and> distinct (map snd (ho_map h)) \<and>
     set (map snd (ho_map h)) = {..<length (ho_fs h)}"

definition shut :: "remote_fs \<Rightarrow> remote_fs" where
  "shut f = f\<lparr>rf_closed := True, rf_taken := length (rf_conns f)\<rparr>"

lemma shut_unclosed [simp]: "unclosed (shut f) = held_by (rf_flight f)" "rf_closed (shut f)"
  by (simp_all add: shut_def unclosed_def)

lemma concat_update_mset:
  "i < length fs \<Longrightarrow> mset (concat (map g (fs[i := f]))) + mset (g (fs ! i)) = mset (concat (map g fs)) + mset (g f)"
  by (induction fs arbitrary: i) (auto split: nat.split simp: nth_Cons' less_Suc_eq_0_disj)

lemma on_event_ok:
  assumes "on_event os ev f s = (f', s')" and "conns_ok us s" and "rf_taken f \<le> length (rf_conns f)"
  shows "rf_taken f' \<le> length (rf_conns f') \<and>
    (\<exists>ks. mset (unclosed f') = mset (unclosed f) + mset ks \<and> conns_ok (us @ ks) s' \<and>
      (\<exists>cs. ss_children s' = ss_children s @ cs))"
proof (cases ev)
  case Dials
  show ?thesis
  proof (cases "rf_flight f = Dialing")
    case True
    obtain r t where d: "dialConn os (rf_loc f) True s = (r, t)" by fastforce
    then have e: "f' = f\<lparr>rf_flight := Answered r\<rparr>" "s' = t" using assms(1) Dials True by simp_all
    have s: "sess_reach s" "ss_end s = None" "ss_shield s = Free" using assms(2) by (simp_all add: conns_ok_def)
    have "\<exists>cs. ss_children t = ss_children s @ cs" using dialConn_outcome [OF s d] by (cases r) auto
    then show ?thesis using e dialConn_conns [OF assms(2) d] assms(3) True
      by (intro conjI exI [of _ "held_by (Answered r)"]) (simp_all add: unclosed_def)
  qed (use assms Dials in \<open>auto intro: exI [of _ "[]"]\<close>)
next
  case Grows
  then show ?thesis using assms by (auto simp: unclosed_def split: if_splits intro: exI [of _ "[]"])
next
  case Ends
  then show ?thesis using assms by (auto simp: unclosed_def split: flight.splits sum.splits intro: exI [of _ "[]"])
qed

lemma at_pool_ok:
  assumes "hosts_ok h"
  shows "hosts_ok (at_pool os ev i h) \<and> (\<exists>cs. ss_children (ho_sess (at_pool os ev i h)) = ss_children (ho_sess h) @ cs)"
proof (cases "i < length (ho_fs h)")
  case True
  let ?f = "ho_fs h ! i"
  obtain f' s' where p: "on_event os ev ?f (ho_sess h) = (f', s')" by fastforce
  have ok: "conns_ok (all_unclosed h) (ho_sess h)" "list_all (\<lambda>f. rf_taken f \<le> length (rf_conns f)) (ho_fs h)"
    using assms by (simp_all add: hosts_ok_def)
  have "rf_taken ?f \<le> length (rf_conns ?f)" using ok(2) True by (simp add: list_all_length)
  from on_event_ok [OF p ok(1) this] obtain ks where k: "rf_taken f' \<le> length (rf_conns f')"
    "mset (unclosed f') = mset (unclosed ?f) + mset ks" "conns_ok (all_unclosed h @ ks) s'"
    "\<exists>cs. ss_children s' = ss_children (ho_sess h) @ cs" by blast
  let ?h = "h\<lparr>ho_fs := (ho_fs h)[i := f'], ho_sess := s'\<rparr>"
  have h: "at_pool os ev i h = ?h" using p True by (simp add: at_pool_def)
  have "mset (all_unclosed ?h) = mset (all_unclosed h @ ks)"
    using concat_update_mset [OF True, of unclosed f'] k(2) by (simp add: all_unclosed_def)
  then have "conns_ok (all_unclosed ?h) s'" by (rule conns_ok_mset [OF k(3)])
  then show ?thesis unfolding h using k(1,4) ok(2) True by (simp add: hosts_ok_def list_all_length nth_list_update)
qed (use assms in \<open>simp add: at_pool_def\<close>)

lemma at_pool_open: "hosts_open h \<Longrightarrow> hosts_open (at_pool os ev i h)"
proof -
  have "rf_taken (fst (on_event os ev f s)) = rf_taken f" for f s
    by (cases ev) (auto split: flight.splits sum.splits prod.splits)
  then show "hosts_open h \<Longrightarrow> hosts_open (at_pool os ev i h)"
    by (auto simp: hosts_open_def at_pool_def list_all_length nth_list_update split: prod.splits) (metis fst_conv)
qed

lemma registry_for_ok:
  assumes "hosts_ok h" and "hosts_open h"
  shows "hosts_ok (registry_for os loc h) \<and> hosts_open (registry_for os loc h)"
proof (cases "\<not> lo_remote loc \<or> map_of (ho_map h) (ConnKey loc) \<noteq> None")
  case False
  obtain r t where d: "dialConn os loc False (ho_sess h) = (r, t)" by fastforce
  have "conns_ok (all_unclosed h) (ho_sess h)" using assms(1) by (simp add: hosts_ok_def)
  note c = dialConn_conns [OF this d]
  show ?thesis
  proof (cases r)
    case (Inl e)
    then have "registry_for os loc h = h\<lparr>ho_sess := t\<rparr>" using False d by (auto simp: registry_for_def Dial_def)
    then show ?thesis using c assms Inl by (simp add: hosts_ok_def hosts_open_def all_unclosed_def)
  next
    case (Inr k)
    then have "registry_for os loc h =
        h\<lparr>ho_map := (ConnKey loc, length (ho_fs h)) # ho_map h, ho_fs := ho_fs h @ [rfs_new loc [k]], ho_sess := t\<rparr>"
      using False d by (auto simp: registry_for_def Dial_def)
    then show ?thesis using c assms Inr
      by (auto simp: hosts_ok_def hosts_open_def all_unclosed_def rfs_new_def unclosed_def)
  qed
qed (use assms in \<open>auto simp: registry_for_def\<close>)

lemma serve_ok: "hosts_ok h \<and> hosts_open h \<Longrightarrow> hosts_ok (serve os q h) \<and> hosts_open (serve os q h)"
  by (cases q) (simp_all add: registry_for_ok at_pool_ok at_pool_open)

lemma serve_all_ok: "hosts_ok h \<and> hosts_open h \<Longrightarrow> hosts_ok (fold (serve os) qs h) \<and> hosts_open (fold (serve os) qs h)"
  by (induction qs arbitrary: h) (use serve_ok in auto)

lemma hosts_new_ok: "hosts_ok hosts_new \<and> hosts_open hosts_new"
proof -
  have "sess_reach (notify session_new)"
    by (rule reach_step [OF rtranclp.rtrancl_refl notifies]) (simp_all add: session_new_def)
  then show ?thesis
    by (simp add: hosts_ok_def hosts_open_def hosts_new_def all_unclosed_def conns_ok_def all_open_def notify_def session_new_def)
qed

subsection \<open>Closing\<close>

lemma close_each_ok:
  "hosts_ok h \<Longrightarrow> distinct (map snd order) \<Longrightarrow> (\<forall>p \<in> set order. snd p < length (ho_fs h) \<and> rf_taken (ho_fs h ! snd p) = 0) \<Longrightarrow>
   close_each os order first h = (err, h') \<Longrightarrow>
     hosts_ok h' \<and> ho_map h' = filter (\<lambda>p. fst p \<notin> fst ` set order) (ho_map h) \<and> length (ho_fs h') = length (ho_fs h) \<and>
     (\<forall>j < length (ho_fs h). ho_fs h' ! j = (if j \<in> snd ` set order then shut (ho_fs h ! j) else ho_fs h ! j)) \<and>
     length (ss_children (ho_sess h')) = length (ss_children (ho_sess h)) \<and>
     err = (if first \<noteq> None then first else first_error os (concat (map (\<lambda>p. rf_conns (ho_fs h ! snd p)) order)))"
proof (induction order arbitrary: first h)
  case (Cons p order)
  obtain key i where p: "p = (key, i)" by fastforce
  let ?f = "ho_fs h ! i"
  obtain e t where c: "close_conns os (rf_conns ?f) None (ho_sess h) = (e, t)" by fastforce
  let ?h = "h\<lparr>ho_map := filter (\<lambda>p. fst p \<noteq> key) (ho_map h), ho_fs := (ho_fs h)[i := shut ?f], ho_sess := t\<rparr>"
  have i: "i < length (ho_fs h)" "rf_taken ?f = 0" "i \<notin> snd ` set order" using Cons.prems(2,3) p by force+
  have s: "conns_ok (all_unclosed h) (ho_sess h)" using Cons.prems(1) by (simp add: hosts_ok_def)
  have "mset (rf_conns ?f @ all_unclosed ?h) = mset (all_unclosed h)"
    using concat_update_mset [OF i(1), of unclosed "shut ?f"] i(2) by (simp add: all_unclosed_def unclosed_def [of ?f] add.commute)
  from conns_ok_mset [OF s this] have k: "conns_ok (rf_conns ?f @ all_unclosed ?h) (ho_sess h)" .
  have e: "e = first_error os (rf_conns ?f)" "conns_ok (all_unclosed ?h) t" using close_conns_conns [OF k, of os] c by simp_all
  have "all_open (rf_conns ?f) (ho_sess h)" using k by (simp add: conns_ok_def all_open_def)
  then have len: "length (ss_children t) = length (ss_children (ho_sess h))"
    using close_conns_closes [of "ho_sess h" "rf_conns ?f" os None] c k by (simp add: conns_ok_def closes_def)
  have ok: "hosts_ok ?h" using e(2) Cons.prems(1) i(1)
    by (simp add: hosts_ok_def list_all_length nth_list_update shut_def)
  have nth: "ho_fs ?h ! snd q = ho_fs h ! snd q" if "q \<in> set order" for q
    using i(3) that by (metis (no_types, lifting) hosts.select_convs(2) hosts.surjective hosts.update_convs(2,3) image_eqI nth_list_update_neq)
  have pr: "\<forall>q \<in> set order. snd q < length (ho_fs ?h) \<and> rf_taken (ho_fs ?h ! snd q) = 0"
    using Cons.prems(3) nth by simp
  have m: "map (\<lambda>p. rf_conns (ho_fs ?h ! snd p)) order = map (\<lambda>p. rf_conns (ho_fs h ! snd p)) order"
    using nth by (intro map_cong) simp_all
  have d: "distinct (map snd order)" using Cons.prems(2) by simp
  have "close_each os order (if e \<noteq> None \<and> first = None then e else first) ?h = (err, h')"
    using Cons.prems(4) p c by (simp add: close_fs_def shut_def)
  from Cons.IH [OF ok d pr this] show ?case
    unfolding m using p e(1) len i by (auto simp: first_error_append nth_list_update intro!: filter_cong)
qed simp

text \<open>After \<open>Close\<close> at most one connection can still come to each pool, and only where a dial was in flight.\<close>

definition due :: "remote_fs \<Rightarrow> nat" where
  "due f = length (unclosed f) + (if rf_flight f = Dialing then 1 else 0)"

lemma on_event_due:
  assumes "rf_closed f" and "rf_taken f \<le> length (rf_conns f)"
  shows "due (fst (on_event os ev f s)) \<le> due f \<and> rf_closed (fst (on_event os ev f s))"
proof (cases ev)
  case Dials
  obtain r t where "dialConn os (rf_loc f) True s = (r, t)" by fastforce
  then show ?thesis using assms Dials by (cases r) (auto simp: due_def unclosed_def)
next
  case Ends
  then show ?thesis using assms by (auto simp: due_def unclosed_def split: flight.splits sum.splits)
qed (use assms in auto)

lemma sum_update_le:
  fixes g :: "'a \<Rightarrow> nat"
  shows "i < length fs \<Longrightarrow> g f \<le> g (fs ! i) \<Longrightarrow> sum_list (map g (fs[i := f])) \<le> sum_list (map g fs)"
  by (induction fs arbitrary: i) (auto split: nat.split simp: nth_Cons' less_Suc_eq_0_disj)

lemma at_pool_due:
  assumes "hosts_ok h" and "list_all rf_closed (ho_fs h)"
  shows "list_all rf_closed (ho_fs (at_pool os ev i h)) \<and>
    sum_list (map due (ho_fs (at_pool os ev i h))) \<le> sum_list (map due (ho_fs h))"
proof (cases "i < length (ho_fs h)")
  case True
  obtain f' s' where p: "on_event os ev (ho_fs h ! i) (ho_sess h) = (f', s')" by fastforce
  have "rf_closed (ho_fs h ! i)" "rf_taken (ho_fs h ! i) \<le> length (rf_conns (ho_fs h ! i))"
    using assms True by (simp_all add: hosts_ok_def list_all_length)
  note d = on_event_due [OF this, of os ev "ho_sess h", unfolded p fst_conv]
  show ?thesis using True p d sum_update_le [OF True, of due f'] assms(2)
    by (simp add: at_pool_def list_all_length nth_list_update)
qed (use assms in \<open>simp add: at_pool_def\<close>)

lemma late_events:
  "hosts_ok h \<Longrightarrow> list_all rf_closed (ho_fs h) \<Longrightarrow> h' = fold (\<lambda>(ev, i). at_pool os ev i) evs h \<Longrightarrow>
     hosts_ok h' \<and> (\<exists>cs. ss_children (ho_sess h') = ss_children (ho_sess h) @ cs) \<and>
     sum_list (map due (ho_fs h')) \<le> sum_list (map due (ho_fs h))"
proof (induction evs arbitrary: h)
  case (Cons x evs)
  obtain ev i where x: "x = (ev, i)" by fastforce
  let ?h = "at_pool os ev i h"
  have c: "hosts_ok ?h" "list_all rf_closed (ho_fs ?h)" "sum_list (map due (ho_fs ?h)) \<le> sum_list (map due (ho_fs h))"
    "\<exists>cs. ss_children (ho_sess ?h) = ss_children (ho_sess h) @ cs"
    using at_pool_ok [OF Cons.prems(1)] at_pool_due [OF Cons.prems(1,2)] by blast+
  have "h' = fold (\<lambda>(ev, i). at_pool os ev i) evs ?h" using Cons.prems(3) x by simp
  from Cons.IH [OF c(1,2) this] show ?case using c(3,4) by auto
qed simp

lemma unclosed_le_due: "length (concat (map unclosed fs)) \<le> sum_list (map due fs)"
  by (induction fs) (simp_all add: due_def)

lemma due_shut: "sum_list (map due (map shut fs)) \<le> length (filter (\<lambda>f. rf_flight f \<noteq> Quiet) fs)"
proof (induction fs)
  case (Cons f fs)
  have "due (shut f) \<le> (if rf_flight f = Quiet then 0 else 1)"
    by (cases "rf_flight f" rule: held_by.cases) (simp_all add: due_def, simp_all add: shut_def)
  then show ?case using Cons by (simp split: if_splits)
qed simp

lemma taken_or_held:
  "list_all (\<lambda>f. rf_taken f = 0) fs \<Longrightarrow>
     mset (concat (map unclosed fs)) = mset (concat (map rf_conns fs)) + mset (concat (map unclosed (map shut fs)))"
  by (induction fs) (auto simp: unclosed_def [where f = f for f] simp del: shut_unclosed simp: shut_def)

text \<open>C38: closing the registry ends every connection it knows. Take any history of resolved locations and of pools that grow,
  each dial failing or not, and \<open>Close\<close> at any moment of it, also while dials are in flight; after it, any further steps of
  these dials. The registry is empty, and nil is answered exactly if every session closed cleanly. Every connection that was in a pool
  when \<open>Close\<close> ran has its process waited for. Of all the processes ever started, the only ones that run or that \<open>KillAll\<close> would
  find are connections that a dial in flight at \<open>Close\<close> has brought since, at most one for each such dial (these no one
  closes); so where no dial was in flight, none is left.\<close>

theorem registry_leaves_no_process:
  assumes "h = fold (serve os) qs hosts_new" and "mset order = mset (ho_map h)"
    and "registry_close os order h = (err, closed)" and "later = fold (\<lambda>(ev, i). at_pool os ev i) evs closed"
  shows "ho_map closed = [] \<and>
    (err = None \<longleftrightarrow> list_all (\<lambda>f. list_all (\<lambda>k. os_quit os k = None) (rf_conns f)) (ho_fs h)) \<and>
    list_all (\<lambda>f. list_all (\<lambda>k. sc_life (ss_children (ho_sess later) ! k) = Reaped) (rf_conns f)) (ho_fs h) \<and>
    ss_procs (ho_sess later) = set (all_unclosed later) \<and>
    (\<forall>k < length (ss_children (ho_sess later)).
       sc_life (ss_children (ho_sess later) ! k) = (if k \<in> set (all_unclosed later) then Alive else Reaped)) \<and>
    length (all_unclosed later) \<le> length (filter (\<lambda>f. rf_flight f \<noteq> Quiet) (ho_fs h))"
proof -
  have h: "hosts_ok h" "hosts_open h" using serve_all_ok [OF hosts_new_ok] assms(1) by simp_all
  have so: "set order = set (ho_map h)" by (rule mset_eq_setD [OF assms(2)])
  have "mset (map snd order) = mset (map snd (ho_map h))" using assms(2) by simp
  then have o: "distinct (map snd order)" "snd ` set order = {..<length (ho_fs h)}"
    using h(2) so mset_eq_imp_distinct_iff [of "map snd order" "map snd (ho_map h)"] by (simp_all add: hosts_open_def)
  have z: "list_all (\<lambda>f. rf_taken f = 0) (ho_fs h)" using h(2) by (simp add: hosts_open_def)
  have pr: "\<forall>p \<in> set order. snd p < length (ho_fs h) \<and> rf_taken (ho_fs h ! snd p) = 0"
    using o(2) z by (auto simp: list_all_length)
  note c = close_each_ok [OF h(1) o(1) pr assms(3) [unfolded registry_close_def]]
  have fs: "ho_fs closed = map shut (ho_fs h)" using c o(2) by (intro nth_equalityI) auto
  have "ho_map closed = []" using c so by (auto simp: filter_empty_conv)
  moreover have "err = None \<longleftrightarrow> list_all (\<lambda>f. list_all (\<lambda>k. os_quit os k = None) (rf_conns f)) (ho_fs h)"
  proof -
    have "err = None \<longleftrightarrow> (\<forall>i \<in> snd ` set order. \<forall>k \<in> set (rf_conns (ho_fs h ! i)). os_quit os k = None)"
      using c by (auto simp: first_error_None)
    then show ?thesis unfolding o(2) by (auto simp: list_all_iff all_set_conv_all_nth)
  qed
  moreover note l = late_events [OF conjunct1 [OF c] _ assms(4)]
  have cl: "list_all rf_closed (ho_fs closed)" unfolding fs by (simp add: list_all_length)
  have n: "conns_ok (all_unclosed later) (ho_sess later)" using l [OF cl] by (simp add: hosts_ok_def)
  moreover have "length (all_unclosed later) \<le> length (filter (\<lambda>f. rf_flight f \<noteq> Quiet) (ho_fs h))"
    using unclosed_le_due [of "ho_fs later"] l [OF cl] due_shut [of "ho_fs h"] fs by (simp add: all_unclosed_def)
  moreover have "sc_life (ss_children (ho_sess later) ! k) = Reaped" if k: "k \<in> set (concat (map rf_conns (ho_fs h)))" for k
  proof -
    have m: "mset (all_unclosed h) = mset (concat (map rf_conns (ho_fs h)) @ all_unclosed closed)"
      using taken_or_held [OF z] fs by (simp add: all_unclosed_def)
    have "conns_ok (concat (map rf_conns (ho_fs h)) @ all_unclosed closed) (ho_sess h)"
      by (rule conns_ok_mset [OF _ m [symmetric]]) (use h(1) in \<open>simp add: hosts_ok_def\<close>)
    then have "k \<notin> set (all_unclosed closed)" "k < length (ss_children (ho_sess closed))"
      using k c by (auto simp: conns_ok_def all_open_def list_all_iff)
    moreover have "conns_ok (all_unclosed closed) (ho_sess closed)" using c by (simp add: hosts_ok_def)
    ultimately have "sc_life (ss_children (ho_sess closed) ! k) = Reaped \<and> k < length (ss_children (ho_sess closed))"
      by (simp add: conns_ok_def)
    then show ?thesis using l [OF cl] by (auto simp: nth_append)
  qed
  then have "list_all (\<lambda>f. list_all (\<lambda>k. sc_life (ss_children (ho_sess later) ! k) = Reaped) (rf_conns f)) (ho_fs h)"
    by (auto simp: list_all_iff)
  ultimately show ?thesis using n by (simp add: conns_ok_def)
qed

text \<open>One host, one more connection, and a second one whose dial \<open>Close\<close> overtakes: its process is the one left.\<close>

definition any_session :: ssh_os where
  "any_session = no_session\<lparr>os_session := (\<lambda>_. None)\<rparr>"

definition pc :: location where
  "pc = (local_at ''/d'')\<lparr>lo_remote := True, lo_host := ''pc''\<rparr>"

definition overtaken :: hosts where
  "overtaken = fold (serve any_session) [For pc, At Grows 0, At Dials 0, At Ends 0, For pc, At Grows 0] hosts_new"

theorem registry_leaves_no_process_witness:
  "\<exists>closed. registry_close any_session (ho_map overtaken) overtaken = (None, closed) \<and>
    (case fold (\<lambda>(ev, i). at_pool any_session ev i) [(Dials, 0), (Ends, 0)] closed of later \<Rightarrow>
       map sc_life (ss_children (ho_sess later)) = [Reaped, Reaped, Alive] \<and>
       ss_procs (ho_sess later) = set (all_unclosed later) \<and> length (all_unclosed later) = 1)"
proof -
  obtain err closed where c: "registry_close any_session (ho_map overtaken) overtaken = (err, closed)" by fastforce
  let ?later = "fold (\<lambda>(ev, i). at_pool any_session ev i) [(Dials, 0), (Ends, 0)] closed"
  have "fst (registry_close any_session (ho_map overtaken) overtaken) = None" by code_simp
  moreover have "map sc_life (ss_children (ho_sess (fold (\<lambda>(ev, i). at_pool any_session ev i) [(Dials, 0), (Ends, 0)]
      (snd (registry_close any_session (ho_map overtaken) overtaken))))) = [Reaped, Reaped, Alive]" by code_simp
  moreover have "length (all_unclosed (fold (\<lambda>(ev, i). at_pool any_session ev i) [(Dials, 0), (Ends, 0)]
      (snd (registry_close any_session (ho_map overtaken) overtaken)))) = 1" by code_simp
  moreover have "ss_procs (ho_sess ?later) = set (all_unclosed ?later)"
    using registry_leaves_no_process [OF overtaken_def refl c refl] by blast
  ultimately show ?thesis using c by simp
qed

subsection \<open>A host that ssh reads as an option\<close>

text \<open>The host stands in the command line with no \<open>--\<close> before it, and \<open>Parse\<close> admits a host that begins with a
  dash: ssh takes it for an option, and \<open>ProxyCommand\<close> names a command to run.\<close>

lemma host_read_as_option:
  "\<exists>loc. parse ''ssh://-oProxyCommand=x/p'' = Inr loc \<and>
     sshArgs loc False = [''ssh'', ''-s'', ''-oProxyCommand=x'', ''sftp'']"
proof -
  have "case parse ''ssh://-oProxyCommand=x/p'' of Inl e \<Rightarrow> False
    | Inr loc \<Rightarrow> sshArgs loc False = [''ssh'', ''-s'', ''-oProxyCommand=x'', ''sftp'']" by code_simp
  then show ?thesis by (auto split: sum.splits)
qed

end
