(* ===== verification/ExtentIndex.thy ===== *)
theory ExtentIndex
  imports Extents
begin

text \<open>
  The order of the extent index (internal/fsx/extents.go, \<open>newExtentIndex\<close>), and what a look-up in it finds. The tree
  itself is the package google/btree; the locale \<open>ordered_tree\<close> states its documented behaviour for this order, and a
  sorted list has it.
\<close>

subsection \<open>The order\<close>

datatype extent_key = Key (key_phys: int) (key_length: int)

text \<open>The function given to \<open>btree.NewG\<close>.\<close>

definition extent_less :: "extent_loc \<Rightarrow> extent_loc \<Rightarrow> bool" where
  "extent_less a b \<longleftrightarrow> (if el_phys a \<noteq> el_phys b then el_phys a < el_phys b else el_length a < el_length b)"

definition el_key :: "extent_loc \<Rightarrow> extent_key" where
  "el_key l = Key (el_phys l) (el_length l)"

instantiation extent_key :: linorder
begin

definition less_extent_key :: "extent_key \<Rightarrow> extent_key \<Rightarrow> bool" where
  "less_extent_key a b \<longleftrightarrow> key_phys a < key_phys b \<or> key_phys a = key_phys b \<and> key_length a < key_length b"

definition less_eq_extent_key :: "extent_key \<Rightarrow> extent_key \<Rightarrow> bool" where
  "less_eq_extent_key a b \<longleftrightarrow> a < b \<or> a = b"

instance
proof
  fix a b :: extent_key
  show "a \<le> b \<or> b \<le> a" by (cases a; cases b) (auto simp: less_eq_extent_key_def less_extent_key_def)
qed (auto simp: less_eq_extent_key_def less_extent_key_def)

end

lemma extent_less_key [simp]: "extent_less a b \<longleftrightarrow> el_key a < el_key b"
  by (auto simp: extent_less_def el_key_def less_extent_key_def)

subsection \<open>The tree\<close>

text \<open>\<open>ReplaceOrInsert\<close> removes the item of the same key; \<open>DescendLessOrEqual\<close> goes down from the pivot.\<close>

locale ordered_tree =
  fixes bt :: "'b btree" and items :: "'b \<Rightarrow> extent_loc set"
  assumes new: "items (bt_new bt) = {}"
    and insert: "items (bt_insert bt l t) = insert l {x \<in> items t. extent_less x l \<or> extent_less l x}"
    and down_set: "set (bt_down bt p t) = {x \<in> items t. \<not> extent_less p x}"
    and down_sorted: "sorted_wrt (\<lambda>a b. extent_less b a) (bt_down bt p t)"
begin

lemma down_distinct: "distinct (bt_down bt p t)"
  using down_sorted [of p t] by (auto simp: sorted_wrt_iff_nth_less distinct_conv_nth) (metis less_irrefl nat_neq_iff)

lemma finite_below: "finite {x \<in> items t. \<not> extent_less p x}"
  using down_set [of p t] by (metis List.finite_set)

text \<open>The place of an item in the scan is the number of items between it and the pivot.\<close>

lemma index_card:
  assumes "i < length (bt_down bt p t)"
  shows "card {x \<in> items t. \<not> extent_less p x \<and> extent_less (bt_down bt p t ! i) x} = i"
proof -
  let ?xs = "bt_down bt p t"
  have "{x \<in> items t. \<not> extent_less p x \<and> extent_less (?xs ! i) x} = {x \<in> set ?xs. el_key (?xs ! i) < el_key x}"
    using down_set [of p t] by auto
  also have "\<dots> = set (take i ?xs)"
  proof (intro set_eqI iffI)
    fix x assume "x \<in> {x \<in> set ?xs. el_key (?xs ! i) < el_key x}"
    then obtain j where j: "j < length ?xs" "x = ?xs ! j" "el_key (?xs ! i) < el_key (?xs ! j)"
      by (auto simp: in_set_conv_nth)
    then have "\<not> i < j" "i \<noteq> j" using down_sorted [of p t] by (auto simp: sorted_wrt_iff_nth_less dest: less_asym)
    then show "x \<in> set (take i ?xs)" using j by (auto simp: in_set_conv_nth)
  next
    fix x assume "x \<in> set (take i ?xs)"
    then obtain j where "j < i" "j < length ?xs" "x = ?xs ! j" by (auto simp: in_set_conv_nth)
    then show "x \<in> {x \<in> set ?xs. el_key (?xs ! i) < el_key x}"
      using down_sorted [of p t] assms by (auto simp: sorted_wrt_iff_nth_less)
  qed
  also have "card \<dots> = i" using down_distinct [of p t] assms by (simp add: distinct_card)
  finally show ?thesis .
qed

end

lemma find_scan_iff:
  "n < findDepth \<Longrightarrow> find_scan d phys len n rs = Some r \<longleftrightarrow>
     (\<exists>i < length rs. i + n < findDepth \<and> rs ! i = r \<and> covers d phys len r \<and> (\<forall>j < i. \<not> covers d phys len (rs ! j)))"
proof (induction rs arbitrary: n)
  case (Cons a rs)
  show ?case
  proof (cases "covers d phys len a")
    case True
    then show ?thesis using Cons.prems by (auto simp: less_Suc_eq_0_disj intro!: exI [of _ 0])
  next
    case False
    then show ?thesis
    proof (cases "Suc n < findDepth")
      case True
      then show ?thesis using False Cons.IH [OF True] by (auto simp: Ex_less_Suc2 All_less_Suc2)
    qed (use False in \<open>auto simp: Ex_less_Suc2\<close>)
  qed
qed simp

text \<open>The pivot of \<open>find\<close>: all records that start at or before the extent, whatever their length.\<close>

lemma pivot_below:
  "el_length x \<le> max_int64 \<Longrightarrow>
     \<not> extent_less \<lparr>el_phys = phys, el_length = max_int64, el_off = 0, el_ref = 0\<rparr> x \<longleftrightarrow> el_phys x \<le> phys"
  by (auto simp: extent_less_def simp del: extent_less_key)

context ordered_tree
begin

lemma find_iff:
  assumes len: "\<forall>x \<in> items t. el_length x \<le> max_int64"
  shows "find_loc bt d t phys len = Some (r, delta) \<longleftrightarrow>
    r \<in> items t \<and> el_phys r \<le> phys \<and> covers d phys len r \<and> delta = wrap64 (phys - el_phys r) \<and>
    card {x \<in> items t. el_phys x \<le> phys \<and> extent_less r x} < findDepth \<and>
    (\<forall>x \<in> items t. el_phys x \<le> phys \<and> extent_less r x \<longrightarrow> \<not> covers d phys len x)"
proof -
  let ?p = "\<lparr>el_phys = phys, el_length = max_int64, el_off = 0, el_ref = 0\<rparr>"
  let ?xs = "bt_down bt ?p t"
  have below: "x \<in> items t \<and> \<not> extent_less ?p x \<longleftrightarrow> x \<in> items t \<and> el_phys x \<le> phys" for x using len pivot_below by blast
  then have set: "set ?xs = {x \<in> items t. el_phys x \<le> phys}" using down_set by blast
  have card: "card {x \<in> items t. el_phys x \<le> phys \<and> extent_less (?xs ! i) x} = i" if "i < length ?xs" for i
  proof -
    have "{x \<in> items t. el_phys x \<le> phys \<and> extent_less (?xs ! i) x} =
        {x \<in> items t. \<not> extent_less ?p x \<and> extent_less (?xs ! i) x}" using below by blast
    then show ?thesis using index_card [OF that] by simp
  qed
  have order: "extent_less (?xs ! i) (?xs ! j) \<longleftrightarrow> j < i" if "i < length ?xs" "j < length ?xs" for i j
    using down_sorted [of ?p t] that unfolding sorted_wrt_iff_nth_less extent_less_key by (metis less_asym not_less_iff_gr_or_eq)
  have nearer: "(\<forall>x \<in> items t. el_phys x \<le> phys \<and> extent_less (?xs ! i) x \<longrightarrow> \<not> covers d phys len x) \<longleftrightarrow>
      (\<forall>j < i. \<not> covers d phys len (?xs ! j))" if "i < length ?xs" for i
  proof -
    have "(\<forall>x \<in> items t. el_phys x \<le> phys \<and> extent_less (?xs ! i) x \<longrightarrow> \<not> covers d phys len x) \<longleftrightarrow>
        (\<forall>j < length ?xs. extent_less (?xs ! i) (?xs ! j) \<longrightarrow> \<not> covers d phys len (?xs ! j))"
      using set by (metis (no_types, lifting) in_set_conv_nth mem_Collect_eq)
    then show ?thesis using order [OF that] that by auto
  qed
  have scan: "find_loc bt d t phys len = Some (r, delta) \<longleftrightarrow>
      find_scan d phys len 0 ?xs = Some r \<and> delta = wrap64 (phys - el_phys r)"
    by (auto simp: find_loc_def split: option.split)
  let ?near = "card {x \<in> items t. el_phys x \<le> phys \<and> extent_less r x} < findDepth \<and>
      (\<forall>x \<in> items t. el_phys x \<le> phys \<and> extent_less r x \<longrightarrow> \<not> covers d phys len x)"
  have at: "?near \<longleftrightarrow> i < findDepth \<and> (\<forall>j < i. \<not> covers d phys len (?xs ! j))" if "i < length ?xs" "?xs ! i = r" for i
    using card [OF that(1)] nearer [OF that(1)] unfolding that(2) by blast
  have "find_scan d phys len 0 ?xs = Some r \<longleftrightarrow>
      (\<exists>i < length ?xs. i < findDepth \<and> ?xs ! i = r \<and> covers d phys len r \<and> (\<forall>j < i. \<not> covers d phys len (?xs ! j)))"
    using find_scan_iff [of 0 d phys len ?xs r] by (simp add: findDepth_def)
  also have "\<dots> \<longleftrightarrow> (\<exists>i < length ?xs. ?xs ! i = r) \<and> covers d phys len r \<and> ?near" using at by blast
  also have "\<dots> \<longleftrightarrow> r \<in> set ?xs \<and> covers d phys len r \<and> ?near" by (auto simp: in_set_conv_nth)
  finally show ?thesis using scan set by blast
qed

end

subsection \<open>A tree\<close>

typedef sorted_extents = "{xs. sorted_wrt extent_less xs}"
  by (rule exI [of _ "[]"]) simp

setup_lifting type_definition_sorted_extents

lift_definition no_extents :: sorted_extents is "[]" by simp

lift_definition add_extent :: "extent_loc \<Rightarrow> sorted_extents \<Rightarrow> sorted_extents" is
  "\<lambda>l xs. filter (\<lambda>x. extent_less x l) xs @ [l] @ filter (extent_less l) xs"
  by (auto simp: sorted_wrt_append sorted_wrt_filter)

lift_definition extents_below :: "extent_loc \<Rightarrow> sorted_extents \<Rightarrow> extent_loc list" is
  "\<lambda>p xs. rev (filter (\<lambda>x. \<not> extent_less p x) xs)" .

lift_definition extent_set :: "sorted_extents \<Rightarrow> extent_loc set" is set .

definition sorted_index :: "sorted_extents btree" where
  "sorted_index = \<lparr>bt_new = no_extents, bt_insert = add_extent, bt_down = extents_below\<rparr>"

interpretation sorted_list: ordered_tree sorted_index extent_set
proof
  show "extent_set (bt_new sorted_index) = {}" unfolding sorted_index_def by simp (transfer, simp)
  show "extent_set (bt_insert sorted_index l t) = insert l {x \<in> extent_set t. extent_less x l \<or> extent_less l x}" for l t
    unfolding sorted_index_def by simp (transfer, auto)
  show "set (bt_down sorted_index p t) = {x \<in> extent_set t. \<not> extent_less p x}" for p t
    unfolding sorted_index_def by simp (transfer, auto)
  show "sorted_wrt (\<lambda>a b. extent_less b a) (bt_down sorted_index p t)" for p t
    unfolding sorted_index_def by (simp del: extent_less_key) (transfer, simp add: sorted_wrt_rev sorted_wrt_filter del: extent_less_key)
qed

subsection \<open>What a look-up finds\<close>

text \<open>C40: a look-up finds the nearest record that will do. With any tree that behaves as google/btree documents for the order of \<open>newExtentIndex\<close>,
  \<open>find\<close> returns a record exactly if it starts at or before the extent, covers it and is alive, no record nearer to it does, and
  fewer than eight are nearer; a short record does not hide a longer one that starts before it.\<close>

theorem find_nearest_cover:
  assumes "ordered_tree bt items" and "\<forall>x \<in> items t. el_length x \<le> max_int64"
  shows "find_loc bt d t phys len = Some (r, delta) \<longleftrightarrow>
    r \<in> items t \<and> el_phys r \<le> phys \<and> covers d phys len r \<and> delta = wrap64 (phys - el_phys r) \<and>
    card {x \<in> items t. el_phys x \<le> phys \<and> extent_less r x} < findDepth \<and>
    (\<forall>x \<in> items t. el_phys x \<le> phys \<and> extent_less r x \<longrightarrow> \<not> covers d phys len x)"
  by (rule ordered_tree.find_iff [OF assms])

definition two_extents :: sorted_extents where
  "two_extents = add_extent \<lparr>el_phys = 20, el_length = 4, el_off = 0, el_ref = 0\<rparr>
     (add_extent \<lparr>el_phys = 10, el_length = 50, el_off = 8, el_ref = 0\<rparr> no_extents)"

lemma two_extents_set: "extent_set two_extents = {\<lparr>el_phys = 20, el_length = 4, el_off = 0, el_ref = 0\<rparr>,
    \<lparr>el_phys = 10, el_length = 50, el_off = 8, el_ref = 0\<rparr>}"
  unfolding two_extents_def by (transfer, auto simp: extent_less_def simp del: extent_less_key)

text \<open>The record at 20 is nearer and too short; the one at 10 is found.\<close>

theorem find_nearest_cover_witness:
  "find_loc sorted_index ((dedup_new :: sorted_extents dedup)\<lparr>dd_refs := [\<lparr>dr_fd = None, dr_path = ''/d'', dr_dev = 1, dr_ino = 2, dr_dead = False\<rparr>]\<rparr>)
     two_extents 30 5 = Some (\<lparr>el_phys = 10, el_length = 50, el_off = 8, el_ref = 0\<rparr>, 20)"
proof -
  let ?d = "(dedup_new :: sorted_extents dedup)\<lparr>dd_refs := [\<lparr>dr_fd = None, dr_path = ''/d'', dr_dev = 1, dr_ino = 2, dr_dead = False\<rparr>]\<rparr>"
  let ?r = "\<lparr>el_phys = 10, el_length = 50, el_off = 8, el_ref = 0\<rparr>"
  have w: "wrap64 60 = 60" "wrap64 35 = 35" "wrap64 20 = 20" "wrap64 24 = 24" by code_simp+
  have len: "\<forall>x \<in> extent_set two_extents. el_length x \<le> max_int64" by (simp add: two_extents_set max_int64_def)
  have "{x \<in> extent_set two_extents. el_phys x \<le> 30 \<and> extent_less ?r x} = {\<lparr>el_phys = 20, el_length = 4, el_off = 0, el_ref = 0\<rparr>}"
    by (auto simp: two_extents_set extent_less_def simp del: extent_less_key)
  moreover have "covers ?d 30 5 ?r" "\<not> covers ?d 30 5 \<lparr>el_phys = 20, el_length = 4, el_off = 0, el_ref = 0\<rparr>"
    using w by (simp_all add: covers_def)
  ultimately show ?thesis
    unfolding find_nearest_cover [OF sorted_list.ordered_tree_axioms len]
    by (auto simp: two_extents_set w findDepth_def)
qed

end
