(* ===== verification/Buffers.thy ===== *)
theory Buffers
  imports Prelude
begin

text \<open>
  The buffers of the copy loops (internal/fsx/copy.go, \<open>getBuf\<close> and \<open>putBuf\<close>). A buffer is a slice of a backing array, told
  apart by its number. \<open>sync.Pool\<close> is used as documented: \<open>Get\<close> takes out any one item or answers nil, and an item may vanish
  from the pool at any time. Each copy calls \<open>getBuf\<close> once and puts its buffer back when it returns.
\<close>

record slice =
  sl_array :: nat
  sl_len :: int
  sl_cap :: int

record buffers =
  bu_pool :: "slice list"
  bu_held :: "slice list"
  bu_next :: nat

definition buffers_new :: buffers where
  "buffers_new = \<lparr>bu_pool = [], bu_held = [], bu_next = 0\<rparr>"

text \<open>\<open>make\<close>, and the reslicing of what the pool gave; a negative size panics in both.\<close>

definition make_slice :: "int \<Rightarrow> buffers \<Rightarrow> (slice \<times> buffers) option" where
  "make_slice n s =
     (if n < 0 then None
      else (let b = \<lparr>sl_array = bu_next s, sl_len = n, sl_cap = n\<rparr> in
        Some (b, s\<lparr>bu_held := b # bu_held s, bu_next := Suc (bu_next s)\<rparr>)))"

text \<open>\<open>getBuf\<close>, with the answer of the pool: one of its items, or nil. An item that is too small is let go.\<close>

definition getBuf :: "int \<Rightarrow> slice option \<Rightarrow> buffers \<Rightarrow> (slice \<times> buffers) option" where
  "getBuf n v s =
     (case v of
        None \<Rightarrow> make_slice n s
      | Some b \<Rightarrow>
          (let s = s\<lparr>bu_pool := remove1 b (bu_pool s)\<rparr> in
           if sl_cap b \<ge> n
           then (if n < 0 then None
                 else (let b = b\<lparr>sl_len := n\<rparr> in Some (b, s\<lparr>bu_held := b # bu_held s\<rparr>)))
           else make_slice n s))"

definition putBuf :: "slice \<Rightarrow> buffers \<Rightarrow> buffers" where
  "putBuf b s = s\<lparr>bu_pool := b # bu_pool s, bu_held := remove1 b (bu_held s)\<rparr>"

inductive buf_step :: "buffers \<Rightarrow> buffers \<Rightarrow> bool" where
  gets: "(case v of None \<Rightarrow> True | Some b \<Rightarrow> b \<in> set (bu_pool s)) \<Longrightarrow> getBuf n v s = Some (b', s') \<Longrightarrow> buf_step s s'"
| puts: "b \<in> set (bu_held s) \<Longrightarrow> buf_step s (putBuf b s)"
| vanishes: "b \<in> set (bu_pool s) \<Longrightarrow> buf_step s (s\<lparr>bu_pool := remove1 b (bu_pool s)\<rparr>)"

abbreviation buf_reach :: "buffers \<Rightarrow> bool" where
  "buf_reach s \<equiv> buf_step\<^sup>*\<^sup>* buffers_new s"

definition buffers_ok :: "buffers \<Rightarrow> bool" where
  "buffers_ok s \<longleftrightarrow> distinct (map sl_array (bu_pool s) @ map sl_array (bu_held s)) \<and>
     (\<forall>b \<in> set (bu_pool s) \<union> set (bu_held s). sl_array b < bu_next s \<and> 0 \<le> sl_len b \<and> sl_len b \<le> sl_cap b)"

lemma distinct_remove1_map:
  "distinct (map f xs) \<Longrightarrow> x \<in> set xs \<Longrightarrow> distinct (map f (remove1 x xs)) \<and> f ` set (remove1 x xs) = f ` set xs - {f x}"
  by (induction xs) auto

lemma hold_ok:
  assumes "buffers_ok s" and "sl_array b \<notin> sl_array ` set (bu_pool s)" "sl_array b \<notin> sl_array ` set (bu_held s)"
    and "sl_array b < m" "bu_next s \<le> m" "0 \<le> sl_len b" "sl_len b \<le> sl_cap b"
  shows "buffers_ok (s\<lparr>bu_held := b # bu_held s, bu_next := m\<rparr>)"
proof -
  have "distinct (map sl_array (bu_pool s) @ map sl_array (b # bu_held s))"
    using assms(1-3) unfolding buffers_ok_def by simp
  moreover have "\<forall>c \<in> set (bu_pool s) \<union> set (b # bu_held s). sl_array c < m \<and> 0 \<le> sl_len c \<and> sl_len c \<le> sl_cap c"
  proof
    fix c assume "c \<in> set (bu_pool s) \<union> set (b # bu_held s)"
    then have "c = b \<or> sl_array c < bu_next s \<and> 0 \<le> sl_len c \<and> sl_len c \<le> sl_cap c"
      using assms(1) unfolding buffers_ok_def by auto
    then show "sl_array c < m \<and> 0 \<le> sl_len c \<and> sl_len c \<le> sl_cap c" using assms(4-7) by auto
  qed
  ultimately show ?thesis by (simp add: buffers_ok_def)
qed

lemma fresh_array: "buffers_ok s \<Longrightarrow> bu_next s \<notin> sl_array ` set (bu_pool s) \<and> bu_next s \<notin> sl_array ` set (bu_held s)"
  by (auto simp: buffers_ok_def)

lemma make_slice_ok: "buffers_ok s \<Longrightarrow> make_slice n s = Some (b, s') \<Longrightarrow> buffers_ok s'"
  using fresh_array [of s] hold_ok [of s b "Suc (bu_next s)"] by (auto simp: make_slice_def Let_def split: if_splits)

lemma vanish_ok: "buffers_ok s \<Longrightarrow> b \<in> set (bu_pool s) \<Longrightarrow> buffers_ok (s\<lparr>bu_pool := remove1 b (bu_pool s)\<rparr>)"
  using distinct_remove1_map [of sl_array "bu_pool s" b] set_remove1_subset [of b "bu_pool s"]
  by (auto simp: buffers_ok_def)

lemma put_ok:
  assumes "buffers_ok s" "b \<in> set (bu_held s)"
  shows "buffers_ok (putBuf b s)"
  using assms distinct_remove1_map [of sl_array "bu_held s" b] set_remove1_subset [of b "bu_held s"]
  by (auto simp: buffers_ok_def putBuf_def)

lemma get_ok:
  assumes "buffers_ok s" and v: "case v of None \<Rightarrow> True | Some b \<Rightarrow> b \<in> set (bu_pool s)"
    and st: "getBuf n v s = Some (b', s')"
  shows "buffers_ok s' \<and> sl_len b' = n \<and> bu_held s' = b' # bu_held s"
proof (cases v)
  case None
  then show ?thesis using assms make_slice_ok by (auto simp: getBuf_def make_slice_def Let_def split: if_splits)
next
  case (Some b)
  let ?s = "s\<lparr>bu_pool := remove1 b (bu_pool s)\<rparr>"
  have b: "b \<in> set (bu_pool s)" using v Some by simp
  have ok: "buffers_ok ?s" using vanish_ok assms(1) b by blast
  show ?thesis
  proof (cases "sl_cap b \<ge> n")
    case True
    have "distinct (map sl_array (bu_pool s))" using assms(1) by (simp add: buffers_ok_def)
    then have "sl_array b \<notin> sl_array ` set (bu_pool ?s)" using distinct_remove1_map b by fastforce
    moreover have "sl_array b \<notin> sl_array ` set (bu_held ?s)" "sl_array b < bu_next ?s"
      using assms(1) b by (auto simp: buffers_ok_def)
    moreover have e: "b' = b\<lparr>sl_len := n\<rparr>" "s' = ?s\<lparr>bu_held := b' # bu_held ?s, bu_next := bu_next ?s\<rparr>" "0 \<le> n"
      using st Some True by (auto simp: getBuf_def Let_def split: if_splits)
    ultimately have "buffers_ok s'" unfolding e(2) using ok True by (intro hold_ok) simp_all
    then show ?thesis using e by simp
  next
    case False
    then show ?thesis using st Some ok make_slice_ok by (auto simp: getBuf_def make_slice_def Let_def split: if_splits)
  qed
qed

text \<open>No two copies share a buffer. In every interleaving the buffers in use and those in the pool lie in different arrays,
  and a copy gets as many bytes as it asked for.\<close>

lemma buffers_exclusive:
  assumes "buf_reach s"
  shows "distinct (map sl_array (bu_held s))" and "sl_array ` set (bu_held s) \<inter> sl_array ` set (bu_pool s) = {}"
    and "(case v of None \<Rightarrow> True | Some b \<Rightarrow> b \<in> set (bu_pool s)) \<Longrightarrow> getBuf n v s = Some (b, s') \<Longrightarrow>
      sl_len b = n \<and> sl_array b \<notin> sl_array ` set (bu_held s)"
proof -
  have ok: "buffers_ok s" using assms
  proof (induction rule: rtranclp_induct)
    case base
    show ?case by (simp add: buffers_ok_def buffers_new_def)
  next
    case (step s s')
    from step.hyps(2) step.IH show ?case by (cases rule: buf_step.cases) (use get_ok put_ok vanish_ok in blast)+
  qed
  then show "distinct (map sl_array (bu_held s))" "sl_array ` set (bu_held s) \<inter> sl_array ` set (bu_pool s) = {}"
    by (auto simp: buffers_ok_def)
  show "sl_len b = n \<and> sl_array b \<notin> sl_array ` set (bu_held s)"
    if "case v of None \<Rightarrow> True | Some b \<Rightarrow> b \<in> set (bu_pool s)" "getBuf n v s = Some (b, s')"
    using get_ok [OF ok that] by (auto simp: buffers_ok_def)
qed

end
