(* ===== verification/Spec2Isabelle.thy ===== *)
theory Spec2Isabelle
  imports Control DemoRun Gate Pool RemoteSpec MemExtents Watch Command DirRace Slots Joins Dial ExtentIndex Buffers
begin

text \<open>
  basicopy, an auto-scaling file copier for local disks and hosts reached over SSH: a model of its Go sources
  (src/cmd/basicopy and src/internal) and proofs about the model. Every definition is translated from the code;
  the theory that holds it names the file, and the definition keeps the name of the function, method or
  type. The build modelled is the one for Linux on amd64.

  THE PROGRAM. The command (cmd/basicopy) checks its options and calls \<open>engine.Run\<close>. The engine resolves the
  target and the sources to filesystems (internal/vfs: the local one, or an SFTP session in a connection pool), walks the sources,
  queues a job per file, and lets workers copy them (internal/fsx) unless the skip decision
  (internal/scan) finds the destination up to date. A gate limits how many copies run at once; its limit W
  follows a controller (internal/control) fed by samplers of the CPU and the disks (internal/sysload, internal/device).
  A directory's metadata is applied when its last child is done. After the copies come hard links, the
  mirror pass and the removal of moved sources. A watchdog and a progress line run beside all this.

  THE THEORIES, in the order of their imports.

  Language and library. Prelude: machine integers with their wrap-around, package strings, the collections of hints.
  GoFloat: float64 with one rounding per operation. GoErr: error values, \<open>errors.Is\<close>, and the
  program's own tests of errors (\<open>retryable\<close>, \<open>isNoSpace\<close>, \<open>Unsupported\<close>). GoPath, GoMatch: paths and globs, with \<open>relPosix\<close>.

  Files. Vfs: the interfaces \<open>FS\<close> and \<open>File\<close> as records of functions over a world \<open>'w\<close>, and \<open>localFS\<close> over
  the operating system, which is a parameter. Scan: \<open>Compare\<close>. Fsx: \<open>CopyFile\<close>, its streaming, sparse and
  \<open>copy_file_range\<close> loops, metadata and extended attributes. Extents: the extent-aware copy. Publish: the contract
  of a filesystem (the locales \<open>publish_fs\<close>, \<open>stream_fs\<close>, \<open>sparse_fs\<close>) and what \<open>CopyFile\<close> keeps under it at every
  instant. ExtentPlan: the plan of an extent-aware copy and what its records claim. ExtentClone: the contract with range clones
  (\<open>clone_fs\<close>) and the invariant of the index. ExtentSpec: the exactness of the copy. ExtentLoops: its loops end.
  ExtentIndex: the order of the index, the tree as the locale \<open>ordered_tree\<close>, what a look-up finds. Buffers: the pool of copy buffers. MemFs, MemExtents: an operating system in memory, on which those locales are interpreted and the properties
  evaluated. CopySpec: the properties of copying.

  Engine. Options: the options, \<open>Validate\<close>, \<open>ParseSize\<close>. Runner: the state \<open>runner\<close> the goroutines share, the fixed
  context \<open>ctx\<close>, output, aborts, the space guard, directory states, and what a worker does with one file. Walk: the
  visit of a tree, exclusion, symbolic and hard links, root renames. Engine: mirror, removal of sources, \<open>Run\<close>.
  WalkLaw: the locale \<open>walk_law\<close>, which carries an invariant through a whole walk and is interpreted once per
  invariant. EngineSpec, DirSpec, MoveSpec, VisitSpec: the properties of a run. DemoRun: runs evaluated.

  Concurrency. CondVar: a mutex with a condition variable as a step relation, and the contract \<open>cond_var\<close> under
  which no wake-up is lost. Gate (the gate and the work queue), Pool (connections), Prefetch (listings) are its clients and interpretations.
  Slots: files and requests on a pool, interleaved. DirRace: the atomic accesses of dirmeta.go, interleaved. Pipeline: the
  walk, the queue, the workers and the gate, interleaved. Joins: the same with the main goroutine's joins and the metadata workers.

  Remote ends. Location: arguments, ssh command lines, the registry. Remote: \<open>remoteFS\<close> over the sftp client
  library, a parameter with documented laws. RemoteSpec: evaluated on a server in memory. Ssh: the ssh processes, the terminal's
  Ctrl-C, package interrupt and the goroutine of main that waits for signals, interleaved. Dial: the functions of ssh.go that
  start and close connections, as runs of Ssh, and the life of a registry with the dials that widen its pools.

  Around a run. Control: the controller. Autoscale: pool sizes, samplers and the loop that feeds the controller and
  sets the gate. Watch: the watchdog. Console: messages and the live line against a terminal. Progress: the texts.
  Command: flags, target and sources, summary, exit status.

  WHAT THE PROPERTIES SHOW. Control and Autoscale: W stays within its bounds, a guard forbids growth, a blocked
  stream reaches the ceiling; every sample is well formed and the gate's limit is W. Copying: the destination shows the old
  or the final contents at every instant; streamed, sparse and extent-aware copies leave the source's bytes. The
  run: a dry run changes nothing, a run returns, an abort stops it, every job has one outcome, every directory gets its
  metadata, moves and the mirror pass remove only what they may, nothing is copied into itself. Monitors: bounds, no lost
  wake-up, order, slots that all come back, and a
  pipeline that copies each job once and drains, and a run that passes its joins only when all metadata is applied. Connections:
  a Ctrl-C reaches no ssh process; a signal is queued for main unless it is a Ctrl-C while an ssh is being started, which is lost; the
  close of a transport returns; a failed dial leaves no process, and closing the registry ends every process but those that a dial
  still in flight brings. Texts: round trips of paths and
  locations, byte counts, the screen.
  Lemmas that are no properties state the limits the proofs met: where a duration, a size or an estimate overflows,
  where a failed rename deletes its destination, where a move takes the wrong server, where a reused inode is
  trusted, where a directory's metadata may precede its last file (DirRace), where a process survives \<open>KillAll\<close> and where a Ctrl-C is lost (Ssh), and where
  ssh reads a host as an option (Dial).

  BOUNDS AND FUEL. \<open>visit\<close>, the mirror pass and \<open>run\<close> take as fuel the depth of directories they may enter; \<open>run_returns\<close>
  shows that any bound on the depth of what the filesystem lists is enough. The copy loops of
  Extents carry fuel, and \<open>extent_loops_return\<close> shows that the length asked for is enough. The loops of \<open>CopyFile\<close>
  take the list of what the reads answer. Counters of a run are unbounded where the code has \<open>atomic.Int64\<close>;
  durations, sizes, offsets and addresses wrap or saturate at 64 bits as in Go. A float outside the range of
  \<open>int64\<close> converts as the amd64 instruction does.

  ORDER. Engine puts a run in one order: the walk, the copies, the links, the directory metadata, the mirror pass, the
  removals. The code overlaps the first four. What depends on their overlap is modelled apart, with every
  interleaving: the monitors over CondVar, Slots, DirRace, Pipeline, Joins, Ssh, and in Extents the parameter for what other workers do
  between two polls. The interrupt context is a function from the number of the poll to its answer, so that a
  theorem covers an interrupt at any poll.

  NOT MODELLED. The parsing of the command line (cobra), version.go; the raw system calls behind the operating system parameter;
  the sftp, blake3 and btree packages, which are parameters; the files for other platforms. The sessions of Ssh are not
  joined to a run: \<open>Dial\<close> of a run is a parameter there, so that what a run does with a connection and what the
  process behind it does are shown apart. A terminal narrower than the live line is outside the model of Console.
\<close>

end
